(* ===== verification/Prelude.thy ===== *)
theory Prelude
  imports Main "HOL-Library.Word" "HOL-Library.AList" "HOL-Library.Multiset"
begin

text \<open>
  Shared vocabulary of the development: Go strings as byte strings, the parts of
  \<^verbatim>\<open>strings\<close>, \<^verbatim>\<open>strconv\<close> and \<^verbatim>\<open>fmt\<close> that the program calls, 64-bit wrap-around,
  Go maps as association lists with an explicit iteration order, and the fact
  collections that the component theories fill.
\<close>

section \<open>Fact collections\<close>

named_theorems text_simps \<open>unfoldings of the text helpers\<close>
named_theorems valid_iff \<open>a validator reports nothing iff its declarative contract holds\<close>
named_theorems frame_simps \<open>state components an operation leaves alone\<close>
named_theorems render_simps \<open>unfoldings that evaluate a renderer\<close>

section \<open>Go integers\<close>

text \<open>Go's \<^verbatim>\<open>int\<close> and \<^verbatim>\<open>int64\<close> are 64 bits wide; arithmetic wraps around.\<close>

definition wrap64 :: "int \<Rightarrow> int" where
  "wrap64 x = (x + 2 ^ 63) mod 2 ^ 64 - 2 ^ 63"

definition int64_range :: "int \<Rightarrow> bool" where
  "int64_range x \<longleftrightarrow> - (2 ^ 63) \<le> x \<and> x < 2 ^ 63"

lemma wrap64_id: "int64_range x \<Longrightarrow> wrap64 x = x"
  by (simp add: wrap64_def int64_range_def)

lemma wrap64_in_range: "int64_range (wrap64 x)"
proof -
  have "0 \<le> (x + 2 ^ 63) mod 2 ^ 64" "(x + 2 ^ 63) mod 2 ^ 64 < (2 ^ 64 :: int)"
    by simp_all
  then show ?thesis unfolding wrap64_def int64_range_def by simp
qed

section \<open>Strings\<close>

type_synonym bytes = string

abbreviation newline :: char where
  "newline \<equiv> CHR 0x0A"

definition nl :: string where
  "nl = [newline]"

text \<open>\<^verbatim>\<open>strconv.Itoa\<close> and the \<^verbatim>\<open>%d\<close> verb.\<close>

definition digit_char :: "nat \<Rightarrow> char" where
  "digit_char d = char_of (48 + d)"

fun nat_text :: "nat \<Rightarrow> string" where
  "nat_text n = (if n < 10 then [digit_char n] else nat_text (n div 10) @ [digit_char (n mod 10)])"

declare nat_text.simps [simp del]

definition itoa :: "int \<Rightarrow> string" where
  "itoa i = (if i < 0 then CHR ''-'' # nat_text (nat (- i)) else nat_text (nat i))"

definition is_digit :: "char \<Rightarrow> bool" where
  "is_digit c \<longleftrightarrow> 48 \<le> (of_char c :: nat) \<and> (of_char c :: nat) \<le> 57"

definition digit_val :: "char \<Rightarrow> nat" where
  "digit_val c = of_char c - 48"

text \<open>\<^verbatim>\<open>strings.Contains\<close>, \<^verbatim>\<open>strings.LastIndex\<close> for a one-byte needle,
  \<^verbatim>\<open>strings.Split\<close> on one byte, \<^verbatim>\<open>strings.SplitN(s, sep, 2)\<close>,
  \<^verbatim>\<open>strings.TrimSuffix\<close> of one byte and \<^verbatim>\<open>strings.Fields\<close> on ASCII space.\<close>

fun str_contains :: "string \<Rightarrow> string \<Rightarrow> bool" where
  "str_contains [] pat = (pat = [])"
| "str_contains (c # cs) pat = (take (length pat) (c # cs) = pat \<or> str_contains cs pat)"

fun last_index :: "char \<Rightarrow> string \<Rightarrow> nat option" where
  "last_index d [] = None"
| "last_index d (c # cs) =
     (case last_index d cs of
        Some i \<Rightarrow> Some (Suc i)
      | None \<Rightarrow> if c = d then Some 0 else None)"

fun split_char :: "char \<Rightarrow> string \<Rightarrow> string list" where
  "split_char d [] = [[]]"
| "split_char d (c # cs) =
     (if c = d then [] # split_char d cs
      else case split_char d cs of [] \<Rightarrow> [[c]] | w # ws \<Rightarrow> (c # w) # ws)"

definition split_first :: "char \<Rightarrow> string \<Rightarrow> string list" where
  "split_first d s =
     (if d \<in> set s then [takeWhile (\<lambda>c. c \<noteq> d) s, tl (dropWhile (\<lambda>c. c \<noteq> d) s)] else [s])"

definition trim_suffix_char :: "char \<Rightarrow> string \<Rightarrow> string" where
  "trim_suffix_char d s = (if s \<noteq> [] \<and> last s = d then butlast s else s)"

definition is_space :: "char \<Rightarrow> bool" where
  "is_space c \<longleftrightarrow> c \<in> {CHR '' '', CHR 0x09, CHR 0x0A, CHR 0x0B, CHR 0x0C, CHR 0x0D}"

definition str_fields :: "string \<Rightarrow> string list" where
  "str_fields s = filter (\<lambda>w. w \<noteq> []) (split_char (CHR '' '')
     (map (\<lambda>c. if is_space c then CHR '' '' else c) s))"

text \<open>
  \<^verbatim>\<open>strings.ToLower\<close> on ASCII letters. The only code points outside ASCII whose lower
  case is ASCII map to \<^verbatim>\<open>k\<close> and \<^verbatim>\<open>i\<close>, which occur in neither of the two words the
  program compares with, so the comparison has the same outcome on every string.
\<close>

definition lower_char :: "char \<Rightarrow> char" where
  "lower_char c = (if 65 \<le> (of_char c :: nat) \<and> (of_char c :: nat) \<le> 90
                   then char_of ((of_char c :: nat) + 32) else c)"

definition to_lower :: "string \<Rightarrow> string" where
  "to_lower s = map lower_char s"

text \<open>A list of words joined by a separator, the shape of the loops
  \<^verbatim>\<open>for i, p := range parts { if i > 0 { s += sep }; s += p }\<close>.\<close>

fun join_with :: "string \<Rightarrow> string list \<Rightarrow> string" where
  "join_with sep [] = []"
| "join_with sep [w] = w"
| "join_with sep (w # v # ws) = w @ sep @ join_with sep (v # ws)"

text \<open>The lines of a text, each without its final newline.\<close>

definition lines_of :: "string \<Rightarrow> string list" where
  "lines_of s = split_char newline s"

definition one_line :: "string \<Rightarrow> bool" where
  "one_line s \<longleftrightarrow> newline \<notin> set s"

text \<open>A string between double quotes; UTF-8 punctuation that the templates contain.\<close>

definition quoted :: "string \<Rightarrow> string" where
  "quoted s = CHR 0x22 # s @ [CHR 0x22]"

definition em_dash :: string where
  "em_dash = [CHR 0xE2, CHR 0x80, CHR 0x94]"

definition right_arrow :: string where
  "right_arrow = [CHR 0xE2, CHR 0x86, CHR 0x92]"

definition starts_with :: "string \<Rightarrow> string \<Rightarrow> bool" where
  "starts_with p s \<longleftrightarrow> take (length p) s = p"

subsection \<open>Facts about the text helpers\<close>

lemma starts_with_append [simp]: "starts_with p (p @ s)"
  by (simp add: starts_with_def)

lemma filter_none: "(\<And>l. l \<in> set ls \<Longrightarrow> \<not> P l) \<Longrightarrow> filter P ls = []"
  by (simp add: filter_empty_conv)

lemma of_char_digit_char: "d < 10 \<Longrightarrow> (of_char (digit_char d) :: nat) = 48 + d"
  by (simp add: digit_char_def)

lemma is_digit_digit_char: "d < 10 \<Longrightarrow> is_digit (digit_char d)"
  by (simp add: is_digit_def of_char_digit_char)

lemma digit_val_digit_char [simp]: "d < 10 \<Longrightarrow> digit_val (digit_char d) = d"
  by (simp add: digit_val_def of_char_digit_char)

lemma nat_text_nonempty [simp]: "nat_text n \<noteq> []"
  by (subst nat_text.simps) simp

lemma nat_text_digits: "c \<in> set (nat_text n) \<Longrightarrow> is_digit c"
proof (induction n rule: nat_text.induct)
  case (1 n)
  then show ?case
    by (cases "n < 10")
      (auto simp: nat_text.simps [of n] is_digit_digit_char split: if_splits)
qed

lemma is_digit_neq: "is_digit c \<Longrightarrow> c \<noteq> CHR ''.'' \<and> c \<noteq> CHR '':'' \<and> c \<noteq> CHR ''%''
    \<and> c \<noteq> CHR ''/'' \<and> c \<noteq> CHR '' '' \<and> c \<noteq> CHR ''-'' \<and> c \<noteq> newline"
  by (auto simp: is_digit_def)

lemma nat_text_chars [simp]:
  "CHR ''.'' \<notin> set (nat_text n)" "CHR '':'' \<notin> set (nat_text n)" "CHR ''%'' \<notin> set (nat_text n)"
  "CHR ''/'' \<notin> set (nat_text n)" "CHR '' '' \<notin> set (nat_text n)" "newline \<notin> set (nat_text n)"
  "CHR ''-'' \<notin> set (nat_text n)"
  by (blast dest: nat_text_digits is_digit_neq)+

lemma nat_text_less_ten: "n < 10 \<Longrightarrow> nat_text n = [digit_char n]"
  by (simp add: nat_text.simps)

lemma nat_text_step: "\<not> n < 10 \<Longrightarrow> nat_text n = nat_text (n div 10) @ [digit_char (n mod 10)]"
  by (simp add: nat_text.simps)

lemma digit_char_val: "is_digit c \<Longrightarrow> digit_char (digit_val c) = c \<and> digit_val c < 10"
  by (auto simp: digit_char_def digit_val_def is_digit_def)

lemma nat_text_snoc:
  "is_digit c \<Longrightarrow> nat_text (v * 10 + digit_val c) = (if v = 0 then [] else nat_text v) @ [c]"
  using digit_char_val [of c] by (auto simp: nat_text_less_ten nat_text_step)

text \<open>Reading the digits back: printing is injective.\<close>

definition read_digits :: "string \<Rightarrow> nat" where
  "read_digits s = foldl (\<lambda>n c. n * 10 + digit_val c) 0 s"

lemma read_digits_nat_text [simp]: "read_digits (nat_text n) = n"
proof (induction n rule: nat_text.induct)
  case (1 n)
  then show ?case
    by (cases "n < 10") (simp_all add: nat_text.simps [of n] read_digits_def)
qed

lemma nat_text_inject [simp]: "nat_text m = nat_text n \<longleftrightarrow> m = n"
  by (metis read_digits_nat_text)

lemma itoa_inject [simp]: "itoa i = itoa j \<longleftrightarrow> i = j"
proof
  assume eq: "itoa i = itoa j"
  have hd_ne: "hd (nat_text n) \<noteq> CHR ''-''" for n
    using nat_text_nonempty [of n] nat_text_chars(7) [of n] by (metis hd_in_set)
  show "i = j"
  proof (cases "i < 0"; cases "j < 0")
    assume "i < 0" "\<not> j < 0"
    with eq have "nat_text (nat j) = CHR ''-'' # nat_text (nat (- i))" by (simp add: itoa_def)
    with hd_ne [of "nat j"] show ?thesis by simp
  next
    assume "\<not> i < 0" "j < 0"
    with eq have "nat_text (nat i) = CHR ''-'' # nat_text (nat (- j))" by (simp add: itoa_def)
    with hd_ne [of "nat i"] show ?thesis by simp
  qed (use eq in \<open>simp_all add: itoa_def\<close>)
qed simp

lemma one_line_simps [simp]:
  "one_line []" "one_line (a @ b) \<longleftrightarrow> one_line a \<and> one_line b"
  "one_line (c # cs) \<longleftrightarrow> c \<noteq> newline \<and> one_line cs" "one_line (nat_text n)"
  by (auto simp: one_line_def)

lemma split_char_nonempty [simp]: "split_char d s \<noteq> []"
  by (induction s) (auto split: list.splits)

lemma split_char_none: "d \<notin> set s \<Longrightarrow> split_char d s = [s]"
  by (induction s) (auto split: list.splits)

lemma split_char_append:
  "d \<notin> set a \<Longrightarrow> split_char d (a @ d # b) = a # split_char d b"
  by (induction a) (auto split: list.splits)

lemma lines_of_one_line: "one_line s \<Longrightarrow> lines_of s = [s]"
  by (simp add: lines_of_def one_line_def split_char_none)

lemma lines_of_append: "one_line a \<Longrightarrow> lines_of (a @ nl @ b) = a # lines_of b"
  by (simp add: lines_of_def one_line_def nl_def split_char_append)

text \<open>A text written as lines, each closed by a newline, is read back as these lines.\<close>

definition text_of :: "string list \<Rightarrow> string" where
  "text_of ls = concat (map (\<lambda>l. l @ nl) ls)"

lemma text_of_simps [simp]:
  "text_of [] = []" "text_of (l # ls) = l @ nl @ text_of ls"
  "text_of (ls @ ks) = text_of ls @ text_of ks"
  by (simp_all add: text_of_def)

lemma lines_of_text_of: "\<forall>l \<in> set ls. one_line l \<Longrightarrow> lines_of (text_of ls) = ls @ [[]]"
  by (induction ls) (simp_all add: lines_of_append lines_of_one_line)

lemma last_index_None_iff: "last_index d s = None \<longleftrightarrow> d \<notin> set s"
  by (induction s) (auto split: option.splits if_splits)

lemma last_index_Some:
  "last_index d s = Some i \<Longrightarrow> i < length s \<and> s ! i = d \<and> d \<notin> set (drop (Suc i) s)"
  by (induction s arbitrary: i)
    (auto split: option.splits if_splits simp: last_index_None_iff)

lemma last_index_append: "d \<notin> set b \<Longrightarrow> last_index d (a @ d # b) = Some (length a)"
proof (induction a)
  case Nil
  then show ?case using last_index_None_iff [of d b] by simp
qed simp

lemma str_contains_char: "str_contains s [c] \<longleftrightarrow> c \<in> set s"
  by (induction s) auto

lemma join_with_Cons: "ws \<noteq> [] \<Longrightarrow> join_with sep (w # ws) = w @ sep @ join_with sep ws"
  by (cases ws) simp_all

lemma join_with_append:
  "ws \<noteq> [] \<Longrightarrow> vs \<noteq> [] \<Longrightarrow> join_with sep (ws @ vs) = join_with sep ws @ sep @ join_with sep vs"
proof (induction ws)
  case (Cons w ws)
  then show ?case by (cases ws) (simp_all add: join_with_Cons)
qed simp

lemma one_line_join_with:
  "one_line sep \<Longrightarrow> \<forall>w \<in> set ws. one_line w \<Longrightarrow> one_line (join_with sep ws)"
  by (induction sep ws rule: join_with.induct) simp_all

section \<open>Go maps\<close>

text \<open>
  A Go map is an association list with distinct keys; a lookup is \<^term>\<open>map_of\<close>, a store is
  \<^term>\<open>AList.update\<close>, \<^verbatim>\<open>delete\<close> is \<^term>\<open>AList.delete\<close>. Go visits the keys of
  a map in an unspecified order: every operation that ranges over a map takes the order
  as an argument, a function that may permute the keys in any way.
\<close>

type_synonym ('k, 'v) gomap = "('k \<times> 'v) list"

definition keys_of :: "('k, 'v) gomap \<Rightarrow> 'k list" where
  "keys_of m = map fst m"

definition map_ok :: "('k, 'v) gomap \<Rightarrow> bool" where
  "map_ok m \<longleftrightarrow> distinct (keys_of m)"

definition some_order :: "('k list \<Rightarrow> 'k list) \<Rightarrow> bool" where
  "some_order it \<longleftrightarrow> (\<forall>ks. mset (it ks) = mset ks)"

lemma some_order_id: "some_order (\<lambda>ks. ks)"
  by (simp add: some_order_def)

lemma some_order_rev: "some_order rev"
  by (simp add: some_order_def)

lemma set_order [simp]: "some_order it \<Longrightarrow> set (it ks) = set ks"
  by (metis some_order_def set_mset_mset)

lemma distinct_order [simp]: "some_order it \<Longrightarrow> distinct (it ks) \<longleftrightarrow> distinct ks"
  by (metis some_order_def mset_eq_imp_distinct_iff)

lemma length_order [simp]: "some_order it \<Longrightarrow> length (it ks) = length ks"
  by (metis some_order_def size_mset)

lemma keys_of_simps [simp]: "keys_of [] = []" "keys_of ((k, v) # m) = k # keys_of m"
  by (simp_all add: keys_of_def)

lemma set_keys_of: "set (keys_of m) = dom (map_of m)"
  by (simp add: keys_of_def dom_map_of_conv_image_fst)

lemma map_ok_empty [simp]: "map_ok []"
  by (simp add: map_ok_def)

lemma map_ok_update [simp]: "map_ok m \<Longrightarrow> map_ok (AList.update k v m)"
  by (simp add: map_ok_def keys_of_def distinct_update)

lemma map_ok_delete [simp]: "map_ok m \<Longrightarrow> map_ok (AList.delete k m)"
  by (simp add: map_ok_def keys_of_def distinct_delete)

lemma lookup_update [simp]: "map_of (AList.update k v m) = (map_of m)(k \<mapsto> v)"
  by (simp add: update_conv')

lemma lookup_delete [simp]: "map_of (AList.delete k m) = (map_of m)(k := None)"
  by (simp add: delete_conv')

lemma keys_update: "k \<in> set (keys_of m) \<Longrightarrow> keys_of (AList.update k v m) = keys_of m"
  by (induction m) (auto simp: keys_of_def)

section \<open>Loops over lists with an index\<close>

text \<open>\<^verbatim>\<open>for i, x := range xs\<close> whose body appends to a result.\<close>

fun range_concat :: "(nat \<Rightarrow> 'a \<Rightarrow> 'b list) \<Rightarrow> nat \<Rightarrow> 'a list \<Rightarrow> 'b list" where
  "range_concat f i [] = []"
| "range_concat f i (x # xs) = f i x @ range_concat f (Suc i) xs"

lemma range_concat_Nil_iff:
  "range_concat f i xs = [] \<longleftrightarrow> (\<forall>j < length xs. f (i + j) (xs ! j) = [])"
proof (induction xs arbitrary: i)
  case (Cons x xs)
  show ?case by (simp add: Cons.IH All_less_Suc2)
qed simp

lemma range_concat_set:
  "set (range_concat f i xs) = (\<Union>j < length xs. set (f (i + j) (xs ! j)))"
proof (induction xs arbitrary: i)
  case (Cons x xs)
  show ?case by (simp add: Cons.IH lessThan_Suc_eq_insert_0 image_image)
qed simp

lemma all_nth_set: "(\<forall>j < length xs. P (xs ! j)) \<longleftrightarrow> (\<forall>x \<in> set xs. P x)"
  by (metis in_set_conv_nth)

lemma range_concat_set_Nil_iff:
  assumes "\<And>i x. f i x = [] \<longleftrightarrow> P x"
  shows "range_concat f i xs = [] \<longleftrightarrow> (\<forall>x \<in> set xs. P x)"
  by (simp add: range_concat_Nil_iff assms all_nth_set)

end
