(* ===== verification/NetAddr.thy ===== *)
theory NetAddr
  imports Prelude
begin

unbundle bit_operations_syntax

text \<open>
  What the program uses of Go's package \<^verbatim>\<open>net\<close> (and of \<^verbatim>\<open>net/netip\<close> beneath it):
  \<^verbatim>\<open>ParseIP\<close>, \<^verbatim>\<open>ParseCIDR\<close>, \<^verbatim>\<open>IPNet.Contains\<close>, \<^verbatim>\<open>IP.String\<close> and
  \<^verbatim>\<open>IPNet.String\<close>. An address is a list of 4 or 16 bytes as in Go, where an IPv4
  address parsed from text is kept in its 16-byte IPv4-mapped form. The lemmas show that
  printing and parsing dotted quads are inverse, that membership in a parsed network is a
  comparison of its leading bits, and that two parsed networks share an address exactly
  when one contains the base address of the other.
\<close>

section \<open>Addresses and masks\<close>

type_synonym byte = "8 word"
type_synonym ip = "byte list"

record ipnet =
  net_IP :: ip
  net_Mask :: "byte list"

definition v4_in_v6_prefix :: "byte list" where
  "v4_in_v6_prefix = replicate 10 0 @ [255, 255]"

text \<open>\<^verbatim>\<open>IP.To4\<close>.\<close>

definition to4 :: "ip \<Rightarrow> ip option" where
  "to4 x = (if length x = 4 then Some x
            else if length x = 16 \<and> take 12 x = v4_in_v6_prefix then Some (drop 12 x)
            else None)"

text \<open>\<^verbatim>\<open>CIDRMask(ones, bits)\<close> for \<^verbatim>\<open>bits\<close> 32 or 128, as bytes.\<close>

definition mask_byte :: "nat \<Rightarrow> byte" where
  "mask_byte n = (if n \<ge> 8 then 255 else NOT (drop_bit n 255))"

fun cidr_mask :: "nat \<Rightarrow> nat \<Rightarrow> byte list" where
  "cidr_mask n 0 = []"
| "cidr_mask n (Suc l) = mask_byte n # cidr_mask (n - 8) l"

definition mask_and :: "byte list \<Rightarrow> byte list \<Rightarrow> byte list" where
  "mask_and xs ms = map2 (AND) xs ms"

section \<open>Parsing addresses\<close>

text \<open>\<^verbatim>\<open>parseIPv4Fields\<close>: \<^verbatim>\<open>val\<close> and \<^verbatim>\<open>digLen\<close> describe the current octet; it
  has no digit yet exactly when the previous character is a dot or there is none.\<close>

fun parse_v4_fields :: "string \<Rightarrow> nat \<Rightarrow> nat \<Rightarrow> nat list \<Rightarrow> nat list option" where
  "parse_v4_fields [] val digLen fs = (if length fs < 3 then None else Some (fs @ [val]))"
| "parse_v4_fields (c # cs) val digLen fs =
     (if is_digit c then
        (if digLen = 1 \<and> val = 0 then None
         else if val * 10 + digit_val c > 255 then None
         else parse_v4_fields cs (val * 10 + digit_val c) (digLen + 1) fs)
      else if c = CHR ''.'' then
        (if digLen = 0 \<or> cs = [] then None
         else if length fs = 3 then None
         else parse_v4_fields cs 0 0 (fs @ [val]))
      else None)"

definition parse_v4 :: "string \<Rightarrow> ip option" where
  "parse_v4 s = map_option (map of_nat) (parse_v4_fields s 0 0 [])"

definition hex_val :: "char \<Rightarrow> nat option" where
  "hex_val c = (let n = of_char c :: nat in
     if is_digit c then Some (n - 48)
     else if 97 \<le> n \<and> n \<le> 102 then Some (n - 87)
     else if 65 \<le> n \<and> n \<le> 70 then Some (n - 55)
     else None)"

text \<open>One group of hexadecimal digits: its value, its length and the rest of the text.\<close>

fun hex_group :: "string \<Rightarrow> nat \<Rightarrow> nat \<Rightarrow> (nat \<times> nat \<times> string) option" where
  "hex_group [] off acc = Some (acc, off, [])"
| "hex_group (c # cs) off acc =
     (case hex_val c of
        None \<Rightarrow> Some (acc, off, c # cs)
      | Some d \<Rightarrow> if off > 3 then None else hex_group cs (Suc off) (acc * 16 + d))"

text \<open>The loop of \<^verbatim>\<open>parseIPv6\<close>: the bytes read so far and the place of the ellipsis.\<close>

function parse_v6_loop ::
  "string \<Rightarrow> byte list \<Rightarrow> nat option \<Rightarrow> (string \<times> byte list \<times> nat option) option" where
  "parse_v6_loop s bs ell =
     (if length bs \<ge> 16 then Some (s, bs, ell)
      else case hex_group s 0 0 of
        None \<Rightarrow> None
      | Some (acc, off, rest) \<Rightarrow>
          if off = 0 then None
          else if rest \<noteq> [] \<and> hd rest = CHR ''.'' then
            (if ell = None \<and> length bs \<noteq> 12 then None
             else if length bs + 4 > 16 then None
             else case parse_v4_fields s 0 0 [] of
                None \<Rightarrow> None
              | Some fs \<Rightarrow> Some ([], bs @ map of_nat fs, ell))
          else let bs' = bs @ [of_nat (acc div 256), of_nat (acc mod 256)] in
            (case rest of
               [] \<Rightarrow> Some ([], bs', ell)
             | c # r \<Rightarrow>
                 if c \<noteq> CHR '':'' \<or> r = [] then None
                 else if hd r = CHR '':'' then
                   (if ell \<noteq> None then None
                    else if tl r = [] then Some ([], bs', Some (length bs'))
                    else parse_v6_loop (tl r) bs' (Some (length bs')))
                 else parse_v6_loop r bs' ell))"
  by pat_completeness auto
termination
  by (relation "measure (\<lambda>(s, bs, ell). 16 - length bs)") auto

declare parse_v6_loop.simps [simp del]

text \<open>\<^verbatim>\<open>parseIPv6\<close> for an address without zone; \<^verbatim>\<open>ParseIP\<close> and \<^verbatim>\<open>ParseCIDR\<close>
  reject every address that has one.\<close>

definition parse_v6 :: "string \<Rightarrow> ip option" where
  "parse_v6 s0 =
     (let lead = take 2 s0 = ''::'';
          s = (if lead then drop 2 s0 else s0);
          ell0 = (if lead then Some 0 else None)
      in if CHR ''%'' \<in> set s0 then None
         else if lead \<and> s = [] then Some (replicate 16 0)
         else case parse_v6_loop s [] ell0 of
           None \<Rightarrow> None
         | Some (rest, bs, ell) \<Rightarrow>
             if rest \<noteq> [] then None
             else if length bs < 16 then
               (case ell of
                  None \<Rightarrow> None
                | Some e \<Rightarrow> Some (take e bs @ replicate (16 - length bs) 0 @ drop e bs))
             else if ell \<noteq> None then None else Some bs)"

text \<open>\<^verbatim>\<open>netip.ParseAddr\<close>: the first dot or colon decides the family; the result says
  whether the text was of the IPv4 form.\<close>

definition parse_addr :: "string \<Rightarrow> (bool \<times> ip) option" where
  "parse_addr s =
     (case filter (\<lambda>c. c \<in> {CHR ''.'', CHR '':'', CHR ''%''}) s of
        [] \<Rightarrow> None
      | c # _ \<Rightarrow>
          if c = CHR ''.'' then map_option (Pair True) (parse_v4 s)
          else if c = CHR '':'' then map_option (Pair False) (parse_v6 s)
          else None)"

definition as16 :: "bool \<Rightarrow> ip \<Rightarrow> ip" where
  "as16 v4 x = (if v4 then v4_in_v6_prefix @ x else x)"

definition ParseIP :: "string \<Rightarrow> ip option" where
  "ParseIP s = map_option (\<lambda>(v4, x). as16 v4 x) (parse_addr s)"

text \<open>\<^verbatim>\<open>dtoi\<close>: the decimal prefix length; values from \<^verbatim>\<open>0xFFFFFF\<close> on fail.\<close>

fun dtoi :: "string \<Rightarrow> int \<Rightarrow> int option" where
  "dtoi [] n = Some n"
| "dtoi (c # cs) n =
     (if is_digit c \<and> n * 10 + int (digit_val c) < 0xFFFFFF
      then dtoi cs (n * 10 + int (digit_val c)) else None)"

definition ParseCIDR :: "string \<Rightarrow> (ip \<times> ipnet) option" where
  "ParseCIDR s =
     (if CHR ''/'' \<notin> set s then None
      else let a = takeWhile (\<lambda>c. c \<noteq> CHR ''/'') s;
               m = tl (dropWhile (\<lambda>c. c \<noteq> CHR ''/'') s)
        in case parse_addr a of
             None \<Rightarrow> None
           | Some (v4, x) \<Rightarrow>
               (if m = [] then None
                else case dtoi m 0 of
                  None \<Rightarrow> None
                | Some n \<Rightarrow>
                    if n < 0 \<or> n > int (8 * length x) then None
                    else Some (as16 v4 x,
                      \<lparr>net_IP = mask_and x (cidr_mask (nat n) (length x)),
                       net_Mask = cidr_mask (nat n) (length x)\<rparr>)))"

section \<open>Membership\<close>

definition networkNumberAndMask :: "ipnet \<Rightarrow> (ip \<times> byte list) option" where
  "networkNumberAndMask n =
     (case to4 (net_IP n) of
        Some x4 \<Rightarrow>
          if length (net_Mask n) = 4 then Some (x4, net_Mask n)
          else if length (net_Mask n) = 16 then Some (x4, drop 12 (net_Mask n))
          else None
      | None \<Rightarrow>
          if length (net_IP n) \<noteq> 16 then None
          else if length (net_Mask n) = 16 then Some (net_IP n, net_Mask n)
          else None)"

definition Contains :: "ipnet \<Rightarrow> ip \<Rightarrow> bool" where
  "Contains n x =
     (let y = (case to4 x of Some x4 \<Rightarrow> x4 | None \<Rightarrow> x)
      in case networkNumberAndMask n of
           None \<Rightarrow> y = []
         | Some (nn, m) \<Rightarrow> length y = length nn \<and> mask_and nn m = mask_and y m)"

section \<open>Printing\<close>

definition dotted :: "byte list \<Rightarrow> string" where
  "dotted bs = join_with ''.'' (map (\<lambda>b. nat_text (unat b)) bs)"

definition hex_char :: "nat \<Rightarrow> char" where
  "hex_char d = (if d < 10 then char_of (48 + d) else char_of (87 + d))"

fun hex_text :: "nat \<Rightarrow> string" where
  "hex_text n = (if n < 16 then [hex_char n] else hex_text (n div 16) @ [hex_char (n mod 16)])"

declare hex_text.simps [simp del]

fun groups16 :: "byte list \<Rightarrow> nat list" where
  "groups16 (a # b # bs) = (unat a * 256 + unat b) # groups16 bs"
| "groups16 _ = []"

text \<open>The first longest run of at least two zero groups (\<^verbatim>\<open>appendTo6\<close>).\<close>

fun zero_run :: "nat list \<Rightarrow> nat" where
  "zero_run (0 # gs) = Suc (zero_run gs)"
| "zero_run _ = 0"

fun best_run :: "nat \<Rightarrow> nat list \<Rightarrow> nat \<times> nat \<Rightarrow> nat \<times> nat" where
  "best_run i [] best = best"
| "best_run i (g # gs) best =
     best_run (Suc i) gs
       (let l = zero_run (g # gs) in if l \<ge> 2 \<and> l > snd best then (i, l) else best)"

definition v6_text :: "ip \<Rightarrow> string" where
  "v6_text x =
     (let gs = groups16 x; (z, l) = best_run 0 gs (0, 0)
      in if l = 0 then join_with '':'' (map hex_text gs)
         else join_with '':'' (map hex_text (take z gs)) @ ''::''
            @ join_with '':'' (map hex_text (drop (z + l) gs)))"

definition IP_String :: "ip option \<Rightarrow> string" where
  "IP_String x =
     (case x of
        None \<Rightarrow> ''<nil>''
      | Some bs \<Rightarrow> (case to4 bs of Some b4 \<Rightarrow> dotted b4 | None \<Rightarrow> v6_text bs))"

text \<open>\<^verbatim>\<open>simpleMaskLength\<close> of a mask that is a run of ones.\<close>

fun mask_len :: "byte list \<Rightarrow> nat" where
  "mask_len [] = 0"
| "mask_len (b # bs) = length (filter (bit b) [0..<8]) + mask_len bs"

definition IPNet_String :: "ipnet \<Rightarrow> string" where
  "IPNet_String n =
     (case networkNumberAndMask n of
        None \<Rightarrow> ''<nil>''
      | Some (nn, m) \<Rightarrow> IP_String (Some nn) @ ''/'' @ nat_text (mask_len m))"

section \<open>Lengths\<close>

lemma length_cidr_mask [simp]: "length (cidr_mask n l) = l"
  by (induction n l rule: cidr_mask.induct) simp_all

lemma length_mask_and [simp]: "length (mask_and xs ms) = min (length xs) (length ms)"
  by (simp add: mask_and_def)

lemma length_v4_prefix [simp]: "length v4_in_v6_prefix = 12"
  by (simp add: v4_in_v6_prefix_def)

lemma parse_v4_fields_length:
  "parse_v4_fields s v dl fs = Some r \<Longrightarrow> length fs \<le> 3 \<Longrightarrow> length r = 4"
  by (induction s v dl fs rule: parse_v4_fields.induct) (auto split: if_splits)

lemma parse_v4_length: "parse_v4 s = Some x \<Longrightarrow> length x = 4"
  by (auto simp: parse_v4_def dest: parse_v4_fields_length)

lemma parse_v6_loop_length:
  assumes "parse_v6_loop s bs ell = Some (rem, bs', ell')"
    and "even (length bs)" "length bs \<le> 16" "\<forall>e. ell = Some e \<longrightarrow> e \<le> length bs"
  shows "length bs' \<le> 16 \<and> (\<forall>e. ell' = Some e \<longrightarrow> e \<le> length bs')"
  using assms
proof (induction s bs ell rule: parse_v6_loop.induct)
  case (1 s bs ell)
  have two: "length bs < 16 \<Longrightarrow> length bs + 2 \<le> 16"
    using "1.prems"(2) by (auto elim: evenE)
  show ?case
  proof (cases "length bs \<ge> 16")
    case True
    with "1.prems" show ?thesis by (simp add: parse_v6_loop.simps [of s bs] Let_def)
  next
    case False
    then have small: "length bs < 16" by simp
    from False "1.prems"(1) obtain acc off rest
      where g: "hex_group s 0 0 = Some (acc, off, rest)" and off: "off \<noteq> 0"
      by (auto simp: parse_v6_loop.simps [of s bs] Let_def split: option.splits if_splits)
    show ?thesis
    proof (cases "rest \<noteq> [] \<and> hd rest = CHR ''.''")
      case True
      with False g off "1.prems" show ?thesis
        by (auto simp: parse_v6_loop.simps [of s bs] Let_def split: option.splits if_splits
            dest: parse_v4_fields_length)
    next
      case dot: False
      show ?thesis
      proof (cases rest)
        case Nil
        with False g off dot "1.prems" two [OF small] show ?thesis
          by (auto simp: parse_v6_loop.simps [of s bs] Let_def split: if_splits)
      next
        case (Cons c r)
        with False g off dot "1.prems" have colon: "c = CHR '':''" "r \<noteq> []"
          by (auto simp: parse_v6_loop.simps [of s bs] Let_def split: if_splits)
        consider (finished) "hd r = CHR '':''" "ell = None" "tl r = []"
          | (ellipsis) "hd r = CHR '':''" "ell = None" "tl r \<noteq> []"
          | (group) "hd r \<noteq> CHR '':''"
          using False g off dot Cons colon "1.prems"(1)
          by (auto simp: parse_v6_loop.simps [of s bs] Let_def split: if_splits)
        then show ?thesis
        proof cases
          case finished
          with False g off dot Cons colon "1.prems" two [OF small] show ?thesis
            by (auto simp: parse_v6_loop.simps [of s bs] Let_def)
        next
          case ellipsis
          then show ?thesis
            using "1.IH"(1) g off dot Cons colon False "1.prems" two [OF small]
            by (auto simp: parse_v6_loop.simps [of s bs] Let_def)
        next
          case group
          have "\<forall>e. ell = Some e \<longrightarrow> e \<le> Suc (Suc (length bs))"
            using "1.prems"(4) by auto
          then show ?thesis
            using "1.IH"(2) group g off dot Cons colon False "1.prems" two [OF small]
            by (auto simp: parse_v6_loop.simps [of s bs] Let_def)
        qed
      qed
    qed
  qed
qed

lemma parse_v6_length: "parse_v6 s = Some x \<Longrightarrow> length x = 16"
  by (auto simp: parse_v6_def Let_def split: if_splits option.splits
      dest!: parse_v6_loop_length)

lemma parse_addr_length: "parse_addr s = Some (v4, x) \<Longrightarrow> length x = (if v4 then 4 else 16)"
  by (auto simp: parse_addr_def split: list.splits if_splits
      dest: parse_v4_length parse_v6_length)

lemma ParseIP_length: "ParseIP s = Some x \<Longrightarrow> length x = 16"
  by (auto simp: ParseIP_def as16_def dest!: parse_addr_length)

section \<open>Masks\<close>

lemma bit_255: "bit (255 :: byte) i \<longleftrightarrow> i < 8"
proof -
  have "(255 :: byte) = mask 8" by (simp add: mask_eq_exp_minus_1)
  then have "bit (255 :: byte) i = bit (mask 8 :: byte) i" by (rule arg_cong)
  also have "\<dots> \<longleftrightarrow> i < 8" by (simp only: bit_mask_iff) (auto)
  finally show ?thesis .
qed

lemma mask_byte_eq: "mask_byte n = NOT (drop_bit n 255)"
proof (cases "n \<ge> 8")
  case True
  then have "drop_bit n (255 :: byte) = 0"
    by (simp only: bit_eq_iff bit_drop_bit_eq bit_255) simp
  with True show ?thesis by (simp add: mask_byte_def)
qed (simp add: mask_byte_def)

lemma bit_mask_byte: "bit (mask_byte n) i \<longleftrightarrow> i < 8 \<and> 8 \<le> n + i"
  by (simp only: mask_byte_eq bit_not_iff bit_drop_bit_eq bit_255 comp_def) auto

lemma mask_byte_and: "mask_byte n AND mask_byte k = mask_byte (min n k)"
  by (rule bit_eqI) (auto simp: bit_and_iff bit_mask_byte)

lemma mask_and_Cons [simp]: "mask_and (x # xs) (m # ms) = (x AND m) # mask_and xs ms"
  by (simp add: mask_and_def)

lemma mask_and_Nil [simp]: "mask_and [] ms = []" "mask_and xs [] = []"
  by (simp_all add: mask_and_def)

lemma cidr_mask_and: "mask_and (cidr_mask n l) (cidr_mask k l) = cidr_mask (min n k) l"
  by (induction l arbitrary: n k) (simp_all add: mask_byte_and min_diff)

lemma mask_and_assoc: "mask_and (mask_and xs ms) ns = mask_and xs (mask_and ms ns)"
proof (induction xs arbitrary: ms ns)
  case (Cons x xs)
  then show ?case by (cases ms; cases ns) (simp_all add: and.assoc)
qed simp

lemma mask_and_commute: "mask_and xs ms = mask_and ms xs"
proof (induction xs arbitrary: ms)
  case (Cons x xs)
  show ?case
  proof (cases ms)
    case (Cons m ms')
    with Cons.IH [of ms'] show ?thesis by (simp add: and.commute)
  qed simp
qed simp

lemma mask_and_idem [simp]: "mask_and ms ms = ms"
  by (induction ms) simp_all

lemma mask_and_twice [simp]: "mask_and (mask_and xs ms) ms = mask_and xs ms"
  by (simp add: mask_and_assoc)

lemma drop_cidr_mask: "drop k (cidr_mask n l) = cidr_mask (n - 8 * k) (l - k)"
proof (induction k arbitrary: n l)
  case (Suc k)
  show ?case
  proof (cases l)
    case (Suc l')
    have "n - 8 - 8 * k = n - 8 * Suc k" by simp
    with Suc Suc.IH [of "n - 8" l'] show ?thesis by simp
  qed simp
qed simp

text \<open>A network in the form \<^verbatim>\<open>ParseCIDR\<close> makes: a base address with the bits beyond the
  prefix cleared, and a prefix mask of the same length.\<close>

definition prefix_net :: "ipnet \<Rightarrow> bool" where
  "prefix_net n \<longleftrightarrow>
     (\<exists>nn k. networkNumberAndMask n = Some (nn, cidr_mask k (length nn))
        \<and> mask_and nn (cidr_mask k (length nn)) = nn \<and> (length nn = 4 \<or> length nn = 16)
        \<and> (length nn = 16 \<longrightarrow> to4 nn = None)
        \<and> (to4 (net_IP n) = Some nn \<or> to4 (net_IP n) = None \<and> net_IP n = nn))"

definition norm_ip :: "ip \<Rightarrow> ip" where
  "norm_ip x = (case to4 x of Some x4 \<Rightarrow> x4 | None \<Rightarrow> x)"

lemma Contains_norm: "Contains n (norm_ip x) = Contains n x"
  by (auto simp: Contains_def norm_ip_def to4_def split: option.splits if_splits)

lemma to4_length: "to4 x = Some y \<Longrightarrow> length y = 4"
  by (auto simp: to4_def split: if_splits)

lemma drop_mask_and: "drop k (mask_and xs ms) = mask_and (drop k xs) (drop k ms)"
  by (simp add: mask_and_def drop_map drop_zip)

lemma prefix_net_v4:
  assumes "length x = 4"
  shows "prefix_net \<lparr>net_IP = mask_and x (cidr_mask k 4), net_Mask = cidr_mask k 4\<rparr>"
  unfolding prefix_net_def
  by (rule exI [of _ "mask_and x (cidr_mask k 4)"], rule exI [of _ k])
    (simp add: networkNumberAndMask_def to4_def assms)

lemma prefix_net_v6:
  assumes "length x = 16"
  shows "prefix_net \<lparr>net_IP = mask_and x (cidr_mask k 16), net_Mask = cidr_mask k 16\<rparr>"
proof (cases "to4 (mask_and x (cidr_mask k 16))")
  case None
  then show ?thesis unfolding prefix_net_def
    by (intro exI [of _ "mask_and x (cidr_mask k 16)"] exI [of _ k])
      (simp add: networkNumberAndMask_def assms)
next
  case (Some y)
  then have y: "y = drop 12 (mask_and x (cidr_mask k 16))"
    by (auto simp: to4_def assms split: if_splits)
  have m: "drop 12 (cidr_mask k 16) = cidr_mask (k - 96) 4"
    using drop_cidr_mask [of 12 k 16] by simp
  have y': "y = mask_and (drop 12 x) (cidr_mask (k - 96) 4)"
    unfolding y drop_mask_and m ..
  show ?thesis unfolding prefix_net_def
    by (intro exI [of _ y] exI [of _ "k - 96"])
      (simp add: networkNumberAndMask_def Some m y' assms)
qed

lemma ParseCIDR_prefix_net: "ParseCIDR s = Some (x, n) \<Longrightarrow> prefix_net n"
  by (auto simp: ParseCIDR_def Let_def split: option.splits if_splits
      dest!: parse_addr_length intro: prefix_net_v4 prefix_net_v6)

lemma Contains_prefix_net:
  assumes "networkNumberAndMask n = Some (nn, m)" "mask_and nn m = nn"
  shows "Contains n x \<longleftrightarrow> length (norm_ip x) = length nn \<and> mask_and (norm_ip x) m = nn"
  using assms by (auto simp: Contains_def norm_ip_def Let_def split: option.splits)

lemma norm_net_IP:
  assumes "to4 (net_IP n) = Some nn \<or> to4 (net_IP n) = None \<and> net_IP n = nn"
  shows "norm_ip (net_IP n) = nn"
  using assms by (auto simp: norm_ip_def)

text \<open>Two prefix networks share an address iff one holds the base address of the other.\<close>

lemma overlap_iff_shared_address:
  assumes a: "prefix_net a" and b: "prefix_net b"
  shows "Contains a (net_IP b) \<or> Contains b (net_IP a) \<longleftrightarrow> (\<exists>x. Contains a x \<and> Contains b x)"
proof -
  obtain na ka where na: "networkNumberAndMask a = Some (na, cidr_mask ka (length na))"
      "mask_and na (cidr_mask ka (length na)) = na" "norm_ip (net_IP a) = na"
    using a unfolding prefix_net_def using norm_net_IP [of a] by blast
  obtain nb kb where nb: "networkNumberAndMask b = Some (nb, cidr_mask kb (length nb))"
      "mask_and nb (cidr_mask kb (length nb)) = nb" "norm_ip (net_IP b) = nb"
    using b unfolding prefix_net_def using norm_net_IP [of b] by blast
  note ca = Contains_prefix_net [OF na(1,2)] and cb = Contains_prefix_net [OF nb(1,2)]
  have own: "Contains a (net_IP a)" "Contains b (net_IP b)"
    by (simp_all add: ca cb na nb)
  have "Contains a (net_IP b) \<or> Contains b (net_IP a)" if "Contains a x" "Contains b x" for x
  proof -
    from that have len: "length na = length nb" by (simp add: ca cb)
    have narrow: "mask_and (mask_and (norm_ip x) (cidr_mask k l)) (cidr_mask j l)
        = mask_and (norm_ip x) (cidr_mask j l)" if "j \<le> k" for j k l
      using that by (simp add: mask_and_assoc cidr_mask_and min_absorb2)
    from that len have x: "mask_and (norm_ip x) (cidr_mask ka (length nb)) = na"
        "mask_and (norm_ip x) (cidr_mask kb (length nb)) = nb"
      by (simp_all add: ca cb)
    show ?thesis
    proof (cases "ka \<le> kb")
      case True
      with narrow [OF True, of "length nb"] x len na(3) nb(3) show ?thesis
        by (simp add: ca)
    next
      case False
      then have "kb \<le> ka" by simp
      with narrow [OF this, of "length nb"] x len na(3) nb(3) show ?thesis
        by (simp add: cb)
    qed
  qed
  with own show ?thesis by blast
qed

section \<open>Dotted quads: printing and parsing are inverse\<close>

lemma parse_v4_octet:
  "n \<le> 255 \<Longrightarrow> parse_v4_fields (nat_text n @ r) 0 0 fs = parse_v4_fields r n (length (nat_text n)) fs"
proof (induction n arbitrary: r rule: nat_text.induct)
  case (1 n)
  show ?case
  proof (cases "n < 10")
    case True
    then show ?thesis by (simp add: nat_text_less_ten is_digit_digit_char)
  next
    case False
    have le: "n div 10 \<le> 255" and val: "n div 10 * 10 + n mod 10 = n" and pos: "n div 10 \<noteq> 0"
      using "1.prems" False by auto
    have "parse_v4_fields (nat_text n @ r) 0 0 fs
        = parse_v4_fields (digit_char (n mod 10) # r) (n div 10) (length (nat_text (n div 10))) fs"
      using "1.IH" [OF False le, of "digit_char (n mod 10) # r"] by (simp add: nat_text_step [OF False])
    also have "\<dots> = parse_v4_fields r n (length (nat_text n)) fs"
      using pos val "1.prems" by (simp add: is_digit_digit_char nat_text_step [OF False])
    finally show ?thesis .
  qed
qed

lemma unat_byte_le: "unat (b :: byte) \<le> 255"
  using unsigned_less [of b, where 'a = nat] by simp

lemma dotted4: "dotted [a, b, c, d] =
    nat_text (unat a) @ ''.'' @ nat_text (unat b) @ ''.'' @ nat_text (unat c) @ ''.'' @ nat_text (unat d)"
  by (simp add: dotted_def)

lemma parse_v4_dot: "r \<noteq> [] \<Longrightarrow> length fs < 3 \<Longrightarrow>
    parse_v4_fields (CHR ''.'' # r) n (length (nat_text m)) fs = parse_v4_fields r 0 0 (fs @ [n])"
  by (simp add: is_digit_def)

lemma parse_v4_dotted: "parse_v4 (dotted [a, b, c, d]) = Some [a, b, c, d]"
  by (simp add: parse_v4_def dotted4 parse_v4_octet unat_byte_le parse_v4_dot
      del: parse_v4_fields.simps(2))
    (subst parse_v4_octet [where r = "[]", simplified], simp_all add: unat_byte_le)

lemma parse_v4_fields_text:
  assumes "parse_v4_fields s v dl fs = Some vs" "length fs \<le> 3" "\<forall>n \<in> set fs. n \<le> 255" "v \<le> 255"
    "dl = 0 \<longrightarrow> v = 0" "dl \<ge> 2 \<longrightarrow> v \<noteq> 0" "dl = 0 \<and> s = [] \<longrightarrow> fs = []"
  shows "length vs = 4 \<and> (\<forall>n \<in> set vs. n \<le> 255) \<and>
    concat (map (\<lambda>n. nat_text n @ ''.'') (butlast vs)) @ nat_text (last vs) =
    concat (map (\<lambda>n. nat_text n @ ''.'') fs) @ (if dl = 0 then [] else nat_text v) @ s"
  using assms
proof (induction s v dl fs rule: parse_v4_fields.induct)
  case (1 v dl fs)
  then show ?case by (auto split: if_splits)
next
  case (2 c cs v dl fs)
  show ?case
  proof (cases "is_digit c")
    case True
    have "\<not> (dl = 1 \<and> v = 0)" using 2(3) True by (auto split: if_splits)
    then have "nat_text (v * 10 + digit_val c) = (if dl = 0 then [] else nat_text v) @ [c]"
      using 2(7,8) nat_text_snoc [OF True, of v] by (cases "dl = 0") auto
    with 2 True show ?thesis by (auto split: if_splits)
  next
    case False
    with 2 show ?thesis by (auto split: if_splits)
  qed
qed

lemma parse_v4_text: "parse_v4 s = Some x \<Longrightarrow> length x = 4 \<and> dotted x = s"
proof -
  assume "parse_v4 s = Some x"
  then obtain vs where vs: "parse_v4_fields s 0 0 [] = Some vs" "x = map of_nat vs" by (auto simp: parse_v4_def)
  from parse_v4_fields_text [OF vs(1)] have v: "length vs = 4" "\<forall>n \<in> set vs. n \<le> 255"
    "concat (map (\<lambda>n. nat_text n @ ''.'') (butlast vs)) @ nat_text (last vs) = s" by simp_all
  from v(1) obtain a b c d where d: "vs = [a, b, c, d]" by (auto simp: numeral_eq_Suc length_Suc_conv)
  with v(2) have "unat (of_nat n :: byte) = n" if "n \<in> {a, b, c, d}" for n
    using that by (auto simp: unat_of_nat)
  with v vs(2) d show ?thesis by (simp add: dotted4)
qed

lemma length4_cases: "length x = 4 \<Longrightarrow> \<exists>a b c d. x = [a, b, c, d]"
  by (auto simp: numeral_eq_Suc length_Suc_conv)

lemma filter_nat_text: "filter (\<lambda>c. c = CHR ''.'' \<or> c = CHR '':'' \<or> c = CHR ''%'') (nat_text n) = []"
  by (auto simp: filter_empty_conv dest: nat_text_digits is_digit_neq)

lemma parse_addr_dotted: "length x = 4 \<Longrightarrow> parse_addr (dotted x) = Some (True, x)"
  using parse_v4_dotted
  by (auto dest!: length4_cases simp: parse_addr_def dotted4 filter_nat_text)

lemma ParseIP_dotted: "length x = 4 \<Longrightarrow> ParseIP (dotted x) = Some (v4_in_v6_prefix @ x)"
  by (simp add: ParseIP_def parse_addr_dotted as16_def)

lemma dotted_inject: "length x = 4 \<Longrightarrow> length y = 4 \<Longrightarrow> dotted x = dotted y \<longleftrightarrow> x = y"
  by (metis parse_addr_dotted option.inject prod.inject)

text \<open>An address that has an IPv4 form prints as text that parses to the same address.\<close>

lemma to4_mapped: "to4 (v4_in_v6_prefix @ x) = Some x \<longleftrightarrow> length x = 4"
  by (auto simp: to4_def)

lemma to4_16: "length x = 16 \<Longrightarrow> to4 x = Some y \<Longrightarrow> x = v4_in_v6_prefix @ y"
  by (auto simp: to4_def split: if_splits) (metis append_take_drop_id)

lemma ParseIP_IP_String_v4:
  assumes "ParseIP s = Some x" "to4 x = Some y"
  shows "ParseIP (IP_String (Some x)) = Some x"
  using assms to4_16 [OF ParseIP_length [OF assms(1)] assms(2)] to4_length [OF assms(2)]
  by (simp add: IP_String_def ParseIP_dotted)

text \<open>An address in the notation of IPv4 is printed as it was written.\<close>

lemma IP_String_ParseIP:
  assumes "ParseIP g = Some x" "CHR '':'' \<notin> set g"
  shows "IP_String (ParseIP g) = g"
proof -
  from assms obtain y where y: "parse_v4 g = Some y" "x = v4_in_v6_prefix @ y"
    by (auto simp: ParseIP_def parse_addr_def as16_def filter_eq_Cons_iff split: list.splits if_splits)
  with parse_v4_text [OF y(1)] assms(1) to4_mapped [of y] show ?thesis by (simp add: IP_String_def)
qed


section \<open>Characters of printed addresses\<close>

definition addr_char :: "char \<Rightarrow> bool" where
  "addr_char c \<longleftrightarrow> c \<notin> {CHR '' '', newline, CHR ''/''}"

lemma nat_text_addr_chars: "list_all addr_char (nat_text n)"
  by (auto simp: list_all_iff addr_char_def)

lemma hex_text_addr_chars: "list_all addr_char (hex_text n)"
proof (induction n rule: hex_text.induct)
  case (1 n)
  have "addr_char (hex_char d)" if "d < 16" for d
  proof -
    have "(of_char (hex_char d) :: nat) \<in> {48..57} \<union> {97..102}"
      using that by (auto simp: hex_char_def)
    then show ?thesis by (auto simp: addr_char_def)
  qed
  with 1 show ?case by (cases "n < 16") (auto simp: hex_text.simps [of n])
qed

lemma join_with_addr_chars:
  "list_all addr_char sep \<Longrightarrow> \<forall>w \<in> set ws. list_all addr_char w \<Longrightarrow> list_all addr_char (join_with sep ws)"
  by (induction sep ws rule: join_with.induct) simp_all

lemma dotted_addr_chars: "list_all addr_char (dotted x)"
  by (auto simp: dotted_def nat_text_addr_chars addr_char_def intro!: join_with_addr_chars)

lemma v6_text_addr_chars: "list_all addr_char (v6_text x)"
  by (auto simp: v6_text_def Let_def addr_char_def hex_text_addr_chars split: prod.splits
      intro!: join_with_addr_chars)

lemma IP_String_addr_chars: "list_all addr_char (IP_String x)"
  by (auto simp: IP_String_def dotted_addr_chars v6_text_addr_chars addr_char_def split: option.splits)

lemma IP_String_chars [simp]:
  "CHR '' '' \<notin> set (IP_String x)" "one_line (IP_String x)"
  using IP_String_addr_chars [of x] by (auto simp: list_all_iff addr_char_def one_line_def)

end
