(* ===== verification/GoOS.thy ===== *)
theory GoOS
  imports Prelude "HOL-Library.List_Lexorder" "HOL-Library.Char_ord"
begin

text \<open>
  The part of Go's packages \<^verbatim>\<open>os\<close>, \<^verbatim>\<open>os/exec\<close> and \<^verbatim>\<open>path/filepath\<close> that the
  program calls, as operations on an explicit machine state. Every system call may fail:
  the state holds a schedule that says for each call, by its number, whether it fails, and
  how many bytes a failing write had stored before. Theorems quantify over the schedule,
  so they cover every pattern of failures; the record \<open>seen\<close> keeps the file tree after each
  call, so a statement about all of \<open>seen\<close> covers a crash at any point. Commands of other
  programs (\<^verbatim>\<open>systemctl\<close>, \<^verbatim>\<open>sysctl\<close>, \<^verbatim>\<open>ip\<close>, \<^verbatim>\<open>vtysh\<close>, \<^verbatim>\<open>ping\<close>) are not
  part of the repository: they are logged, and their exit status and output come from an
  arbitrary function of the commands run so far.
\<close>

section \<open>The machine\<close>

datatype node = File bytes | Dir | Symlink string

datatype fault = Refused | Short nat

datatype errno = ENOENT | EEXIST | ENOTDIR | EISDIR | EIO

type_synonym tree = "(string, node) gomap"

record os =
  nodes :: tree
  faults :: "nat \<Rightarrow> fault option"
  tick :: nat
  seen :: "tree list"
  cmds :: "string list list"
  answer :: "string list list \<Rightarrow> bool \<times> string"

text \<open>The start of a call: its fate, and the machine with the call counted.\<close>

definition call_fate :: "os \<Rightarrow> fault option" where
  "call_fate s = faults s (tick s)"

definition end_call :: "tree \<Rightarrow> os \<Rightarrow> os" where
  "end_call t s = s\<lparr>nodes := t, tick := Suc (tick s), seen := t # seen s\<rparr>"

section \<open>Paths\<close>

text \<open>\<^verbatim>\<open>filepath.Dir\<close> and \<^verbatim>\<open>filepath.Base\<close> of a clean absolute path, \<^verbatim>\<open>filepath.Join\<close> of
  a clean directory and one clean component.\<close>

definition path_dir :: "string \<Rightarrow> string" where
  "path_dir p = (case last_index (CHR ''/'') p of
     None \<Rightarrow> ''.'' | Some 0 \<Rightarrow> ''/'' | Some i \<Rightarrow> take i p)"

definition path_base :: "string \<Rightarrow> string" where
  "path_base p = (case last_index (CHR ''/'') p of None \<Rightarrow> p | Some i \<Rightarrow> drop (Suc i) p)"

definition path_join :: "string \<Rightarrow> string \<Rightarrow> string" where
  "path_join d n = d @ ''/'' @ n"

text \<open>A symbolic link is followed once, relative to its directory.\<close>

definition resolve :: "tree \<Rightarrow> string \<Rightarrow> string" where
  "resolve t p = (case map_of t p of
     Some (Symlink g) \<Rightarrow> if take 1 g = ''/'' then g else path_join (path_dir p) g
   | _ \<Rightarrow> p)"

definition is_dir :: "tree \<Rightarrow> string \<Rightarrow> bool" where
  "is_dir t p \<longleftrightarrow> map_of t p = Some Dir"

section \<open>System calls\<close>

definition os_ReadFile :: "string \<Rightarrow> os \<Rightarrow> (errno + bytes) \<times> os" where
  "os_ReadFile p s =
     (let s' = end_call (nodes s) s in
      case call_fate s of
        Some _ \<Rightarrow> (Inl EIO, s')
      | None \<Rightarrow> (case map_of (nodes s) (resolve (nodes s) p) of
            Some (File d) \<Rightarrow> (Inr d, s')
          | Some Dir \<Rightarrow> (Inl EISDIR, s')
          | Some (Symlink _) \<Rightarrow> (Inl EIO, s')
          | None \<Rightarrow> (Inl ENOENT, s')))"

text \<open>\<^verbatim>\<open>os.WriteFile\<close>: open with truncation, write, close. A refused call leaves the tree
  alone; a short one has truncated the file and stored a prefix.\<close>

definition os_WriteFile :: "string \<Rightarrow> bytes \<Rightarrow> os \<Rightarrow> errno option \<times> os" where
  "os_WriteFile p d s =
     (let q = resolve (nodes s) p in
      if call_fate s = Some Refused then (Some EIO, end_call (nodes s) s)
      else if is_dir (nodes s) q then (Some EISDIR, end_call (nodes s) s)
      else if \<not> is_dir (nodes s) (path_dir q) then (Some ENOENT, end_call (nodes s) s)
      else case call_fate s of
          Some (Short k) \<Rightarrow> (Some EIO, end_call (AList.update q (File (take k d)) (nodes s)) s)
        | _ \<Rightarrow> (None, end_call (AList.update q (File d) (nodes s)) s))"

text \<open>\<^verbatim>\<open>os.Remove\<close> of a file, a link or an empty directory.\<close>

definition os_Remove :: "string \<Rightarrow> os \<Rightarrow> errno option \<times> os" where
  "os_Remove p s =
     (if call_fate s \<noteq> None then (Some EIO, end_call (nodes s) s)
      else case map_of (nodes s) p of
          None \<Rightarrow> (Some ENOENT, end_call (nodes s) s)
        | Some Dir \<Rightarrow>
            if \<exists>q \<in> set (keys_of (nodes s)). path_dir q = p \<and> q \<noteq> p
            then (Some EIO, end_call (nodes s) s)
            else (None, end_call (AList.delete p (nodes s)) s)
        | Some _ \<Rightarrow> (None, end_call (AList.delete p (nodes s)) s))"

text \<open>\<^verbatim>\<open>os.Rename\<close> of a file: atomic, replaces a file or link at the target.\<close>

definition os_Rename :: "string \<Rightarrow> string \<Rightarrow> os \<Rightarrow> errno option \<times> os" where
  "os_Rename p q s =
     (if call_fate s \<noteq> None then (Some EIO, end_call (nodes s) s)
      else case map_of (nodes s) p of
          None \<Rightarrow> (Some ENOENT, end_call (nodes s) s)
        | Some n \<Rightarrow>
            if is_dir (nodes s) q then (Some EEXIST, end_call (nodes s) s)
            else if \<not> is_dir (nodes s) (path_dir q) then (Some ENOENT, end_call (nodes s) s)
            else (None, end_call (AList.update q n (AList.delete p (nodes s))) s))"

text \<open>\<^verbatim>\<open>os.MkdirAll\<close>: the missing directories from the path upward, outermost first.\<close>

function path_prefixes :: "string \<Rightarrow> string list" where
  "path_prefixes p =
     (case last_index (CHR ''/'') p of
        None \<Rightarrow> [p]
      | Some i \<Rightarrow> if i = 0 then [p] else path_prefixes (take i p) @ [p])"
  by pat_completeness auto
termination
  by (relation "measure length") (auto dest: last_index_Some)

declare path_prefixes.simps [simp del]

definition os_MkdirAll :: "string \<Rightarrow> os \<Rightarrow> errno option \<times> os" where
  "os_MkdirAll p s =
     (if call_fate s \<noteq> None then (Some EIO, end_call (nodes s) s)
      else if is_dir (nodes s) (resolve (nodes s) p) then (None, end_call (nodes s) s)
      else if \<exists>q \<in> set (path_prefixes p). map_of (nodes s) q \<noteq> None \<and> \<not> is_dir (nodes s) q
        then (Some ENOTDIR, end_call (nodes s) s)
      else (None, end_call (fold (\<lambda>q t. AList.update q Dir t) (path_prefixes p) (nodes s)) s))"

text \<open>\<^verbatim>\<open>os.Stat\<close>: \<^term>\<open>Inr\<close> with whether the path is a directory.\<close>

definition os_Stat :: "string \<Rightarrow> os \<Rightarrow> (errno + bool) \<times> os" where
  "os_Stat p s =
     (let s' = end_call (nodes s) s in
      case call_fate s of
        Some _ \<Rightarrow> (Inl EIO, s')
      | None \<Rightarrow> (case map_of (nodes s) (resolve (nodes s) p) of
            None \<Rightarrow> (Inl ENOENT, s') | Some n \<Rightarrow> (Inr (n = Dir), s')))"

text \<open>\<^verbatim>\<open>os.ReadDir\<close>: the names in a directory in byte order, with whether each is a directory.\<close>

definition dir_entries :: "tree \<Rightarrow> string \<Rightarrow> (string \<times> bool) list" where
  "dir_entries t d =
     map (\<lambda>n. (n, map_of t (path_join d n) = Some Dir))
       (sort (remdups (map path_base (filter (\<lambda>p. path_dir p = d \<and> p \<noteq> d) (keys_of t)))))"

definition os_ReadDir :: "string \<Rightarrow> os \<Rightarrow> (errno + (string \<times> bool) list) \<times> os" where
  "os_ReadDir d s =
     (let s' = end_call (nodes s) s in
      case call_fate s of
        Some _ \<Rightarrow> (Inl EIO, s')
      | None \<Rightarrow> (case map_of (nodes s) (resolve (nodes s) d) of
            None \<Rightarrow> (Inl ENOENT, s')
          | Some Dir \<Rightarrow> (Inr (dir_entries (nodes s) (resolve (nodes s) d)), s')
          | Some _ \<Rightarrow> (Inl ENOTDIR, s')))"

definition os_Symlink :: "string \<Rightarrow> string \<Rightarrow> os \<Rightarrow> errno option \<times> os" where
  "os_Symlink target link s =
     (if call_fate s \<noteq> None then (Some EIO, end_call (nodes s) s)
      else if map_of (nodes s) link \<noteq> None then (Some EEXIST, end_call (nodes s) s)
      else if \<not> is_dir (nodes s) (path_dir link) then (Some ENOENT, end_call (nodes s) s)
      else (None, end_call (AList.update link (Symlink target) (nodes s)) s))"

definition os_Readlink :: "string \<Rightarrow> os \<Rightarrow> (errno + string) \<times> os" where
  "os_Readlink p s =
     (let s' = end_call (nodes s) s in
      case call_fate s of
        Some _ \<Rightarrow> (Inl EIO, s')
      | None \<Rightarrow> (case map_of (nodes s) p of
            Some (Symlink g) \<Rightarrow> (Inr g, s') | None \<Rightarrow> (Inl ENOENT, s') | _ \<Rightarrow> (Inl EIO, s')))"

text \<open>Calls on an open temporary file and calls whose effect the model does not track
  (\<^verbatim>\<open>Sync\<close>, \<^verbatim>\<open>Close\<close>, \<^verbatim>\<open>Chmod\<close>): they only succeed or fail.\<close>

definition os_Quiet :: "os \<Rightarrow> errno option \<times> os" where
  "os_Quiet s = ((if call_fate s = None then None else Some EIO), end_call (nodes s) s)"

text \<open>\<^verbatim>\<open>os.CreateTemp\<close> picks a name that no file has: \<open>name\<close> is the choice; if the tree
  already has it, or its directory is missing, the call fails.\<close>

definition os_CreateTemp :: "string \<Rightarrow> os \<Rightarrow> errno option \<times> os" where
  "os_CreateTemp name s =
     (if call_fate s \<noteq> None then (Some EIO, end_call (nodes s) s)
      else if map_of (nodes s) name \<noteq> None then (Some EEXIST, end_call (nodes s) s)
      else if \<not> is_dir (nodes s) (path_dir name) then (Some ENOENT, end_call (nodes s) s)
      else (None, end_call (AList.update name (File []) (nodes s)) s))"

text \<open>\<^verbatim>\<open>File.WriteString\<close> on the temporary file just created.\<close>

definition os_WriteString :: "string \<Rightarrow> bytes \<Rightarrow> os \<Rightarrow> errno option \<times> os" where
  "os_WriteString name d s =
     (case call_fate s of
        Some Refused \<Rightarrow> (Some EIO, end_call (nodes s) s)
      | Some (Short k) \<Rightarrow> (Some EIO, end_call (AList.update name (File (take k d)) (nodes s)) s)
      | None \<Rightarrow> (None, end_call (AList.update name (File d) (nodes s)) s))"

text \<open>\<^verbatim>\<open>exec.Command(args...)\<close> run to completion.\<close>

definition os_Exec :: "string list \<Rightarrow> os \<Rightarrow> (bool \<times> string) \<times> os" where
  "os_Exec args s = (answer s (cmds s @ [args]), s\<lparr>cmds := cmds s @ [args]\<rparr>)"

section \<open>Facts about paths\<close>

lemma path_join_dir: "dir \<noteq> [] \<Longrightarrow> CHR ''/'' \<notin> set n \<Longrightarrow> path_dir (path_join dir n) = dir"
  using last_index_append [of "CHR ''/''" n dir] by (auto simp: path_dir_def path_join_def split: nat.splits)

lemma path_join_base: "CHR ''/'' \<notin> set n \<Longrightarrow> path_base (path_join dir n) = n"
  using last_index_append [of "CHR ''/''" n dir] by (simp add: path_base_def path_join_def)

lemma path_join_inject: "CHR ''/'' \<notin> set n \<Longrightarrow> CHR ''/'' \<notin> set m \<Longrightarrow> dir \<noteq> [] \<Longrightarrow> dir' \<noteq> [] \<Longrightarrow>
  path_join dir n = path_join dir' m \<longleftrightarrow> dir = dir' \<and> n = m"
  by (metis path_join_base path_join_dir)

lemma path_join_nonempty [simp]: "path_join d n \<noteq> []" "path_join d n \<noteq> d" "d \<noteq> path_join d n"
  by (simp_all add: path_join_def)

lemma path_prefixes_join:
  "dir \<noteq> [] \<Longrightarrow> CHR ''/'' \<notin> set n \<Longrightarrow> path_prefixes (path_join dir n) = path_prefixes dir @ [path_join dir n]"
  using last_index_append [of "CHR ''/''" n dir]
  by (subst path_prefixes.simps) (simp add: path_join_def)

lemma path_prefixes_self: "p \<in> set (path_prefixes p)"
  by (subst path_prefixes.simps) (simp split: option.splits)

lemma path_dir_nonempty [simp]: "path_dir p \<noteq> []"
  by (auto simp: path_dir_def split: option.splits nat.splits dest!: last_index_Some)

section \<open>What a call can do\<close>

text \<open>Everything outside \<open>X\<close> is as before, except that missing directories among \<open>D\<close> may have
  been made.\<close>

definition untouched :: "(string \<Rightarrow> bool) \<Rightarrow> (string \<Rightarrow> bool) \<Rightarrow> tree \<Rightarrow> tree \<Rightarrow> bool" where
  "untouched D X t t' \<longleftrightarrow> (\<forall>q. \<not> X q \<longrightarrow>
     map_of t' q = map_of t q \<or> (D q \<and> map_of t q = None \<and> map_of t' q = Some Dir))"

lemma untouched_refl [simp]: "untouched D X t t"
  by (simp add: untouched_def)

lemma untouched_trans: "untouched D X t t' \<Longrightarrow> untouched D X t' t'' \<Longrightarrow> untouched D X t t''"
  unfolding untouched_def by (metis option.distinct(1))

lemma untouched_mono:
  "untouched D X t t' \<Longrightarrow> (\<And>q. D q \<Longrightarrow> E q) \<Longrightarrow> (\<And>q. X q \<Longrightarrow> Y q) \<Longrightarrow> untouched E Y t t'"
  unfolding untouched_def by blast

lemma untouchedD:
  "untouched D X t t' \<Longrightarrow> \<not> X q \<Longrightarrow> map_of t q = Some n \<Longrightarrow> map_of t' q = Some n"
  unfolding untouched_def by (metis option.distinct(1))

lemma untouched_same:
  "untouched D X t t' \<Longrightarrow> \<not> X q \<Longrightarrow> \<not> D q \<Longrightarrow> map_of t' q = map_of t q"
  unfolding untouched_def by blast

text \<open>The same without the exception.\<close>

definition same_but :: "(string \<Rightarrow> bool) \<Rightarrow> tree \<Rightarrow> tree \<Rightarrow> bool" where
  "same_but X t t' \<longleftrightarrow> (\<forall>q. \<not> X q \<longrightarrow> map_of t' q = map_of t q)"

lemma same_but_refl [simp]: "same_but X t t"
  by (simp add: same_but_def)

lemma same_but_untouched: "same_but X t t' \<Longrightarrow> untouched D X t t'"
  by (simp add: same_but_def untouched_def)

lemma same_but_mono: "same_but X t t' \<Longrightarrow> (\<And>q. X q \<Longrightarrow> Y q) \<Longrightarrow> same_but Y t t'"
  by (auto simp: same_but_def)

lemma same_butD: "same_but X t t' \<Longrightarrow> \<not> X q \<Longrightarrow> map_of t' q = map_of t q"
  by (simp add: same_but_def)

text \<open>Between two machine states every tree satisfies \<open>P\<close>.\<close>

definition during :: "(tree \<Rightarrow> bool) \<Rightarrow> os \<Rightarrow> os \<Rightarrow> bool" where
  "during P s s' \<longleftrightarrow> (\<exists>ts. seen s' = ts @ seen s \<and> (\<forall>t \<in> set ts. P t))"

lemma during_refl [simp]: "during P s s"
  by (simp add: during_def)

lemma during_trans: "during P s s' \<Longrightarrow> during P s' s'' \<Longrightarrow> during P s s''"
  unfolding during_def by (elim exE conjE) (rule exI, auto)

lemma during_mono: "during P s s' \<Longrightarrow> (\<And>t. P t \<Longrightarrow> Q t) \<Longrightarrow> during Q s s'"
  unfolding during_def by blast

lemma during_conj: "during P s s' \<Longrightarrow> during Q s s' \<Longrightarrow> during (\<lambda>t. P t \<and> Q t) s s'"
  unfolding during_def by auto

lemma during_call: "P t \<Longrightarrow> during P s (end_call t s)"
  by (auto simp: during_def end_call_def)

lemma end_call_simps [simp]:
  "nodes (end_call t s) = t" "faults (end_call t s) = faults s" "answer (end_call t s) = answer s"
  "cmds (end_call t s) = cmds s"
  by (simp_all add: end_call_def)

lemma os_ReadFile_call: "os_ReadFile p s = (r, s') \<Longrightarrow> s' = end_call (nodes s) s"
  by (auto simp: os_ReadFile_def Let_def split: option.splits node.splits)

lemma os_Quiet_call: "os_Quiet s = (e, s') \<Longrightarrow> s' = end_call (nodes s) s"
  by (auto simp: os_Quiet_def)

lemma fold_update_Dir:
  "map_of (fold (\<lambda>q t. AList.update q Dir t) qs t) p = (if p \<in> set qs then Some Dir else map_of t p)"
  by (induction qs arbitrary: t) auto

lemma os_MkdirAll_call:
  assumes "os_MkdirAll p s = (e, s')"
  shows "\<exists>t. s' = end_call t s \<and> untouched (\<lambda>q. q \<in> set (path_prefixes p)) (\<lambda>_. False) (nodes s) t"
proof (cases "call_fate s = None \<and> \<not> is_dir (nodes s) (resolve (nodes s) p) \<and>
    \<not> (\<exists>q \<in> set (path_prefixes p). map_of (nodes s) q \<noteq> None \<and> \<not> is_dir (nodes s) q)")
  case True
  then have "s' = end_call (fold (\<lambda>q t. AList.update q Dir t) (path_prefixes p) (nodes s)) s"
    using assms unfolding os_MkdirAll_def by (auto split: if_splits)
  moreover have "untouched (\<lambda>q. q \<in> set (path_prefixes p)) (\<lambda>_. False) (nodes s) (fold (\<lambda>q t. AList.update q Dir t) (path_prefixes p) (nodes s))"
    unfolding untouched_def fold_update_Dir using True by (auto simp: is_dir_def)
  ultimately show ?thesis by blast
next
  case False
  then have "s' = end_call (nodes s) s"
    using assms unfolding os_MkdirAll_def by (auto split: if_splits)
  then show ?thesis by (intro exI [of _ "nodes s"]) simp
qed

lemma os_CreateTemp_call:
  assumes "os_CreateTemp n s = (e, s')"
  shows "if e = None then s' = end_call (AList.update n (File []) (nodes s)) s \<and> map_of (nodes s) n = None
    else s' = end_call (nodes s) s"
  using assms by (auto simp: os_CreateTemp_def split: if_splits)

lemma os_WriteString_call:
  assumes "os_WriteString n d s = (e, s')"
  shows "\<exists>t. s' = end_call t s \<and> same_but (\<lambda>q. q = n) (nodes s) t \<and> (e = None \<longrightarrow> map_of t n = Some (File d))"
  using assms by (auto simp: os_WriteString_def same_but_def split: option.splits fault.splits)

lemma os_Remove_call:
  assumes "os_Remove p s = (e, s')"
  shows "\<exists>t. s' = end_call t s \<and> same_but (\<lambda>q. q = p) (nodes s) t"
  using assms by (auto simp: os_Remove_def same_but_def split: option.splits node.splits if_splits)

lemma os_Rename_call:
  assumes "os_Rename p q s = (e, s')" "p \<noteq> q"
  shows "\<exists>t. s' = end_call t s \<and> same_but (\<lambda>x. x = p \<or> x = q) (nodes s) t \<and>
    map_of t q = (if e = None then map_of (nodes s) p else map_of (nodes s) q)"
  using assms by (auto simp: os_Rename_def same_but_def split: option.splits if_splits)

lemma os_WriteFile_call:
  assumes "os_WriteFile p d s = (e, s')"
  shows "\<exists>t. s' = end_call t s \<and> same_but (\<lambda>q. q = resolve (nodes s) p) (nodes s) t"
proof -
  let ?q = "resolve (nodes s) p"
  have "s' = end_call (nodes s) s \<or> (\<exists>f. s' = end_call (AList.update ?q f (nodes s)) s)"
    using assms unfolding os_WriteFile_def Let_def
    by (auto split: if_splits option.splits fault.splits)
  then show ?thesis
  proof
    assume "s' = end_call (nodes s) s"
    then show ?thesis by (intro exI [of _ "nodes s"]) simp
  next
    assume "\<exists>f. s' = end_call (AList.update ?q f (nodes s)) s"
    then obtain f where "s' = end_call (AList.update ?q f (nodes s)) s" ..
    then show ?thesis by (intro exI [of _ "AList.update ?q f (nodes s)"]) (simp add: same_but_def)
  qed
qed

lemma os_Exec_files [simp]:
  "nodes (snd (os_Exec c s)) = nodes s" "seen (snd (os_Exec c s)) = seen s" "tick (snd (os_Exec c s)) = tick s"
  "faults (snd (os_Exec c s)) = faults s" "answer (snd (os_Exec c s)) = answer s"
  by (simp_all add: os_Exec_def)

text \<open>A file-system call runs no command and leaves the schedule as it is.\<close>

lemma os_calls_log:
  "os_ReadFile p s = (r, s') \<Longrightarrow> cmds s' = cmds s \<and> faults s' = faults s"
  "os_WriteFile p d s = (e, s') \<Longrightarrow> cmds s' = cmds s \<and> faults s' = faults s"
  "os_Remove p s = (e, s') \<Longrightarrow> cmds s' = cmds s \<and> faults s' = faults s"
  "os_Rename p q s = (e, s') \<Longrightarrow> cmds s' = cmds s \<and> faults s' = faults s"
  "os_MkdirAll p s = (e, s') \<Longrightarrow> cmds s' = cmds s \<and> faults s' = faults s"
  "os_CreateTemp p s = (e, s') \<Longrightarrow> cmds s' = cmds s \<and> faults s' = faults s"
  "os_WriteString p d s = (e, s') \<Longrightarrow> cmds s' = cmds s \<and> faults s' = faults s"
  "os_Quiet s = (e, s') \<Longrightarrow> cmds s' = cmds s \<and> faults s' = faults s"
         apply (auto dest: os_ReadFile_call os_WriteFile_call os_Remove_call os_MkdirAll_call
           os_WriteString_call os_Quiet_call)[3]
        apply (auto simp: os_Rename_def split: option.splits if_splits)[1]
       apply (auto dest: os_MkdirAll_call os_WriteString_call os_Quiet_call)[1]
      apply (auto dest!: os_CreateTemp_call split: if_splits)[1]
     apply (auto dest: os_WriteString_call os_Quiet_call)
  done

lemmas os_calls_log_snd [simp] = os_calls_log [OF prod.collapse [symmetric]]

lemma os_WriteFile_node:
  assumes "os_WriteFile p d s = (e, s')"
  shows "map_of (nodes s') q = map_of (nodes s) q \<or> (\<exists>c. map_of (nodes s') q = Some (File c))"
  using assms by (auto simp: os_WriteFile_def Let_def split: if_splits option.splits fault.splits)

text \<open>Calls that the schedule lets succeed.\<close>

lemma os_WriteFile_ok:
  assumes "call_fate s = None" "resolve (nodes s) p = p" "\<not> is_dir (nodes s) p" "is_dir (nodes s) (path_dir p)"
  shows "os_WriteFile p d s = (None, end_call (AList.update p (File d) (nodes s)) s)"
  using assms by (simp add: os_WriteFile_def Let_def)

lemma os_ReadFile_ok:
  assumes "call_fate s = None" "map_of (nodes s) p = Some (File d)"
  shows "os_ReadFile p s = (Inr d, end_call (nodes s) s)"
  using assms by (simp add: os_ReadFile_def resolve_def Let_def)

lemma os_Remove_ok:
  assumes "call_fate s = None" "map_of (nodes s) p = Some (File d)"
  shows "os_Remove p s = (None, end_call (AList.delete p (nodes s)) s)"
  using assms by (simp add: os_Remove_def)

end
