(* ===== verification/Config.thy ===== *)
theory Config
  imports GoOS
begin

text \<open>
  \<^verbatim>\<open>internal/config/config.go\<close>: the site configuration as records with the fields of the
  Go structs, a pointer to an optional section as an option, and the two functions that
  load it. The YAML decoder is a third-party package: it is the parameter \<open>decode\<close>.
\<close>

section \<open>The structs\<close>

record health_check =
  hc_Target :: string
  hc_Interval :: int
  hc_Timeout :: int
  hc_Failures :: int

record interface =
  if_Name :: string
  if_Role :: string
  if_Device :: string
  if_Address :: string
  if_Gateway :: string
  if_VLAN :: int
  if_HealthCheck :: "health_check option"

record dhcp_subnet =
  ds_Subnet :: string
  ds_Interface :: string
  ds_PoolStart :: string
  ds_PoolEnd :: string
  ds_Gateway :: string
  ds_DNSServers :: "string list"
  ds_LeaseTime :: int
  ds_Options :: "(string, string) gomap"

record dhcp_config =
  dhcp_Enabled :: bool
  dhcp_Subnets :: "dhcp_subnet list"

record dns_config =
  dns_Enabled :: bool
  dns_Listen :: "string list"
  dns_Forwarders :: "string list"
  dns_AllowFrom :: "string list"

record firewall_zone =
  fz_Name :: string
  fz_Interfaces :: "string list"

record forward_rule =
  fr_From :: string
  fr_To :: string
  fr_Action :: string
  fr_Protocol :: string
  fr_Port :: string
  fr_Source :: string
  fr_Dest :: string

record input_rule =
  ir_Zone :: string
  ir_Action :: string
  ir_Protocol :: string
  ir_Port :: string
  ir_Source :: string

record firewall =
  fw_Zones :: "firewall_zone list"
  fw_ForwardRules :: "forward_rule list"
  fw_InputRules :: "input_rule list"

record ecmp_config =
  ecmp_Enabled :: bool

record pbr_rule =
  pbr_Name :: string
  pbr_Priority :: int
  pbr_Source :: string
  pbr_Interface :: string

record sysctl_config =
  sc_ConntrackMax :: int

record site_config =
  Hostname :: string
  Interfaces :: "interface list"
  DHCP :: "dhcp_config option"
  DNS :: "dns_config option"
  Firewall :: "firewall option"
  ECMP :: "ecmp_config option"
  PBR :: "pbr_rule list"
  SysctlCfg :: "sysctl_config option"

section \<open>Loading\<close>

datatype load_error = ReadConfigError errno | ParseYAMLError string

type_synonym yaml_decoder = "bytes \<Rightarrow> string + site_config"

definition Parse :: "yaml_decoder \<Rightarrow> bytes \<Rightarrow> load_error + site_config" where
  "Parse decode data =
     (case decode data of Inl e \<Rightarrow> Inl (ParseYAMLError e) | Inr cfg \<Rightarrow> Inr cfg)"

definition LoadFile :: "yaml_decoder \<Rightarrow> string \<Rightarrow> os \<Rightarrow> (load_error + site_config) \<times> os" where
  "LoadFile decode path s =
     (case os_ReadFile path s of
        (Inl e, s') \<Rightarrow> (Inl (ReadConfigError e), s')
      | (Inr data, s') \<Rightarrow> (Parse decode data, s'))"

section \<open>Lookups by name\<close>

text \<open>
  The packages build \<^verbatim>\<open>map[string]Interface\<close> by a loop over the interfaces, where a later
  interface replaces an earlier one of the same name.
\<close>

definition iface_by_name :: "interface list \<Rightarrow> (string, interface) gomap" where
  "iface_by_name is = foldl (\<lambda>m i. AList.update (if_Name i) i m) [] is"

lemma iface_by_name_Nil [simp]: "iface_by_name [] = []"
  by (simp add: iface_by_name_def)

lemma iface_by_name_snoc:
  "map_of (iface_by_name (is @ [i])) = (map_of (iface_by_name is))(if_Name i \<mapsto> i)"
  by (simp add: iface_by_name_def)

lemma map_ok_iface_by_name [simp]: "map_ok (iface_by_name is)"
  unfolding iface_by_name_def by (induction "is" rule: rev_induct) simp_all

lemma iface_by_name_Some:
  "map_of (iface_by_name is) n = Some i \<Longrightarrow> i \<in> set is \<and> if_Name i = n"
  by (induction "is" rule: rev_induct) (auto simp: iface_by_name_snoc split: if_splits)

lemma iface_by_name_None:
  "map_of (iface_by_name is) n = None \<longleftrightarrow> n \<notin> if_Name ` set is"
  by (induction "is" rule: rev_induct) (auto simp: iface_by_name_snoc)

lemma iface_by_name_distinct:
  "distinct (map if_Name is) \<Longrightarrow> i \<in> set is \<Longrightarrow> map_of (iface_by_name is) (if_Name i) = Some i"
proof (induction "is" rule: rev_induct)
  case (snoc x xs)
  then have "if_Name i = if_Name x \<longleftrightarrow> i = x"
    by (cases "i = x") (auto simp: image_iff)
  with snoc show ?case by (auto simp: iface_by_name_snoc)
qed simp

definition role_is :: "string \<Rightarrow> interface \<Rightarrow> bool" where
  "role_is r i \<longleftrightarrow> if_Role i = r"

abbreviation is_wan :: "interface \<Rightarrow> bool" where
  "is_wan \<equiv> role_is ''wan''"

abbreviation is_lan :: "interface \<Rightarrow> bool" where
  "is_lan \<equiv> role_is ''lan''"

text \<open>A WAN interface with a gateway: the uplinks of the failover and route code.\<close>

definition is_uplink :: "interface \<Rightarrow> bool" where
  "is_uplink i \<longleftrightarrow> is_wan i \<and> if_Gateway i \<noteq> []"

end
