(* ===== verification/Validate.thy ===== *)
theory Validate
  imports Config NetAddr
begin

text \<open>
  \<^verbatim>\<open>internal/config/validate.go\<close>: the seven validators and \<^verbatim>\<open>Validate\<close>. An error
  message is a value of \<^verbatim>\<open>config_error\<close>, one constructor per \<^verbatim>\<open>fmt.Errorf\<close>, that holds
  what the message prints. For each validator a declarative contract is stated and the
  validator is shown to report nothing exactly when the contract holds.
\<close>

section \<open>Errors\<close>

datatype iface_error =
    NameRequired
  | DuplicateName string
  | DeviceRequired string
  | DuplicateDevice string string
  | BadRole string string
  | AddressRequired string
  | InvalidAddress string string
  | InvalidGateway string string
  | VLANRange string int
  | VLANNotDotted string int

datatype subnet_error =
    InvalidSubnet string
  | UnknownDhcpInterface string
  | PoolStartRequired
  | InvalidPoolStart string
  | PoolStartOutside string string
  | PoolEndRequired
  | InvalidPoolEnd string
  | PoolEndOutside string string
  | DhcpGatewayRequired
  | InvalidDhcpGateway string
  | InvalidDhcpDNS nat string

datatype dns_error =
    InvalidForwarder nat string
  | InvalidAllowFrom nat string

datatype firewall_error =
    ZoneNameRequired nat
  | ZoneUnknownInterface nat nat string
  | ForwardUnknownFrom nat string
  | ForwardUnknownTo nat string
  | ForwardBadAction nat string
  | InputUnknownZone nat string
  | InputBadAction nat string

datatype pbr_error =
    PbrNameRequired
  | PbrUnknownInterface string string
  | PbrInvalidSource string string
  | PbrDuplicatePriority string int string

text \<open>The index is the one in the message's prefix, as in \<^verbatim>\<open>interfaces[3]\<close>.\<close>

datatype config_error =
    HostnameRequired
  | NoInterfaces
  | NoWAN
  | NoLAN
  | InInterface nat iface_error
  | SubnetOverlap string ipnet string ipnet
  | InSubnet nat subnet_error
  | InDNS dns_error
  | InFirewall firewall_error
  | InPBR nat pbr_error

section \<open>Required fields\<close>

definition validateRequired :: "site_config \<Rightarrow> config_error list" where
  "validateRequired c =
     (if Hostname c = [] then [HostnameRequired] else []) @
     (if length (Interfaces c) = 0 then [NoInterfaces] else [])"

section \<open>Interfaces\<close>

text \<open>The body of the loop: \<open>names\<close> and \<open>devices\<close> are the Go sets filled so far.\<close>

definition check_name :: "nat \<Rightarrow> string set \<Rightarrow> interface \<Rightarrow> config_error list" where
  "check_name i names f =
     (if if_Name f = [] then [InInterface i NameRequired]
      else if if_Name f \<in> names then [InInterface i (DuplicateName (if_Name f))]
      else [])"

definition check_device :: "nat \<Rightarrow> string set \<Rightarrow> interface \<Rightarrow> config_error list" where
  "check_device i devices f =
     (if if_Device f = [] then [InInterface i (DeviceRequired (if_Name f))]
      else if if_Device f \<in> devices then [InInterface i (DuplicateDevice (if_Name f) (if_Device f))]
      else [])"

definition check_role :: "nat \<Rightarrow> interface \<Rightarrow> config_error list" where
  "check_role i f =
     (if if_Role f = ''wan'' then []
      else if if_Role f = ''lan'' then []
      else [InInterface i (BadRole (if_Name f) (if_Role f))])"

definition check_address :: "nat \<Rightarrow> interface \<Rightarrow> config_error list" where
  "check_address i f =
     (if if_Address f = [] then [InInterface i (AddressRequired (if_Name f))]
      else if if_Address f \<noteq> ''dhcp'' then
        (case ParseCIDR (if_Address f) of
           None \<Rightarrow> [InInterface i (InvalidAddress (if_Name f) (if_Address f))] | Some _ \<Rightarrow> [])
      else [])"

definition check_gateway :: "nat \<Rightarrow> interface \<Rightarrow> config_error list" where
  "check_gateway i f =
     (if if_Gateway f \<noteq> [] then
        (if ParseIP (if_Gateway f) = None then [InInterface i (InvalidGateway (if_Name f) (if_Gateway f))] else [])
      else [])"

definition check_vlan :: "nat \<Rightarrow> interface \<Rightarrow> config_error list" where
  "check_vlan i f =
     (if if_VLAN f < 0 \<or> if_VLAN f > 4094 then [InInterface i (VLANRange (if_Name f) (if_VLAN f))] else []) @
     (if if_VLAN f > 0 \<and> \<not> str_contains (if_Device f) ''.''
      then [InInterface i (VLANNotDotted (if_Name f) (if_VLAN f))] else [])"

fun interfaces_loop ::
  "nat \<Rightarrow> string set \<Rightarrow> string set \<Rightarrow> bool \<Rightarrow> bool \<Rightarrow> interface list \<Rightarrow> config_error list" where
  "interfaces_loop i names devices hasWAN hasLAN [] =
     (if \<not> hasWAN then [NoWAN] else []) @ (if \<not> hasLAN then [NoLAN] else [])"
| "interfaces_loop i names devices hasWAN hasLAN (f # fs) =
     check_name i names f @ check_device i devices f @ check_role i f @ check_address i f @
     check_gateway i f @ check_vlan i f @
     interfaces_loop (Suc i)
       (if if_Name f \<noteq> [] \<and> if_Name f \<notin> names then insert (if_Name f) names else names)
       (if if_Device f \<noteq> [] \<and> if_Device f \<notin> devices then insert (if_Device f) devices else devices)
       (if if_Role f = ''wan'' then True else hasWAN)
       (if if_Role f = ''lan'' then True else hasLAN) fs"

definition validateInterfaces :: "site_config \<Rightarrow> config_error list" where
  "validateInterfaces c = interfaces_loop 0 {} {} False False (Interfaces c)"

section \<open>Subnet overlaps\<close>

definition static_nets :: "interface list \<Rightarrow> (string \<times> ipnet) list" where
  "static_nets fs = List.map_filter (\<lambda>f.
     if if_Address f \<noteq> [] \<and> if_Address f \<noteq> ''dhcp'' then
       (case ParseCIDR (if_Address f) of Some (_, n) \<Rightarrow> Some (if_Name f, n) | None \<Rightarrow> None)
     else None) fs"

definition nets_overlap :: "ipnet \<Rightarrow> ipnet \<Rightarrow> bool" where
  "nets_overlap a b \<longleftrightarrow> Contains a (net_IP b) \<or> Contains b (net_IP a)"

fun overlap_loop :: "(string \<times> ipnet) list \<Rightarrow> config_error list" where
  "overlap_loop [] = []"
| "overlap_loop ((m, a) # ns) =
     concat (map (\<lambda>(n, b). if nets_overlap a b then [SubnetOverlap m a n b] else []) ns) @ overlap_loop ns"

definition validateSubnetOverlaps :: "site_config \<Rightarrow> config_error list" where
  "validateSubnetOverlaps c = overlap_loop (static_nets (Interfaces c))"

section \<open>DHCP\<close>

definition interfaceNames :: "site_config \<Rightarrow> string set" where
  "interfaceNames c = set (map if_Name (Interfaces c))"

definition check_pool_start :: "nat \<Rightarrow> ipnet option \<Rightarrow> dhcp_subnet \<Rightarrow> config_error list" where
  "check_pool_start i net d =
     (if ds_PoolStart d = [] then [InSubnet i PoolStartRequired]
      else case ParseIP (ds_PoolStart d) of
          None \<Rightarrow> [InSubnet i (InvalidPoolStart (ds_PoolStart d))]
        | Some x \<Rightarrow> (case net of
              Some n \<Rightarrow> if \<not> Contains n x then [InSubnet i (PoolStartOutside (ds_PoolStart d) (ds_Subnet d))] else []
            | None \<Rightarrow> []))"

definition check_pool_end :: "nat \<Rightarrow> ipnet option \<Rightarrow> dhcp_subnet \<Rightarrow> config_error list" where
  "check_pool_end i net d =
     (if ds_PoolEnd d = [] then [InSubnet i PoolEndRequired]
      else case ParseIP (ds_PoolEnd d) of
          None \<Rightarrow> [InSubnet i (InvalidPoolEnd (ds_PoolEnd d))]
        | Some x \<Rightarrow> (case net of
              Some n \<Rightarrow> if \<not> Contains n x then [InSubnet i (PoolEndOutside (ds_PoolEnd d) (ds_Subnet d))] else []
            | None \<Rightarrow> []))"

definition check_dhcp_gateway :: "nat \<Rightarrow> dhcp_subnet \<Rightarrow> config_error list" where
  "check_dhcp_gateway i d =
     (if ds_Gateway d = [] then [InSubnet i DhcpGatewayRequired]
      else if ParseIP (ds_Gateway d) = None then [InSubnet i (InvalidDhcpGateway (ds_Gateway d))]
      else [])"

definition check_subnet :: "string set \<Rightarrow> nat \<Rightarrow> dhcp_subnet \<Rightarrow> config_error list" where
  "check_subnet ifaceNames i d =
     (let net = map_option snd (ParseCIDR (ds_Subnet d)) in
      (if net = None then [InSubnet i (InvalidSubnet (ds_Subnet d))] else []) @
      (if ds_Interface d \<noteq> [] \<and> ds_Interface d \<notin> ifaceNames
       then [InSubnet i (UnknownDhcpInterface (ds_Interface d))] else []) @
      check_pool_start i net d @ check_pool_end i net d @ check_dhcp_gateway i d @
      range_concat (\<lambda>j a. if ParseIP a = None then [InSubnet i (InvalidDhcpDNS j a)] else []) 0 (ds_DNSServers d))"

definition validateDHCP :: "site_config \<Rightarrow> config_error list" where
  "validateDHCP c =
     (case DHCP c of
        None \<Rightarrow> []
      | Some d \<Rightarrow>
          if \<not> dhcp_Enabled d then []
          else range_concat (check_subnet (interfaceNames c)) 0 (dhcp_Subnets d))"

section \<open>DNS\<close>

definition validateDNS :: "site_config \<Rightarrow> config_error list" where
  "validateDNS c =
     (case DNS c of
        None \<Rightarrow> []
      | Some d \<Rightarrow>
          if \<not> dns_Enabled d then []
          else
            range_concat (\<lambda>i a. if ParseIP a = None then [InDNS (InvalidForwarder i a)] else []) 0 (dns_Forwarders d) @
            range_concat (\<lambda>i a. if ParseCIDR a = None then [InDNS (InvalidAllowFrom i a)] else []) 0 (dns_AllowFrom d))"

section \<open>Firewall\<close>

definition action_ok :: "string \<Rightarrow> bool" where
  "action_ok a \<longleftrightarrow> to_lower a = ''accept'' \<or> to_lower a = ''drop''"

definition validateAction :: "string \<Rightarrow> string option" where
  "validateAction a = (if \<not> action_ok a then Some (to_lower a) else None)"

definition zone_names :: "firewall_zone list \<Rightarrow> string set" where
  "zone_names zs = set (filter (\<lambda>n. n \<noteq> []) (map fz_Name zs))"

definition check_zone :: "string set \<Rightarrow> nat \<Rightarrow> firewall_zone \<Rightarrow> config_error list" where
  "check_zone ifaceNames i z =
     (if fz_Name z = [] then [InFirewall (ZoneNameRequired i)] else []) @
     range_concat (\<lambda>j n. if n \<notin> ifaceNames then [InFirewall (ZoneUnknownInterface i j n)] else []) 0 (fz_Interfaces z)"

definition check_forward :: "string set \<Rightarrow> nat \<Rightarrow> forward_rule \<Rightarrow> config_error list" where
  "check_forward zoneNames i r =
     (if fr_From r \<notin> zoneNames then [InFirewall (ForwardUnknownFrom i (fr_From r))] else []) @
     (if fr_To r \<notin> zoneNames then [InFirewall (ForwardUnknownTo i (fr_To r))] else []) @
     (case validateAction (fr_Action r) of Some a \<Rightarrow> [InFirewall (ForwardBadAction i a)] | None \<Rightarrow> [])"

definition check_input :: "string set \<Rightarrow> nat \<Rightarrow> input_rule \<Rightarrow> config_error list" where
  "check_input zoneNames i r =
     (if ir_Zone r \<notin> zoneNames then [InFirewall (InputUnknownZone i (ir_Zone r))] else []) @
     (case validateAction (ir_Action r) of Some a \<Rightarrow> [InFirewall (InputBadAction i a)] | None \<Rightarrow> [])"

definition validateFirewall :: "site_config \<Rightarrow> config_error list" where
  "validateFirewall c =
     (case Firewall c of
        None \<Rightarrow> []
      | Some f \<Rightarrow>
          let zoneNames = zone_names (fw_Zones f) in
          range_concat (check_zone (interfaceNames c)) 0 (fw_Zones f) @
          range_concat (check_forward zoneNames) 0 (fw_ForwardRules f) @
          range_concat (check_input zoneNames) 0 (fw_InputRules f))"

section \<open>Policy-based routing\<close>

definition check_pbr :: "string set \<Rightarrow> nat \<Rightarrow> pbr_rule \<Rightarrow> config_error list" where
  "check_pbr ifaceNames i r =
     (if pbr_Name r = [] then [InPBR i PbrNameRequired] else []) @
     (if pbr_Interface r \<noteq> [] \<and> pbr_Interface r \<notin> ifaceNames
      then [InPBR i (PbrUnknownInterface (pbr_Name r) (pbr_Interface r))] else []) @
     (if pbr_Source r \<noteq> [] \<and> ParseCIDR (pbr_Source r) = None
      then [InPBR i (PbrInvalidSource (pbr_Name r) (pbr_Source r))] else [])"

fun pbr_loop :: "string set \<Rightarrow> nat \<Rightarrow> (int, string) gomap \<Rightarrow> pbr_rule list \<Rightarrow> config_error list" where
  "pbr_loop ifaceNames i priorities [] = []"
| "pbr_loop ifaceNames i priorities (r # rs) =
     check_pbr ifaceNames i r @
     (case map_of priorities (pbr_Priority r) of
        Some existing \<Rightarrow>
          InPBR i (PbrDuplicatePriority (pbr_Name r) (pbr_Priority r) existing) #
          pbr_loop ifaceNames (Suc i) priorities rs
      | None \<Rightarrow>
          pbr_loop ifaceNames (Suc i) (AList.update (pbr_Priority r) (pbr_Name r) priorities) rs)"

definition validatePBR :: "site_config \<Rightarrow> config_error list" where
  "validatePBR c = pbr_loop (interfaceNames c) 0 [] (PBR c)"

section \<open>All validators\<close>

definition Validate :: "site_config \<Rightarrow> config_error list" where
  "Validate c =
     validateRequired c @ validateInterfaces c @ validateSubnetOverlaps c @ validateDHCP c @
     validateDNS c @ validateFirewall c @ validatePBR c"

section \<open>Contracts\<close>

text \<open>What a configuration without errors satisfies, stated without the order of the checks.\<close>

definition valid_interface :: "interface \<Rightarrow> bool" where
  "valid_interface f \<longleftrightarrow>
     if_Name f \<noteq> [] \<and> if_Device f \<noteq> [] \<and> (is_wan f \<or> is_lan f) \<and>
     (if_Address f = ''dhcp'' \<or> (\<exists>x n. ParseCIDR (if_Address f) = Some (x, n))) \<and>
     (if_Gateway f = [] \<or> (\<exists>x. ParseIP (if_Gateway f) = Some x)) \<and>
     0 \<le> if_VLAN f \<and> if_VLAN f \<le> 4094 \<and> (0 < if_VLAN f \<longrightarrow> CHR ''.'' \<in> set (if_Device f))"

definition valid_interfaces :: "interface list \<Rightarrow> bool" where
  "valid_interfaces fs \<longleftrightarrow>
     (\<forall>f \<in> set fs. valid_interface f) \<and> distinct (map if_Name fs) \<and> distinct (map if_Device fs) \<and>
     (\<exists>f \<in> set fs. is_wan f) \<and> (\<exists>f \<in> set fs. is_lan f)"

definition share_address :: "ipnet \<Rightarrow> ipnet \<Rightarrow> bool" where
  "share_address a b \<longleftrightarrow> (\<exists>x. Contains a x \<and> Contains b x)"

definition disjoint_networks :: "interface list \<Rightarrow> bool" where
  "disjoint_networks fs \<longleftrightarrow> sorted_wrt (\<lambda>(_, a) (_, b). \<not> share_address a b) (static_nets fs)"

definition valid_subnet :: "string set \<Rightarrow> dhcp_subnet \<Rightarrow> bool" where
  "valid_subnet names d \<longleftrightarrow>
     (\<exists>x n s e g. ParseCIDR (ds_Subnet d) = Some (x, n) \<and>
        ParseIP (ds_PoolStart d) = Some s \<and> Contains n s \<and>
        ParseIP (ds_PoolEnd d) = Some e \<and> Contains n e \<and>
        ParseIP (ds_Gateway d) = Some g) \<and>
     (ds_Interface d = [] \<or> ds_Interface d \<in> names) \<and>
     (\<forall>a \<in> set (ds_DNSServers d). \<exists>x. ParseIP a = Some x)"

definition valid_dhcp :: "string set \<Rightarrow> dhcp_config option \<Rightarrow> bool" where
  "valid_dhcp names d \<longleftrightarrow>
     (\<forall>x. d = Some x \<and> dhcp_Enabled x \<longrightarrow> (\<forall>n \<in> set (dhcp_Subnets x). valid_subnet names n))"

definition valid_dns :: "dns_config option \<Rightarrow> bool" where
  "valid_dns d \<longleftrightarrow>
     (\<forall>x. d = Some x \<and> dns_Enabled x \<longrightarrow>
        (\<forall>a \<in> set (dns_Forwarders x). ParseIP a \<noteq> None) \<and>
        (\<forall>a \<in> set (dns_AllowFrom x). ParseCIDR a \<noteq> None))"

definition valid_firewall :: "string set \<Rightarrow> firewall option \<Rightarrow> bool" where
  "valid_firewall names f \<longleftrightarrow>
     (\<forall>x. f = Some x \<longrightarrow>
        (\<forall>z \<in> set (fw_Zones x). fz_Name z \<noteq> [] \<and> set (fz_Interfaces z) \<subseteq> names) \<and>
        (\<forall>r \<in> set (fw_ForwardRules x). fr_From r \<in> fz_Name ` set (fw_Zones x)
           \<and> fr_To r \<in> fz_Name ` set (fw_Zones x) \<and> action_ok (fr_Action r)) \<and>
        (\<forall>r \<in> set (fw_InputRules x). ir_Zone r \<in> fz_Name ` set (fw_Zones x) \<and> action_ok (ir_Action r)))"

definition valid_pbr :: "string set \<Rightarrow> pbr_rule list \<Rightarrow> bool" where
  "valid_pbr names rs \<longleftrightarrow>
     (\<forall>r \<in> set rs. pbr_Name r \<noteq> [] \<and> (pbr_Interface r = [] \<or> pbr_Interface r \<in> names) \<and>
        (pbr_Source r = [] \<or> ParseCIDR (pbr_Source r) \<noteq> None)) \<and>
     distinct (map pbr_Priority rs)"

definition valid_site :: "site_config \<Rightarrow> bool" where
  "valid_site c \<longleftrightarrow>
     Hostname c \<noteq> [] \<and> Interfaces c \<noteq> [] \<and> valid_interfaces (Interfaces c) \<and>
     disjoint_networks (Interfaces c) \<and> valid_dhcp (interfaceNames c) (DHCP c) \<and>
     valid_dns (DNS c) \<and> valid_firewall (interfaceNames c) (Firewall c) \<and>
     valid_pbr (interfaceNames c) (PBR c)"

section \<open>Validators meet their contracts\<close>

lemma validateRequired_iff [valid_iff]:
  "validateRequired c = [] \<longleftrightarrow> Hostname c \<noteq> [] \<and> Interfaces c \<noteq> []"
  by (simp add: validateRequired_def)

lemma ParseCIDR_Nil [simp]: "ParseCIDR [] = None"
  by (simp add: ParseCIDR_def)

lemma ParseIP_Nil [simp]: "ParseIP [] = None"
  by (simp add: ParseIP_def parse_addr_def)

lemma check_interface_Nil_iff:
  "check_name i names f = [] \<and> check_device i devices f = [] \<and> check_role i f = [] \<and>
   check_address i f = [] \<and> check_gateway i f = [] \<and> check_vlan i f = [] \<longleftrightarrow>
   valid_interface f \<and> if_Name f \<notin> names \<and> if_Device f \<notin> devices"
  by (auto simp: check_name_def check_device_def check_role_def check_address_def check_gateway_def
      check_vlan_def valid_interface_def role_is_def str_contains_char split: option.splits)

lemma interfaces_loop_Nil_iff:
  "interfaces_loop i names devices w l fs = [] \<longleftrightarrow>
     (\<forall>f \<in> set fs. valid_interface f) \<and>
     distinct (map if_Name fs) \<and> set (map if_Name fs) \<inter> names = {} \<and>
     distinct (map if_Device fs) \<and> set (map if_Device fs) \<inter> devices = {} \<and>
     (w \<or> (\<exists>f \<in> set fs. is_wan f)) \<and> (l \<or> (\<exists>f \<in> set fs. is_lan f))"
proof (induction i names devices w l fs rule: interfaces_loop.induct)
  case (2 i names devices w l f fs)
  let ?ok = "valid_interface f \<and> if_Name f \<notin> names \<and> if_Device f \<notin> devices"
  show ?case
  proof (cases ?ok)
    case True
    then have "if_Name f \<noteq> []" "if_Device f \<noteq> []" by (simp_all add: valid_interface_def)
    with True "2.IH" check_interface_Nil_iff [of i names f devices] show ?thesis
      by (auto simp: role_is_def)
  next
    case False
    then have "interfaces_loop i names devices w l (f # fs) \<noteq> []"
      using check_interface_Nil_iff [of i names f devices]
      by (simp only: interfaces_loop.simps append_is_Nil_conv) blast
    moreover have "\<not> ((\<forall>f \<in> set (f # fs). valid_interface f) \<and>
        set (map if_Name (f # fs)) \<inter> names = {} \<and> set (map if_Device (f # fs)) \<inter> devices = {})"
      using False by auto
    ultimately show ?thesis by blast
  qed
qed auto

lemma validateInterfaces_iff [valid_iff]:
  "validateInterfaces c = [] \<longleftrightarrow> valid_interfaces (Interfaces c)"
  by (simp add: validateInterfaces_def interfaces_loop_Nil_iff valid_interfaces_def)

lemma static_nets_prefix: "(m, a) \<in> set (static_nets fs) \<Longrightarrow> prefix_net a"
  by (induction fs)
    (auto simp: static_nets_def split: option.splits if_splits
      dest: ParseCIDR_prefix_net)

lemma nets_overlap_iff:
  "(m, a) \<in> set (static_nets fs) \<Longrightarrow> (n, b) \<in> set (static_nets fs) \<Longrightarrow>
   nets_overlap a b \<longleftrightarrow> share_address a b"
  by (simp add: nets_overlap_def share_address_def overlap_iff_shared_address static_nets_prefix)

lemma overlap_loop_Nil_iff:
  "overlap_loop ns = [] \<longleftrightarrow> sorted_wrt (\<lambda>(_, a) (_, b). \<not> nets_overlap a b) ns"
  by (induction ns rule: overlap_loop.induct) auto

lemma sorted_wrt_cong_set:
  "(\<And>x y. x \<in> set xs \<Longrightarrow> y \<in> set xs \<Longrightarrow> P x y = Q x y) \<Longrightarrow> sorted_wrt P xs = sorted_wrt Q xs"
  by (induction xs) auto

lemma validateSubnetOverlaps_iff [valid_iff]:
  "validateSubnetOverlaps c = [] \<longleftrightarrow> disjoint_networks (Interfaces c)"
  unfolding validateSubnetOverlaps_def overlap_loop_Nil_iff disjoint_networks_def
  by (rule sorted_wrt_cong_set) (auto dest: nets_overlap_iff)

lemma overlap_loop_set:
  "SubnetOverlap m a n b \<in> set (overlap_loop ns) \<longleftrightarrow>
     (\<exists>i j. i < j \<and> j < length ns \<and> ns ! i = (m, a) \<and> ns ! j = (n, b) \<and> nets_overlap a b)"
proof (induction ns rule: overlap_loop.induct)
  case (2 k c ns)
  have "(\<exists>i j. i < j \<and> j < length ((k, c) # ns) \<and> ((k, c) # ns) ! i = (m, a) \<and>
           ((k, c) # ns) ! j = (n, b) \<and> nets_overlap a b) \<longleftrightarrow>
        (m = k \<and> a = c \<and> (n, b) \<in> set ns \<and> nets_overlap a b) \<or>
        (\<exists>i j. i < j \<and> j < length ns \<and> ns ! i = (m, a) \<and> ns ! j = (n, b) \<and> nets_overlap a b)"
    (is "?L \<longleftrightarrow> ?A \<or> ?B")
  proof
    assume ?L
    then obtain i j where ij: "i < j" "j < Suc (length ns)" "((k, c) # ns) ! i = (m, a)"
        "((k, c) # ns) ! j = (n, b)" "nets_overlap a b" by auto
    then obtain j' where j: "j = Suc j'" by (cases j) auto
    show "?A \<or> ?B"
    proof (cases i)
      case 0
      with ij j have "j' < length ns" "ns ! j' = (n, b)" by auto
      then have "(n, b) \<in> set ns" by (metis nth_mem)
      with 0 ij have ?A by simp
      then show ?thesis ..
    next
      case (Suc i')
      with ij j have "i' < j' \<and> j' < length ns \<and> ns ! i' = (m, a) \<and> ns ! j' = (n, b)" by simp
      with ij show ?thesis by blast
    qed
  next
    assume "?A \<or> ?B"
    then show ?L
    proof
      assume ?A
      then obtain j where "j < length ns" "ns ! j = (n, b)" by (auto simp: in_set_conv_nth)
      with \<open>?A\<close> show ?L by - (rule exI [of _ 0], rule exI [of _ "Suc j"], auto)
    next
      assume ?B
      then obtain i j where "i < j" "j < length ns" "ns ! i = (m, a)" "ns ! j = (n, b)"
          "nets_overlap a b" by blast
      then show ?L by - (rule exI [of _ "Suc i"], rule exI [of _ "Suc j"], simp)
    qed
  qed
  with "2.IH" show ?case by auto
qed simp

lemma check_subnet_Nil_iff: "check_subnet names i d = [] \<longleftrightarrow> valid_subnet names d"
proof -
  have dns: "range_concat (\<lambda>j a. if ParseIP a = None then [InSubnet i (InvalidDhcpDNS j a)] else []) 0
      (ds_DNSServers d) = [] \<longleftrightarrow> (\<forall>a \<in> set (ds_DNSServers d). ParseIP a \<noteq> None)"
    by (rule range_concat_set_Nil_iff) simp
  have start: "check_pool_start i (Some n) d = [] \<longleftrightarrow>
      (\<exists>s. ParseIP (ds_PoolStart d) = Some s \<and> Contains n s)" for n
    by (auto simp: check_pool_start_def split: option.splits)
  have stop: "check_pool_end i (Some n) d = [] \<longleftrightarrow>
      (\<exists>s. ParseIP (ds_PoolEnd d) = Some s \<and> Contains n s)" for n
    by (auto simp: check_pool_end_def split: option.splits)
  have gw: "check_dhcp_gateway i d = [] \<longleftrightarrow> (\<exists>g. ParseIP (ds_Gateway d) = Some g)"
    by (auto simp: check_dhcp_gateway_def)
  show ?thesis
  proof (cases "ParseCIDR (ds_Subnet d)")
    case None
    then show ?thesis by (simp add: check_subnet_def valid_subnet_def)
  next
    case (Some xn)
    then show ?thesis
      by (cases xn) (auto simp: check_subnet_def valid_subnet_def Let_def dns start stop gw)
  qed
qed

lemma validateDHCP_iff [valid_iff]:
  "validateDHCP c = [] \<longleftrightarrow> valid_dhcp (interfaceNames c) (DHCP c)"
  using range_concat_set_Nil_iff [of "check_subnet (interfaceNames c)", OF check_subnet_Nil_iff]
  by (auto simp: validateDHCP_def valid_dhcp_def split: option.splits)

lemma validateDNS_iff [valid_iff]: "validateDNS c = [] \<longleftrightarrow> valid_dns (DNS c)"
proof -
  have fwd: "range_concat (\<lambda>i a. if ParseIP a = None then [InDNS (InvalidForwarder i a)] else []) 0 xs = []
      \<longleftrightarrow> (\<forall>a \<in> set xs. ParseIP a \<noteq> None)" for xs
    by (rule range_concat_set_Nil_iff) simp
  have allow: "range_concat (\<lambda>i a. if ParseCIDR a = None then [InDNS (InvalidAllowFrom i a)] else []) 0 xs = []
      \<longleftrightarrow> (\<forall>a \<in> set xs. ParseCIDR a \<noteq> None)" for xs
    by (rule range_concat_set_Nil_iff) simp
  show ?thesis
    by (cases "DNS c") (simp_all add: validateDNS_def valid_dns_def fwd allow)
qed

lemma check_zone_Nil_iff:
  "check_zone names i z = [] \<longleftrightarrow> fz_Name z \<noteq> [] \<and> set (fz_Interfaces z) \<subseteq> names"
proof -
  have "range_concat (\<lambda>j n. if n \<notin> names then [InFirewall (ZoneUnknownInterface i j n)] else []) 0 xs = []
      \<longleftrightarrow> (\<forall>n \<in> set xs. n \<in> names)" for xs
    by (rule range_concat_set_Nil_iff) simp
  then show ?thesis by (auto simp: check_zone_def)
qed

lemma validateAction_None_iff: "validateAction a = None \<longleftrightarrow> action_ok a"
  by (simp add: validateAction_def)

lemma check_forward_Nil_iff:
  "check_forward zs i r = [] \<longleftrightarrow> fr_From r \<in> zs \<and> fr_To r \<in> zs \<and> action_ok (fr_Action r)"
  by (auto simp: check_forward_def validateAction_def split: option.splits)

lemma check_input_Nil_iff:
  "check_input zs i r = [] \<longleftrightarrow> ir_Zone r \<in> zs \<and> action_ok (ir_Action r)"
  by (auto simp: check_input_def validateAction_def split: option.splits)

lemma zone_names_eq: "\<forall>z \<in> set zs. fz_Name z \<noteq> [] \<Longrightarrow> zone_names zs = fz_Name ` set zs"
  by (auto simp: zone_names_def)

lemma validateFirewall_iff [valid_iff]:
  "validateFirewall c = [] \<longleftrightarrow> valid_firewall (interfaceNames c) (Firewall c)"
proof (cases "Firewall c")
  case (Some f)
  show ?thesis
    using range_concat_set_Nil_iff [of "check_zone (interfaceNames c)", OF check_zone_Nil_iff]
      range_concat_set_Nil_iff [of "check_forward (zone_names (fw_Zones f))", OF check_forward_Nil_iff]
      range_concat_set_Nil_iff [of "check_input (zone_names (fw_Zones f))", OF check_input_Nil_iff]
      zone_names_eq [of "fw_Zones f"]
    by (auto simp: validateFirewall_def valid_firewall_def Let_def Some)
qed (simp add: validateFirewall_def valid_firewall_def)

lemma check_pbr_Nil_iff:
  "check_pbr names i r = [] \<longleftrightarrow> pbr_Name r \<noteq> [] \<and> (pbr_Interface r = [] \<or> pbr_Interface r \<in> names) \<and>
     (pbr_Source r = [] \<or> ParseCIDR (pbr_Source r) \<noteq> None)"
  by (auto simp: check_pbr_def)

lemma pbr_loop_Nil_iff:
  "pbr_loop names i ps rs = [] \<longleftrightarrow>
     (\<forall>r \<in> set rs. check_pbr names 0 r = []) \<and> distinct (map pbr_Priority rs) \<and>
     set (map pbr_Priority rs) \<inter> dom (map_of ps) = {}"
proof (induction names i ps rs rule: pbr_loop.induct)
  case (2 names i ps r rs)
  have "check_pbr names i r = [] \<longleftrightarrow> check_pbr names 0 r = []"
    by (simp add: check_pbr_Nil_iff)
  then show ?case
  proof (cases "map_of ps (pbr_Priority r)")
    case None
    with 2 \<open>check_pbr names i r = [] \<longleftrightarrow> check_pbr names 0 r = []\<close> show ?thesis
      by (auto simp: domIff disjoint_iff split: if_splits)
  qed (auto simp: domIff disjoint_iff)
qed simp

lemma validatePBR_iff [valid_iff]:
  "validatePBR c = [] \<longleftrightarrow> valid_pbr (interfaceNames c) (PBR c)"
  by (auto simp: validatePBR_def pbr_loop_Nil_iff check_pbr_Nil_iff valid_pbr_def)

text \<open>A duplicate priority is reported against the name of the first rule that has it.\<close>

definition first_owner :: "pbr_rule list \<Rightarrow> int \<Rightarrow> string option" where
  "first_owner rs p = map_option pbr_Name (find (\<lambda>r. pbr_Priority r = p) rs)"

lemma first_owner_Cons:
  "first_owner (r # rs) p = (if pbr_Priority r = p then Some (pbr_Name r) else first_owner rs p)"
  by (simp add: first_owner_def)

lemma pbr_loop_duplicate:
  "InPBR k (PbrDuplicatePriority n p e) \<in> set (pbr_loop names i ps rs) \<longleftrightarrow>
     (\<exists>j < length rs. k = i + j \<and> n = pbr_Name (rs ! j) \<and> p = pbr_Priority (rs ! j) \<and>
        (case map_of ps p of Some e' \<Rightarrow> e' | None \<Rightarrow> e) = e \<and>
        (map_of ps p = None \<longrightarrow> first_owner (take j rs) p = Some e))"
proof (induction names i ps rs rule: pbr_loop.induct)
  case (1 names i ps)
  then show ?case by simp
next
  case (2 names i ps r rs)
  have no: "InPBR k (PbrDuplicatePriority n p e) \<notin> set (check_pbr names i r)"
    by (auto simp: check_pbr_def)
  show ?case
  proof (cases "map_of ps (pbr_Priority r)")
    case None
    with 2 no show ?thesis
      by (auto simp: Ex_less_Suc2 first_owner_Cons first_owner_def)
  next
    case (Some x)
    with 2 no show ?thesis
      by (auto simp: Ex_less_Suc2 first_owner_Cons split: option.splits)
  qed
qed

section \<open>Properties\<close>


text \<open>C20. An overlap error names two statically addressed interfaces, in configuration order,
  exactly when some address belongs to both of their networks: the two membership tests on network
  addresses that the code makes find every overlap and report no other.\<close>

theorem overlap_report:
  "SubnetOverlap m a n b \<in> set (validateSubnetOverlaps c) \<longleftrightarrow>
     (\<exists>i j. i < j \<and> j < length (static_nets (Interfaces c)) \<and>
        static_nets (Interfaces c) ! i = (m, a) \<and> static_nets (Interfaces c) ! j = (n, b) \<and>
        (\<exists>x. Contains a x \<and> Contains b x))"
proof -
  have "nets_overlap a b \<longleftrightarrow> (\<exists>x. Contains a x \<and> Contains b x)"
    if "i < j" "j < length (static_nets (Interfaces c))" "static_nets (Interfaces c) ! i = (m, a)"
      "static_nets (Interfaces c) ! j = (n, b)" for i j
  proof -
    have "i < length (static_nets (Interfaces c))" using that by simp
    then have "(m, a) \<in> set (static_nets (Interfaces c))" using that(3) nth_mem by metis
    moreover have "(n, b) \<in> set (static_nets (Interfaces c))" using that(2,4) nth_mem by metis
    ultimately show ?thesis by (simp add: nets_overlap_iff share_address_def)
  qed
  then show ?thesis
    unfolding validateSubnetOverlaps_def overlap_loop_set by blast
qed

text \<open>A rule is reported for a duplicate priority exactly when an earlier rule has the same
  priority, and the message names the earliest such rule.\<close>

theorem duplicate_priority_report:
  "InPBR k (PbrDuplicatePriority n p e) \<in> set (validatePBR c) \<longleftrightarrow>
     (\<exists>j < length (PBR c). k = j \<and> n = pbr_Name (PBR c ! j) \<and> p = pbr_Priority (PBR c ! j) \<and>
        first_owner (take j (PBR c)) p = Some e)"
  by (simp add: validatePBR_def pbr_loop_duplicate)

end
