(* ===== verification/Samples.thy ===== *)
theory Samples
  imports Config
begin

text \<open>
  Concrete configurations for the witnesses: the dual-WAN configuration of the unit tests
  (\<^verbatim>\<open>dualWANCfg\<close> in \<^verbatim>\<open>internal/failover/controller_test.go\<close>) and the full example
  of \<^verbatim>\<open>doc/site-config-reference.md\<close>.
\<close>

definition plain_iface :: "string \<Rightarrow> string \<Rightarrow> string \<Rightarrow> string \<Rightarrow> string \<Rightarrow> interface" where
  "plain_iface n r d a g = \<lparr>if_Name = n, if_Role = r, if_Device = d, if_Address = a,
     if_Gateway = g, if_VLAN = 0, if_HealthCheck = None\<rparr>"

definition wan1_iface :: interface where
  "wan1_iface = plain_iface ''wan1'' ''wan'' ''eth0'' ''dhcp'' ''10.0.0.1''"

definition wan2_iface :: interface where
  "wan2_iface = plain_iface ''wan2'' ''wan'' ''eth1'' ''203.0.113.2/30'' ''203.0.113.1''"

definition lan1_iface :: interface where
  "lan1_iface = plain_iface ''lan1'' ''lan'' ''eth2'' ''192.168.1.1/24'' []"

definition dual_wan_site :: site_config where
  "dual_wan_site = \<lparr>Hostname = ''gw-dual'', Interfaces = [wan1_iface, wan2_iface, lan1_iface],
     DHCP = None, DNS = None, Firewall = None, ECMP = Some \<lparr>ecmp_Enabled = True\<rparr>,
     PBR = [], SysctlCfg = None\<rparr>"

definition edge_site :: site_config where
  "edge_site = \<lparr>Hostname = ''edge-dc1'',
     Interfaces =
       [plain_iface ''wan1'' ''wan'' ''eth0'' ''dhcp'' ''100.64.0.1''
          \<lparr>if_HealthCheck := Some \<lparr>hc_Target = [], hc_Interval = 1, hc_Timeout = 2, hc_Failures = 3\<rparr>\<rparr>,
        plain_iface ''wan2'' ''wan'' ''eth1'' ''dhcp'' ''203.0.113.1'',
        plain_iface ''lan1'' ''lan'' ''eth2'' ''192.168.10.1/24'' [],
        plain_iface ''guest100'' ''lan'' ''eth2.100'' ''192.168.100.1/24'' [] \<lparr>if_VLAN := 100\<rparr>],
     DHCP = Some \<lparr>dhcp_Enabled = True, dhcp_Subnets =
       [\<lparr>ds_Subnet = ''192.168.10.0/24'', ds_Interface = ''lan1'', ds_PoolStart = ''192.168.10.100'',
         ds_PoolEnd = ''192.168.10.199'', ds_Gateway = ''192.168.10.1'',
         ds_DNSServers = [''192.168.10.1''], ds_LeaseTime = 0, ds_Options = []\<rparr>]\<rparr>,
     DNS = Some \<lparr>dns_Enabled = True, dns_Listen = [], dns_Forwarders = [''1.1.1.1'', ''8.8.8.8''],
       dns_AllowFrom = []\<rparr>,
     Firewall = Some \<lparr>fw_Zones =
         [\<lparr>fz_Name = ''lan'', fz_Interfaces = [''lan1'', ''guest100'']\<rparr>,
          \<lparr>fz_Name = ''wan'', fz_Interfaces = [''wan1'', ''wan2'']\<rparr>],
       fw_ForwardRules =
         [\<lparr>fr_From = ''lan'', fr_To = ''wan'', fr_Action = ''accept'', fr_Protocol = [], fr_Port = [],
           fr_Source = [], fr_Dest = []\<rparr>],
       fw_InputRules =
         [\<lparr>ir_Zone = ''lan'', ir_Action = ''accept'', ir_Protocol = ''tcp'', ir_Port = ''22'',
           ir_Source = []\<rparr>]\<rparr>,
     ECMP = Some \<lparr>ecmp_Enabled = True\<rparr>,
     PBR = [\<lparr>pbr_Name = ''guest-via-wan2'', pbr_Priority = 100, pbr_Source = ''192.168.100.0/24'',
       pbr_Interface = ''wan2''\<rparr>],
     SysctlCfg = Some \<lparr>sc_ConntrackMax = 524288\<rparr>\<rparr>"

lemmas sample_defs = plain_iface_def wan1_iface_def wan2_iface_def lan1_iface_def dual_wan_site_def
  edge_site_def

end
