(* ===== verification/Frr.thy ===== *)
theory Frr
  imports Validate Samples
begin

text \<open>
  \<^verbatim>\<open>internal/services/frr/frr.go\<close>: the template data built from a site configuration and
  the text the template makes of it. In the template every action that starts with
  \<^verbatim>\<open>{{-\<close> swallows the newline before it, so each branch and each loop body contributes
  whole lines: the output is a list of lines, each closed by a newline.
\<close>

section \<open>Template data\<close>

record static_route =
  sr_Prefix :: string
  sr_NextHop :: string
  sr_Device :: string

record ecmp_nexthop =
  en_NextHop :: string
  en_Device :: string

record pbr_map =
  pm_Name :: string
  pm_Seq :: int
  pm_MatchSrc :: string
  pm_NextHop :: string
  pm_Device :: string

record pbr_interface =
  pi_Device :: string
  pi_MapName :: string

record frr_data =
  fd_Hostname :: string
  fd_StaticRoutes :: "static_route list"
  fd_ECMP :: bool
  fd_ECMPNextHops :: "ecmp_nexthop list"
  fd_PBR :: bool
  fd_PBRMaps :: "pbr_map list"
  fd_PBRInterfaces :: "pbr_interface list"
  fd_BFD :: bool
  fd_BFDPeers :: "string list"

definition wan_interfaces :: "site_config \<Rightarrow> interface list" where
  "wan_interfaces c = filter is_wan (Interfaces c)"

definition ecmp_active :: "site_config \<Rightarrow> bool" where
  "ecmp_active c \<longleftrightarrow>
     (case ECMP c of Some e \<Rightarrow> ecmp_Enabled e | None \<Rightarrow> False) \<and> length (wan_interfaces c) > 1"

definition pbr_map_name :: string where
  "pbr_map_name = ''warp-pbr''"

definition make_pbr_maps :: "site_config \<Rightarrow> pbr_map list" where
  "make_pbr_maps c = range_concat (\<lambda>i r.
     case map_of (iface_by_name (Interfaces c)) (pbr_Interface r) of
       None \<Rightarrow> []
     | Some t \<Rightarrow> [\<lparr>pm_Name = pbr_map_name, pm_Seq = (int i + 1) * 10, pm_MatchSrc = pbr_Source r,
                    pm_NextHop = if_Gateway t, pm_Device = if_Device t\<rparr>]) 0 (PBR c)"

definition make_frr_data :: "site_config \<Rightarrow> frr_data" where
  "make_frr_data c =
     (let wans = wan_interfaces c;
          gws = filter (\<lambda>w. if_Gateway w \<noteq> []) wans;
          maps = (if length (PBR c) > 0 then make_pbr_maps c else [])
      in \<lparr>fd_Hostname = Hostname c,
          fd_StaticRoutes =
            (if ecmp_active c then []
             else map (\<lambda>w. \<lparr>sr_Prefix = ''0.0.0.0/0'', sr_NextHop = if_Gateway w, sr_Device = if_Device w\<rparr>) gws),
          fd_ECMP = ecmp_active c,
          fd_ECMPNextHops =
            (if ecmp_active c
             then map (\<lambda>w. \<lparr>en_NextHop = if_Gateway w, en_Device = if_Device w\<rparr>) gws else []),
          fd_PBR = (length (PBR c) > 0),
          fd_PBRMaps = maps,
          fd_PBRInterfaces =
            (if length (PBR c) > 0 then
               map (\<lambda>f. \<lparr>pi_Device = if_Device f, pi_MapName = pbr_map_name\<rparr>)
                 (filter (\<lambda>f. is_lan f \<and> length maps > 0) (Interfaces c))
             else []),
          fd_BFD = (gws \<noteq> []),
          fd_BFDPeers = map if_Gateway gws\<rparr>)"

section \<open>The template\<close>

definition static_route_line :: "static_route \<Rightarrow> string" where
  "static_route_line r = ''ip route '' @ sr_Prefix r @ '' '' @ sr_NextHop r @
     (if sr_Device r \<noteq> [] then '' '' @ sr_Device r else [])"

definition ecmp_line :: "ecmp_nexthop \<Rightarrow> string" where
  "ecmp_line n = ''ip route 0.0.0.0/0 '' @ en_NextHop n @ '' '' @ en_Device n"

definition pbr_map_lines :: "pbr_map \<Rightarrow> string list" where
  "pbr_map_lines m =
     [''pbr-map '' @ pm_Name m @ '' seq '' @ itoa (pm_Seq m),
      '' match src-ip '' @ pm_MatchSrc m,
      '' set nexthop '' @ pm_NextHop m @ (if pm_Device m \<noteq> [] then '' '' @ pm_Device m else []),
      ''!'']"

definition pbr_interface_lines :: "pbr_interface \<Rightarrow> string list" where
  "pbr_interface_lines p =
     [''interface '' @ pi_Device p, '' pbr-policy '' @ pi_MapName p, ''!'']"

definition bfd_peer_lines :: "string \<Rightarrow> string list" where
  "bfd_peer_lines a =
     ['' peer '' @ a, ''  detect-multiplier 3'', ''  receive-interval 300'',
      ''  transmit-interval 300'', '' !'']"

definition frr_lines :: "frr_data \<Rightarrow> string list" where
  "frr_lines d =
     [''! Warp Router '' @ em_dash @ '' FRR configuration'',
      ''! Generated by 'warp apply'. Do not edit manually.'', '''',
      ''frr version 10'', ''frr defaults traditional'', '''',
      ''hostname '' @ fd_Hostname d, ''log syslog informational'',
      ''service integrated-vtysh-config'', ''!''] @
     map static_route_line (fd_StaticRoutes d) @ [''!''] @
     (if fd_ECMP d then
        ''! ECMP default routes (FRR merges equal-cost routes automatically)'' #
        map ecmp_line (fd_ECMPNextHops d) else []) @ [''!''] @
     (if fd_PBR d then
        ''! Policy-Based Routing'' # concat (map pbr_map_lines (fd_PBRMaps d)) @
        concat (map pbr_interface_lines (fd_PBRInterfaces d)) else []) @
     (if fd_BFD d then
        [''!'', ''! BFD peers for WAN health'', ''bfd''] @
        concat (map bfd_peer_lines (fd_BFDPeers d)) @ [''!''] else []) @
     [''line vty'', ''!'']"

text \<open>The template is a constant that parses, and its execution on this data writes to memory:
  neither error return of \<^verbatim>\<open>Render\<close> is reachable.\<close>

definition frr_Render :: "site_config \<Rightarrow> string + string" where
  "frr_Render c = Inr (text_of (frr_lines (make_frr_data c)))"

section \<open>The routes in the rendered file\<close>

definition route_line :: "interface \<Rightarrow> string" where
  "route_line f = ''ip route 0.0.0.0/0 '' @ if_Gateway f @ '' '' @ if_Device f"

text \<open>The strings of the configuration that the template copies into single lines.\<close>

definition frr_one_line :: "site_config \<Rightarrow> bool" where
  "frr_one_line c \<longleftrightarrow> one_line (Hostname c) \<and>
     (\<forall>f \<in> set (Interfaces c). one_line (if_Gateway f) \<and> one_line (if_Device f)) \<and>
     (\<forall>r \<in> set (PBR c). one_line (pbr_Source r))"

lemma wan_gateways: "filter (\<lambda>w. if_Gateway w \<noteq> []) (wan_interfaces c) = filter is_uplink (Interfaces c)"
  by (auto simp: wan_interfaces_def is_uplink_def intro!: filter_cong)

lemma one_line_static: "one_line (static_route_line r) \<longleftrightarrow>
    one_line (sr_Prefix r) \<and> one_line (sr_NextHop r) \<and> one_line (sr_Device r)"
  by (auto simp: static_route_line_def)

lemma make_pbr_maps_mem:
  assumes "m \<in> set (make_pbr_maps c)"
  shows "\<exists>i r t. i < length (PBR c) \<and> r = PBR c ! i \<and> t \<in> set (Interfaces c) \<and>
     if_Name t = pbr_Interface r \<and>
     m = \<lparr>pm_Name = pbr_map_name, pm_Seq = (int i + 1) * 10, pm_MatchSrc = pbr_Source r,
          pm_NextHop = if_Gateway t, pm_Device = if_Device t\<rparr>"
proof -
  from assms obtain i where i: "i < length (PBR c)"
    and m: "m \<in> set (case map_of (iface_by_name (Interfaces c)) (pbr_Interface (PBR c ! i)) of
       None \<Rightarrow> []
     | Some t \<Rightarrow> [\<lparr>pm_Name = pbr_map_name, pm_Seq = (int i + 1) * 10, pm_MatchSrc = pbr_Source (PBR c ! i),
                    pm_NextHop = if_Gateway t, pm_Device = if_Device t\<rparr>])"
    by (auto simp: make_pbr_maps_def range_concat_set)
  from m show ?thesis
    by (cases "map_of (iface_by_name (Interfaces c)) (pbr_Interface (PBR c ! i))")
      (use i in \<open>auto dest: iface_by_name_Some\<close>)
qed

lemma frr_lines_one_line:
  assumes "frr_one_line c"
  shows "\<forall>l \<in> set (frr_lines (make_frr_data c)). one_line l"
proof -
  have gw: "one_line (if_Gateway f)" "one_line (if_Device f)" if "f \<in> set (Interfaces c)" for f
    using assms that by (auto simp: frr_one_line_def)
  have pbr: "one_line l" if m: "m \<in> set (make_pbr_maps c)" and l: "l \<in> set (pbr_map_lines m)" for m l
  proof -
    from make_pbr_maps_mem [OF m] obtain r t where "r \<in> set (PBR c)" "t \<in> set (Interfaces c)"
        "pm_MatchSrc m = pbr_Source r" "pm_NextHop m = if_Gateway t" "pm_Device m = if_Device t"
        "pm_Name m = pbr_map_name"
      by (metis nth_mem pbr_map.select_convs)
    with l gw assms show ?thesis
      by (auto simp: pbr_map_lines_def frr_one_line_def pbr_map_name_def itoa_def)
  qed
  show ?thesis
    using assms gw pbr
    by (auto simp: frr_lines_def make_frr_data_def Let_def em_dash_def one_line_static ecmp_line_def
        pbr_interface_lines_def pbr_map_name_def bfd_peer_lines_def frr_one_line_def wan_interfaces_def
        split: if_splits)
qed

lemma frr_route_lines:
  assumes "\<forall>f \<in> set (Interfaces c). if_Device f \<noteq> []"
  shows "filter (starts_with ''ip route '') (frr_lines (make_frr_data c)) =
    map route_line (filter is_uplink (Interfaces c))"
proof -
  let ?ip = "starts_with ''ip route ''"
  have maps: "filter ?ip (concat (map pbr_map_lines ms)) = []" for ms
    by (rule filter_none) (auto simp: pbr_map_lines_def starts_with_def)
  have ifs: "filter ?ip (concat (map pbr_interface_lines is)) = []" for "is"
    by (rule filter_none) (auto simp: pbr_interface_lines_def starts_with_def)
  have bfd: "filter ?ip (concat (map bfd_peer_lines ps)) = []" for ps
    by (rule filter_none) (auto simp: bfd_peer_lines_def starts_with_def)
  have static: "filter ?ip (map static_route_line rs) = map static_route_line rs" for rs
    by (rule filter_True) (auto simp: static_route_line_def starts_with_def)
  have ecmp: "filter ?ip (map ecmp_line ns) = map ecmp_line ns" for ns
    by (rule filter_True) (auto simp: ecmp_line_def starts_with_def)
  let ?ups = "filter is_uplink (Interfaces c)"
  have "filter ?ip (frr_lines (make_frr_data c)) =
      map static_route_line (fd_StaticRoutes (make_frr_data c)) @
      (if fd_ECMP (make_frr_data c) then map ecmp_line (fd_ECMPNextHops (make_frr_data c)) else [])"
    by (simp add: frr_lines_def maps ifs bfd static ecmp starts_with_def [of _ "_ # _"]
        starts_with_def [of _ "[]"])
  also have "\<dots> = map route_line ?ups"
    using assms
    by (auto simp: make_frr_data_def Let_def wan_gateways route_line_def static_route_line_def ecmp_line_def)
  finally show ?thesis .
qed

lemma frr_Render_lines:
  "frr_one_line c \<Longrightarrow> lines_of (projr (frr_Render c)) = frr_lines (make_frr_data c) @ [[]]"
  by (simp add: frr_Render_def lines_of_text_of frr_lines_one_line)

lemma frr_Render_routes:
  assumes "frr_one_line c" "\<forall>f \<in> set (Interfaces c). if_Device f \<noteq> []"
  shows "filter (starts_with ''ip route '') (lines_of (projr (frr_Render c))) =
    map route_line (filter is_uplink (Interfaces c))"
  by (simp add: frr_Render_lines [OF assms(1)] frr_route_lines [OF assms(2)] starts_with_def)

lemma frr_one_line_ECMP [simp]: "frr_one_line (c\<lparr>ECMP := e\<rparr>) = frr_one_line c"
  by (simp add: frr_one_line_def)

lemma make_pbr_maps_increasing:
  assumes "\<And>i r x. x \<in> set (f i r) \<Longrightarrow> pm_Seq x = (int i + 1) * 10" "\<And>i r. length (f i r) \<le> 1"
  shows "sorted_wrt (<) (map pm_Seq (range_concat f k rs)) \<and>
    (\<forall>x \<in> set (range_concat f k rs). (int k + 1) * 10 \<le> pm_Seq x)"
proof (induction rs arbitrary: k)
  case (Cons r rs)
  show ?case
  proof (cases "f k r")
    case Nil
    with Cons.IH [of "Suc k"] show ?thesis by force
  next
    case (Cons x xs)
    with assms(2) [of k r] assms(1) [of x k r] Cons.IH [of "Suc k"] show ?thesis by force
  qed
qed simp

section \<open>Properties\<close>

text \<open>C11. The rendered frr.conf holds exactly one default route per WAN interface with a
  gateway, through that gateway and device and in configuration order; no route is lost and
  none is invented, with ECMP on or off.\<close>

theorem frr_default_routes:
  assumes "frr_one_line c" "\<forall>f \<in> set (Interfaces c). if_Device f \<noteq> []"
  shows "\<exists>out. frr_Render c = Inr out \<and>
    filter (starts_with ''ip route '') (lines_of out) = map route_line (filter is_uplink (Interfaces c))"
  using frr_Render_routes [OF assms] by (simp add: frr_Render_def)

theorem frr_default_routes_witness:
  "\<exists>out. frr_Render dual_wan_site = Inr out \<and> filter (starts_with ''ip route '') (lines_of out) =
     [''ip route 0.0.0.0/0 10.0.0.1 eth0'', ''ip route 0.0.0.0/0 203.0.113.1 eth1'']"
proof -
  have h: "frr_one_line dual_wan_site" "\<forall>f \<in> set (Interfaces dual_wan_site). if_Device f \<noteq> []"
    by (simp_all add: frr_one_line_def sample_defs)
  show ?thesis
    using frr_default_routes [OF h]
    by (simp add: sample_defs is_uplink_def role_is_def route_line_def)
qed

text \<open>The ecmp switch does not change the default routes that reach FRR: the branch meant
  for a single WAN writes one equal-cost route per gateway as well, which FRR merges.\<close>

theorem frr_routes_ignore_ecmp_switch:
  assumes "frr_one_line c" "\<forall>f \<in> set (Interfaces c). if_Device f \<noteq> []"
  shows "filter (starts_with ''ip route '') (lines_of (projr (frr_Render (c\<lparr>ECMP := e\<rparr>)))) =
    filter (starts_with ''ip route '') (lines_of (projr (frr_Render c)))"
  using frr_Render_routes [of c] frr_Render_routes [of "c\<lparr>ECMP := e\<rparr>"] assms by simp

theorem frr_routes_ignore_ecmp_switch_witness:
  "filter (starts_with ''ip route '') (lines_of (projr (frr_Render (dual_wan_site\<lparr>ECMP := None\<rparr>)))) =
   filter (starts_with ''ip route '') (lines_of (projr (frr_Render dual_wan_site)))"
  by (rule frr_routes_ignore_ecmp_switch) (simp_all add: frr_one_line_def sample_defs)

text \<open>Rendering the dual-WAN configuration gives testdata/dual-wan-ecmp.golden, byte for byte.\<close>

theorem frr_golden_dual_wan:
  "frr_Render dual_wan_site = Inr (text_of
     [''! Warp Router '' @ em_dash @ '' FRR configuration'',
      ''! Generated by 'warp apply'. Do not edit manually.'', '''',
      ''frr version 10'', ''frr defaults traditional'', '''',
      ''hostname gw-dual'', ''log syslog informational'', ''service integrated-vtysh-config'',
      ''!'', ''!'',
      ''! ECMP default routes (FRR merges equal-cost routes automatically)'',
      ''ip route 0.0.0.0/0 10.0.0.1 eth0'', ''ip route 0.0.0.0/0 203.0.113.1 eth1'',
      ''!'', ''!'', ''! BFD peers for WAN health'', ''bfd'',
      '' peer 10.0.0.1'', ''  detect-multiplier 3'', ''  receive-interval 300'',
      ''  transmit-interval 300'', '' !'',
      '' peer 203.0.113.1'', ''  detect-multiplier 3'', ''  receive-interval 300'',
      ''  transmit-interval 300'', '' !'', ''!'', ''line vty'', ''!''])"
  by (simp add: frr_Render_def frr_lines_def make_frr_data_def wan_interfaces_def role_is_def
      ecmp_active_def sample_defs Let_def ecmp_line_def bfd_peer_lines_def)

text \<open>The PBR map follows the order of the configuration: sequence numbers increase strictly,
  and changing the rules' priorities changes nothing in the rendered file.\<close>

theorem frr_pbr_order_ignores_priority:
  "sorted_wrt (<) (map pm_Seq (fd_PBRMaps (make_frr_data c))) \<and>
   frr_Render (c\<lparr>PBR := map (\<lambda>r. r\<lparr>pbr_Priority := p r\<rparr>) (PBR c)\<rparr>) = frr_Render c"
proof
  have "sorted_wrt (<) (map pm_Seq (make_pbr_maps c))"
    unfolding make_pbr_maps_def
    by (rule make_pbr_maps_increasing [THEN conjunct1]) (auto split: option.splits)
  then show "sorted_wrt (<) (map pm_Seq (fd_PBRMaps (make_frr_data c)))"
    by (simp add: make_frr_data_def Let_def)
next
  have "range_concat f k (map (\<lambda>r. r\<lparr>pbr_Priority := p r\<rparr>) rs) =
      range_concat (\<lambda>i r. f i (r\<lparr>pbr_Priority := p r\<rparr>)) k rs" for f :: "nat \<Rightarrow> pbr_rule \<Rightarrow> pbr_map list" and k rs
    by (induction rs arbitrary: k) simp_all
  then have "make_frr_data (c\<lparr>PBR := map (\<lambda>r. r\<lparr>pbr_Priority := p r\<rparr>) (PBR c)\<rparr>) = make_frr_data c"
    by (simp add: make_frr_data_def make_pbr_maps_def wan_interfaces_def ecmp_active_def Let_def
        cong: option.case_cong)
  then show "frr_Render (c\<lparr>PBR := map (\<lambda>r. r\<lparr>pbr_Priority := p r\<rparr>) (PBR c)\<rparr>) = frr_Render c"
    by (simp add: frr_Render_def)
qed

text \<open>A valid configuration with a rule that names an interface without gateway.\<close>

definition pbr_to_lan_site :: site_config where
  "pbr_to_lan_site = dual_wan_site\<lparr>PBR := [\<lparr>pbr_Name = ''r'', pbr_Priority = 100,
     pbr_Source = ''10.1.0.0/16'', pbr_Interface = ''lan1''\<rparr>]\<rparr>"

text \<open>A configuration that passes validation can render a PBR map without a next hop: a rule
  may name an interface that has no gateway, and the renderer does not check for one.\<close>

theorem frr_pbr_without_gateway:
  "Validate pbr_to_lan_site = [] \<and>
   '' set nexthop  eth2'' \<in> set (frr_lines (make_frr_data pbr_to_lan_site))"
  by code_simp

end
