(* ===== verification/Sysctl.thy ===== *)
theory Sysctl
  imports Samples
begin

text \<open>
  \<^verbatim>\<open>internal/services/sysctl/sysctl.go\<close>: the kernel settings, with the one value that the
  configuration may override.
\<close>

definition sysctl_conntrack_max :: "site_config \<Rightarrow> int" where
  "sysctl_conntrack_max c =
     (case SysctlCfg c of
        Some s \<Rightarrow> if sc_ConntrackMax s > 0 then sc_ConntrackMax s else 262144
      | None \<Rightarrow> 262144)"

definition sysctl_lines :: "int \<Rightarrow> string list" where
  "sysctl_lines conntrackMax =
     [''# Warp Router '' @ em_dash @ '' sysctl settings'',
      ''# Generated by 'warp apply'. Do not edit manually.'', '''',
      ''# Enable IPv4 forwarding'', ''net.ipv4.ip_forward = 1'', '''',
      ''# Reverse path filtering (loose mode for multi-WAN ECMP)'',
      ''net.ipv4.conf.default.rp_filter = 2'', ''net.ipv4.conf.all.rp_filter = 2'', '''',
      ''# Conntrack tuning'', ''net.netfilter.nf_conntrack_max = '' @ itoa conntrackMax, '''',
      ''# TCP SYN flood protection'', ''net.ipv4.tcp_syncookies = 1'', '''',
      ''# Disable ICMP redirects'', ''net.ipv4.conf.all.accept_redirects = 0'',
      ''net.ipv4.conf.default.accept_redirects = 0'', ''net.ipv4.conf.all.send_redirects = 0'',
      ''net.ipv4.conf.default.send_redirects = 0'', '''',
      ''# Ignore ICMP broadcast pings'', ''net.ipv4.icmp_echo_ignore_broadcasts = 1'', '''',
      ''# Log martian packets'', ''net.ipv4.conf.all.log_martians = 1'',
      ''net.ipv4.conf.default.log_martians = 1'']"

definition sysctl_Render :: "site_config \<Rightarrow> string + string" where
  "sysctl_Render c = Inr (text_of (sysctl_lines (sysctl_conntrack_max c)))"

lemma itoa_one_line [simp]: "one_line (itoa i)"
  by (simp add: itoa_def)

lemma sysctl_lines_one_line: "\<forall>l \<in> set (sysctl_lines n). one_line l"
  by (simp add: sysctl_lines_def em_dash_def)

text \<open>Whatever the configuration says, the rendered file turns IPv4 forwarding on in exactly
  one line and sets the connection-tracking limit in exactly one line, to a positive value: the
  configured one if it is positive and the default 262144 otherwise.\<close>

theorem sysctl_settings:
  "\<exists>out n. sysctl_Render c = Inr out \<and> n > 0 \<and>
     (n = 262144 \<or> (\<exists>s. SysctlCfg c = Some s \<and> sc_ConntrackMax s = n)) \<and>
     filter (starts_with ''net.netfilter.nf_conntrack_max'') (lines_of out) =
       [''net.netfilter.nf_conntrack_max = '' @ itoa n] \<and>
     filter (starts_with ''net.ipv4.ip_forward'') (lines_of out) = [''net.ipv4.ip_forward = 1'']"
proof -
  let ?n = "sysctl_conntrack_max c"
  have "lines_of (text_of (sysctl_lines ?n)) = sysctl_lines ?n @ [[]]"
    by (rule lines_of_text_of) (rule sysctl_lines_one_line)
  moreover have "?n > 0" "?n = 262144 \<or> (\<exists>s. SysctlCfg c = Some s \<and> sc_ConntrackMax s = ?n)"
    by (auto simp: sysctl_conntrack_max_def split: option.splits)
  ultimately show ?thesis
    by (intro exI [of _ "text_of (sysctl_lines ?n)"] exI [of _ ?n])
      (simp add: sysctl_Render_def sysctl_lines_def starts_with_def em_dash_def)
qed

end
