(* ===== verification/Unbound.thy ===== *)
theory Unbound
  imports Validate Samples
begin

text \<open>
  \<^verbatim>\<open>internal/services/unbound/unbound.go\<close>: the resolver configuration. The lemmas read
  the listen addresses, the access list and the forwarders back from the rendered text.
\<close>

record unbound_data =
  ud_ListenAddresses :: "string list"
  ud_AllowFrom :: "string list"
  ud_Forwarders :: "string list"

text \<open>The static addresses of the LAN interfaces, parsed.\<close>

definition lan_addresses :: "site_config \<Rightarrow> (ip \<times> ipnet) list" where
  "lan_addresses c = List.map_filter (\<lambda>f.
     if is_lan f \<and> if_Address f \<noteq> [] \<and> if_Address f \<noteq> ''dhcp'' then ParseCIDR (if_Address f) else None)
     (Interfaces c)"

definition make_unbound_data :: "site_config \<Rightarrow> unbound_data" where
  "make_unbound_data c =
     (let listen = [''127.0.0.1'', ''::1''] @ map (\<lambda>(x, _). IP_String (Some x)) (lan_addresses c);
          lanSubnets = map (\<lambda>(_, n). IPNet_String n) (lan_addresses c)
      in \<lparr>ud_ListenAddresses =
            (case DNS c of Some d \<Rightarrow> if length (dns_Listen d) > 0 then dns_Listen d else listen | None \<Rightarrow> listen),
          ud_AllowFrom =
            (case DNS c of Some d \<Rightarrow> if length (dns_AllowFrom d) > 0 then dns_AllowFrom d else lanSubnets
             | None \<Rightarrow> lanSubnets),
          ud_Forwarders =
            (case DNS c of Some d \<Rightarrow> if length (dns_Forwarders d) > 0 then dns_Forwarders d else [] | None \<Rightarrow> [])\<rparr>)"

definition unbound_lines :: "unbound_data \<Rightarrow> string list" where
  "unbound_lines d =
     [''# Warp Router '' @ em_dash @ '' Unbound DNS resolver configuration'',
      ''# Generated by 'warp apply'. Do not edit manually.'', '''',
      ''server:'', ''    verbosity: 1''] @
     map (\<lambda>a. ''    interface: '' @ a) (ud_ListenAddresses d) @
     ['''', ''    # Access control'', ''    access-control: 127.0.0.0/8 allow'',
      ''    access-control: ::1/128 allow''] @
     map (\<lambda>a. ''    access-control: '' @ a @ '' allow'') (ud_AllowFrom d) @
     ['''', ''    # Performance'', ''    num-threads: 2'', ''    msg-cache-slabs: 4'',
      ''    rrset-cache-slabs: 4'', ''    infra-cache-slabs: 4'', ''    key-cache-slabs: 4'',
      ''    msg-cache-size: 64m'', ''    rrset-cache-size: 128m'', '''',
      ''    # Privacy and security'', ''    hide-identity: yes'', ''    hide-version: yes'',
      ''    harden-glue: yes'', ''    harden-dnssec-stripped: yes'', ''    harden-referral-path: yes'',
      ''    use-caps-for-id: yes'', '''', ''    # Prefetch'', ''    prefetch: yes'',
      ''    prefetch-key: yes'', '''', ''    # Root hints'',
      ''    root-hints: '' @ quoted ''/usr/share/dns/root.hints''] @
     (if ud_Forwarders d \<noteq> [] then
        ['''', ''    # Forwarding mode '' @ em_dash @ '' upstream handles DNSSEC validation'',
         ''    module-config: '' @ quoted ''iterator'', '''',
         ''forward-zone:'', ''    name: '' @ quoted ''.''] @
        map (\<lambda>a. ''    forward-addr: '' @ a) (ud_Forwarders d)
      else
        ['''', ''    # Full recursion mode with DNSSEC validation'',
         ''    auto-trust-anchor-file: '' @ quoted ''/var/lib/unbound/root.key''])"

definition unbound_Render :: "site_config \<Rightarrow> string + string" where
  "unbound_Render c =
     (if (case DNS c of Some d \<Rightarrow> \<not> dns_Enabled d | None \<Rightarrow> False)
      then Inr (''# Warp Router '' @ em_dash @ '' DNS disabled by configuration.'' @ nl)
      else Inr (text_of (unbound_lines (make_unbound_data c))))"

text \<open>The strings that the template copies into single lines.\<close>

definition unbound_one_line :: "site_config \<Rightarrow> bool" where
  "unbound_one_line c \<longleftrightarrow>
     (\<forall>d. DNS c = Some d \<longrightarrow>
        (\<forall>a \<in> set (dns_Listen d) \<union> set (dns_AllowFrom d) \<union> set (dns_Forwarders d). one_line a))"

lemma IPNet_String_one_line [simp]: "one_line (IPNet_String n)"
  by (auto simp: IPNet_String_def split: option.splits)

lemma make_unbound_data_one_line:
  assumes "unbound_one_line c"
  shows "\<forall>a \<in> set (ud_ListenAddresses (make_unbound_data c)) \<union> set (ud_AllowFrom (make_unbound_data c)) \<union>
    set (ud_Forwarders (make_unbound_data c)). one_line a"
  using assms
  by (auto simp: make_unbound_data_def unbound_one_line_def Let_def split: option.splits)

lemma unbound_lines_one_line:
  assumes "\<forall>a \<in> set (ud_ListenAddresses d) \<union> set (ud_AllowFrom d) \<union> set (ud_Forwarders d). one_line a"
  shows "\<forall>l \<in> set (unbound_lines d). one_line l"
  using assms by (auto simp: unbound_lines_def em_dash_def quoted_def)

lemma unbound_filter:
  fixes p :: string
  assumes "p = ''    interface: '' \<and> xs = map (\<lambda>a. ''    interface: '' @ a) (ud_ListenAddresses d) \<or>
    p = ''    access-control: '' \<and> xs = [''    access-control: 127.0.0.0/8 allow'',
      ''    access-control: ::1/128 allow''] @ map (\<lambda>a. ''    access-control: '' @ a @ '' allow'') (ud_AllowFrom d) \<or>
    p = ''    forward-addr: '' \<and> xs = map (\<lambda>a. ''    forward-addr: '' @ a) (ud_Forwarders d)"
  shows "filter (starts_with p) (unbound_lines d) = xs"
  using assms
  by (elim disjE conjE) (simp_all add: unbound_lines_def em_dash_def quoted_def filter_map comp_def starts_with_def)



end
