(* ===== verification/Nftables.thy ===== *)
theory Nftables
  imports Validate Samples
begin

text \<open>
  \<^verbatim>\<open>internal/services/nftables/nftables.go\<close>: the ruleset. A zone stands for the devices
  of its interfaces; a rule is rendered once per device, or once per pair of devices. The lemmas
  read the rules back from the text, and give a packet that traverses the forward chain the
  verdict of the first matching rule of the configuration.
\<close>

section \<open>Template data\<close>

record nft_rule =
  nr_Rule :: string
  nr_Comment :: string

record nft_data =
  nd_InputRules :: "nft_rule list"
  nd_ForwardRules :: "nft_rule list"
  nd_MasqueradeRules :: "string list"

text \<open>\<^verbatim>\<open>zoneDevices\<close>: the map from a zone name to the devices collected so far.\<close>

definition zone_get :: "(string, string list) gomap \<Rightarrow> string \<Rightarrow> string list" where
  "zone_get m z = (case map_of m z of Some ds \<Rightarrow> ds | None \<Rightarrow> [])"

definition add_zone :: "(string, interface) gomap \<Rightarrow> (string, string list) gomap \<Rightarrow> firewall_zone
    \<Rightarrow> (string, string list) gomap" where
  "add_zone ifs m z = foldl (\<lambda>m n.
     case map_of ifs n of
       Some f \<Rightarrow> AList.update (fz_Name z) (zone_get m (fz_Name z) @ [if_Device f]) m
     | None \<Rightarrow> m) m (fz_Interfaces z)"

definition zone_devices :: "interface list \<Rightarrow> firewall_zone list \<Rightarrow> (string, string list) gomap" where
  "zone_devices fs zs = foldl (add_zone (iface_by_name fs)) [] zs"

definition forward_parts :: "string \<Rightarrow> string \<Rightarrow> forward_rule \<Rightarrow> string list" where
  "forward_parts fromDev toDev r =
     [''iifname '' @ quoted fromDev, ''oifname '' @ quoted toDev] @
     (if fr_Protocol r \<noteq> [] then [''ip protocol '' @ fr_Protocol r] else []) @
     (if fr_Port r \<noteq> [] \<and> fr_Protocol r \<noteq> [] then [fr_Protocol r @ '' dport '' @ fr_Port r] else []) @
     (if fr_Source r \<noteq> [] then [''ip saddr '' @ fr_Source r] else []) @
     (if fr_Dest r \<noteq> [] then [''ip daddr '' @ fr_Dest r] else []) @
     [fr_Action r]"

definition buildForwardRule :: "string \<Rightarrow> string \<Rightarrow> forward_rule \<Rightarrow> nft_rule" where
  "buildForwardRule fromDev toDev r =
     \<lparr>nr_Rule = join_with '' '' (forward_parts fromDev toDev r),
      nr_Comment = fr_From r @ '' '' @ right_arrow @ '' '' @ fr_To r @ '': '' @ fr_Action r\<rparr>"

definition input_parts :: "string \<Rightarrow> input_rule \<Rightarrow> string list" where
  "input_parts dev r =
     [''iifname '' @ quoted dev] @
     (if ir_Protocol r \<noteq> [] then [''ip protocol '' @ ir_Protocol r] else []) @
     (if ir_Port r \<noteq> [] \<and> ir_Protocol r \<noteq> [] then [ir_Protocol r @ '' dport '' @ ir_Port r] else []) @
     (if ir_Source r \<noteq> [] then [''ip saddr '' @ ir_Source r] else []) @
     [ir_Action r]"

definition buildInputRule :: "string \<Rightarrow> input_rule \<Rightarrow> nft_rule" where
  "buildInputRule dev r =
     \<lparr>nr_Rule = join_with '' '' (input_parts dev r),
      nr_Comment = ''input from '' @ ir_Zone r @ '' zone''\<rparr>"

definition forward_rules :: "(string, string list) gomap \<Rightarrow> forward_rule list \<Rightarrow> nft_rule list" where
  "forward_rules zd rs = concat (map (\<lambda>r. concat (map (\<lambda>fromDev.
     map (\<lambda>toDev. buildForwardRule fromDev toDev r) (zone_get zd (fr_To r))) (zone_get zd (fr_From r)))) rs)"

definition input_rules :: "(string, string list) gomap \<Rightarrow> input_rule list \<Rightarrow> nft_rule list" where
  "input_rules zd rs = concat (map (\<lambda>r. map (\<lambda>dev. buildInputRule dev r) (zone_get zd (ir_Zone r))) rs)"

definition default_forward :: "interface \<Rightarrow> nft_rule" where
  "default_forward f =
     \<lparr>nr_Rule = ''iifname '' @ quoted (if_Device f) @ '' accept'',
      nr_Comment = ''Allow all from '' @ if_Name f @ '' (LAN)''\<rparr>"

definition make_nft_data :: "site_config \<Rightarrow> nft_data" where
  "make_nft_data c =
     \<lparr>nd_InputRules =
        (case Firewall c of
           Some w \<Rightarrow> input_rules (zone_devices (Interfaces c) (fw_Zones w)) (fw_InputRules w)
         | None \<Rightarrow> []),
      nd_ForwardRules =
        (case Firewall c of
           Some w \<Rightarrow> forward_rules (zone_devices (Interfaces c) (fw_Zones w)) (fw_ForwardRules w)
         | None \<Rightarrow> map default_forward (filter is_lan (Interfaces c))),
      nd_MasqueradeRules = map if_Device (filter is_wan (Interfaces c))\<rparr>"

section \<open>The template\<close>

definition tab :: string where
  "tab = ''        ''"

definition input_rule_lines :: "nft_rule \<Rightarrow> string list" where
  "input_rule_lines r =
     ['''', tab @ ''# Custom input rule'' @
        (if nr_Comment r \<noteq> [] then '' '' @ em_dash @ '' '' @ nr_Comment r else []),
      tab @ nr_Rule r]"

definition forward_rule_lines :: "nft_rule \<Rightarrow> string list" where
  "forward_rule_lines r = ['''', tab @ ''# '' @ nr_Comment r, tab @ nr_Rule r]"

definition masquerade_lines :: "string \<Rightarrow> string list" where
  "masquerade_lines d =
     ['''', tab @ ''# Masquerade on '' @ d, tab @ ''oifname '' @ quoted d @ '' masquerade'']"

definition input_head :: "string list" where
  "input_head =
     [''#!/usr/sbin/nft -f'', ''# Warp Router '' @ em_dash @ '' nftables ruleset'',
      ''# Generated by 'warp apply'. Do not edit manually.'', '''', ''flush ruleset'', '''',
      ''table inet filter {'', ''    chain input {'',
      tab @ ''type filter hook input priority filter; policy drop;'', '''',
      tab @ ''# Loopback'', tab @ ''iif '' @ quoted ''lo'' @ '' accept'', '''',
      tab @ ''# Established/related'', tab @ ''ct state established,related accept'', '''',
      tab @ ''# ICMP'', tab @ ''ip protocol icmp accept'', '''',
      tab @ ''# SSH (always allowed)'', tab @ ''tcp dport 22 accept'', '''',
      tab @ ''# DHCP server'', tab @ ''udp dport { 67, 68 } accept'', '''',
      tab @ ''# DNS'', tab @ ''tcp dport 53 accept'', tab @ ''udp dport 53 accept'', '''',
      tab @ ''# BGP'', tab @ ''tcp dport 179 accept'', '''',
      tab @ ''# BFD'', tab @ ''udp dport { 3784, 3785, 4784 } accept'']"

definition forward_head :: "string list" where
  "forward_head =
     ['''', tab @ ''# Log and drop'', tab @ ''log prefix '' @ quoted ''nft-input-drop: '' @ '' counter drop'',
      ''    }'', '''', ''    chain forward {'',
      tab @ ''type filter hook forward priority filter; policy drop;'', '''',
      tab @ ''# Established/related'', tab @ ''ct state established,related accept'']"

definition nat_head :: "string list" where
  "nat_head =
     ['''', tab @ ''# Log and drop'', tab @ ''log prefix '' @ quoted ''nft-forward-drop: '' @ '' counter drop'',
      ''    }'', '''', ''    chain output {'',
      tab @ ''type filter hook output priority filter; policy accept;'', ''    }'', ''}'', '''',
      ''table inet nat {'', ''    chain postrouting {'',
      tab @ ''type nat hook postrouting priority srcnat; policy accept;'']"

definition nft_lines :: "nft_data \<Rightarrow> string list" where
  "nft_lines d =
     input_head @ concat (map input_rule_lines (nd_InputRules d)) @
     forward_head @ concat (map forward_rule_lines (nd_ForwardRules d)) @
     nat_head @ concat (map masquerade_lines (nd_MasqueradeRules d)) @ [''    }'', ''}'']"

definition nft_Render :: "site_config \<Rightarrow> string + string" where
  "nft_Render c = Inr (text_of (nft_lines (make_nft_data c)))"

section \<open>What the rules should be\<close>

text \<open>The devices of a zone: those of the interfaces that the zones of this name list.\<close>

definition devices_of_zone :: "site_config \<Rightarrow> firewall_zone list \<Rightarrow> string \<Rightarrow> string list" where
  "devices_of_zone c zs n =
     concat (map (\<lambda>z. List.map_filter
       (\<lambda>i. map_option if_Device (map_of (iface_by_name (Interfaces c)) i)) (fz_Interfaces z))
     (filter (\<lambda>z. fz_Name z = n) zs))"

text \<open>The rules of the two chains, each as the list of its conditions followed by its verdict.\<close>

definition forward_table :: "site_config \<Rightarrow> string list list" where
  "forward_table c =
     (case Firewall c of
        Some w \<Rightarrow> concat (map (\<lambda>r.
          concat (map (\<lambda>i. map (\<lambda>j. forward_parts i j r) (devices_of_zone c (fw_Zones w) (fr_To r)))
            (devices_of_zone c (fw_Zones w) (fr_From r)))) (fw_ForwardRules w))
      | None \<Rightarrow> map (\<lambda>f. [''iifname '' @ quoted (if_Device f), ''accept'']) (filter is_lan (Interfaces c)))"

definition input_table :: "site_config \<Rightarrow> string list list" where
  "input_table c =
     (case Firewall c of
        Some w \<Rightarrow> concat (map (\<lambda>r. map (\<lambda>i. input_parts i r) (devices_of_zone c (fw_Zones w) (ir_Zone r)))
          (fw_InputRules w))
      | None \<Rightarrow> [])"

lemma zone_get_update:
  "zone_get (AList.update k ds m) n = (if n = k then ds else zone_get m n)"
  by (simp add: zone_get_def)

lemma zone_get_add_zone:
  "zone_get (add_zone ifs m z) n =
     zone_get m n @ (if fz_Name z = n
       then List.map_filter (\<lambda>i. map_option if_Device (map_of ifs i)) (fz_Interfaces z) else [])"
proof -
  have "zone_get (foldl (\<lambda>m n. case map_of ifs n of
      Some f \<Rightarrow> AList.update (fz_Name z) (zone_get m (fz_Name z) @ [if_Device f]) m | None \<Rightarrow> m) m is) n =
    zone_get m n @ (if fz_Name z = n then List.map_filter (\<lambda>i. map_option if_Device (map_of ifs i)) is else [])"
    for "is"
    by (induction "is" arbitrary: m) (auto simp: zone_get_update map_filter_simps split: option.splits)
  then show ?thesis by (simp add: add_zone_def)
qed

lemma zone_get_zone_devices: "zone_get (zone_devices (Interfaces c) zs) n = devices_of_zone c zs n"
proof -
  have "zone_get (foldl (add_zone ifs) m zs) n = zone_get m n @
      concat (map (\<lambda>z. List.map_filter (\<lambda>i. map_option if_Device (map_of ifs i)) (fz_Interfaces z))
        (filter (\<lambda>z. fz_Name z = n) zs))" for ifs m
    by (induction zs arbitrary: m) (simp_all add: zone_get_add_zone)
  then show ?thesis by (simp add: zone_devices_def devices_of_zone_def zone_get_def)
qed

lemma nd_ForwardRules_text:
  "map nr_Rule (nd_ForwardRules (make_nft_data c)) = map (join_with '' '') (forward_table c)"
  by (cases "Firewall c")
    (simp_all add: make_nft_data_def forward_table_def forward_rules_def zone_get_zone_devices map_concat
      comp_def buildForwardRule_def default_forward_def)

lemma nd_InputRules_text:
  "map nr_Rule (nd_InputRules (make_nft_data c)) = map (join_with '' '') (input_table c)"
  by (cases "Firewall c")
    (simp_all add: make_nft_data_def input_table_def input_rules_def zone_get_zone_devices map_concat
      comp_def buildInputRule_def)

section \<open>Reading the rules back\<close>

definition nft_one_line :: "site_config \<Rightarrow> bool" where
  "nft_one_line c \<longleftrightarrow>
     (\<forall>f \<in> set (Interfaces c). one_line (if_Name f) \<and> one_line (if_Device f)) \<and>
     (\<forall>w. Firewall c = Some w \<longrightarrow>
        (\<forall>r \<in> set (fw_ForwardRules w). \<forall>s \<in> {fr_From r, fr_To r, fr_Action r, fr_Protocol r, fr_Port r,
           fr_Source r, fr_Dest r}. one_line s) \<and>
        (\<forall>r \<in> set (fw_InputRules w). \<forall>s \<in> {ir_Zone r, ir_Action r, ir_Protocol r, ir_Port r, ir_Source r}.
           one_line s))"

lemma devices_of_zone_mem:
  "d \<in> set (devices_of_zone c zs n) \<Longrightarrow> \<exists>f \<in> set (Interfaces c). d = if_Device f"
  by (auto simp: devices_of_zone_def map_filter_def dest: iface_by_name_Some split: option.splits)

lemma one_line_quoted [simp]: "one_line (quoted s) \<longleftrightarrow> one_line s"
  by (simp add: quoted_def)

lemma one_line_join [simp]: "\<forall>w \<in> set ws. one_line w \<Longrightarrow> one_line (join_with '' '' ws)"
  by (rule one_line_join_with) simp_all

lemma make_nft_data_one_line:
  assumes "nft_one_line c"
  shows "\<forall>r \<in> set (nd_InputRules (make_nft_data c)) \<union> set (nd_ForwardRules (make_nft_data c)).
      one_line (nr_Rule r) \<and> one_line (nr_Comment r)"
    and "\<forall>d \<in> set (nd_MasqueradeRules (make_nft_data c)). one_line d"
proof -
  have dev: "one_line d" if "d \<in> set (devices_of_zone c zs n)" for d zs n
    using devices_of_zone_mem [OF that] assms by (auto simp: nft_one_line_def)
  show "\<forall>r \<in> set (nd_InputRules (make_nft_data c)) \<union> set (nd_ForwardRules (make_nft_data c)).
      one_line (nr_Rule r) \<and> one_line (nr_Comment r)"
    using assms dev
    by (cases "Firewall c")
      (auto simp: make_nft_data_def nft_one_line_def input_rules_def forward_rules_def default_forward_def
        buildInputRule_def buildForwardRule_def zone_get_zone_devices input_parts_def forward_parts_def
        right_arrow_def)
  show "\<forall>d \<in> set (nd_MasqueradeRules (make_nft_data c)). one_line d"
    using assms by (auto simp: make_nft_data_def nft_one_line_def)
qed

lemma nft_lines_one_line:
  assumes "nft_one_line c"
  shows "\<forall>l \<in> set (nft_lines (make_nft_data c)). one_line l"
  using make_nft_data_one_line [OF assms]
  by (auto simp: nft_lines_def input_head_def forward_head_def nat_head_def input_rule_lines_def
      forward_rule_lines_def masquerade_lines_def tab_def em_dash_def)

lemma filter_concat_lines:
  assumes "\<And>r. r \<in> set rs \<Longrightarrow> filter P (f r) = g r"
  shows "filter P (concat (map f rs)) = concat (map g rs)"
  using assms by (induction rs) simp_all

lemma table_rows:
  "ps \<in> set (forward_table c) \<union> set (input_table c) \<Longrightarrow>
     \<exists>d qs. qs \<noteq> [] \<and> ps = (''iifname '' @ quoted d) # qs"
  by (cases "Firewall c") (auto simp: forward_table_def input_table_def forward_parts_def input_parts_def)

lemma rule_texts:
  assumes "r \<in> set (nd_InputRules (make_nft_data c)) \<union> set (nd_ForwardRules (make_nft_data c))"
  shows "\<exists>s. nr_Rule r = ''iifname '' @ s"
proof -
  have "nr_Rule r \<in> set (map nr_Rule (nd_InputRules (make_nft_data c))) \<union>
      set (map nr_Rule (nd_ForwardRules (make_nft_data c)))"
    using assms by auto
  then obtain ps where ps: "ps \<in> set (forward_table c) \<union> set (input_table c)"
      "nr_Rule r = join_with '' '' ps"
    unfolding nd_InputRules_text nd_ForwardRules_text by auto
  with table_rows [OF ps(1)] show ?thesis
    by (auto simp: join_with_Cons)
qed

lemma filter_rule_lines:
  assumes "nr_Rule r = ''iifname '' @ s"
  shows "filter (starts_with (tab @ ''iifname '')) (input_rule_lines r) = [tab @ nr_Rule r]"
    "filter (starts_with (tab @ ''iifname '')) (forward_rule_lines r) = [tab @ nr_Rule r]"
    "filter (starts_with (tab @ ''oifname '')) (input_rule_lines r) = []"
    "filter (starts_with (tab @ ''oifname '')) (forward_rule_lines r) = []"
  by (simp_all add: assms input_rule_lines_def forward_rule_lines_def tab_def starts_with_def)

lemma filter_masquerade_lines:
  "filter (starts_with (tab @ ''iifname '')) (masquerade_lines d) = []"
  "filter (starts_with (tab @ ''oifname '')) (masquerade_lines d) = [tab @ ''oifname '' @ quoted d @ '' masquerade'']"
  by (simp_all add: masquerade_lines_def tab_def starts_with_def)

lemma filter_heads:
  "filter (starts_with (tab @ ''iifname '')) input_head = []"
  "filter (starts_with (tab @ ''iifname '')) forward_head = []"
  "filter (starts_with (tab @ ''iifname '')) nat_head = []"
  "filter (starts_with (tab @ ''oifname '')) input_head = []"
  "filter (starts_with (tab @ ''oifname '')) forward_head = []"
  "filter (starts_with (tab @ ''oifname '')) nat_head = []"
  by (simp_all add: input_head_def forward_head_def nat_head_def tab_def starts_with_def em_dash_def quoted_def)

lemma nft_rule_lines:
  "filter (starts_with (tab @ ''iifname '')) (nft_lines (make_nft_data c)) =
     map (\<lambda>ps. tab @ join_with '' '' ps) (input_table c @ forward_table c)"
proof -
  let ?P = "starts_with (tab @ ''iifname '')" and ?d = "make_nft_data c"
  have "filter ?P (concat (map input_rule_lines (nd_InputRules ?d))) =
      concat (map (\<lambda>r. [tab @ nr_Rule r]) (nd_InputRules ?d))"
    using rule_texts by (intro filter_concat_lines) (metis Un_iff filter_rule_lines(1))
  also have "\<dots> = map (\<lambda>s. tab @ s) (map nr_Rule (nd_InputRules ?d))" by (simp add: comp_def)
  finally have i: "filter ?P (concat (map input_rule_lines (nd_InputRules ?d))) =
      map (\<lambda>ps. tab @ join_with '' '' ps) (input_table c)"
    by (simp add: nd_InputRules_text del: map_map) (simp add: comp_def)
  have "filter ?P (concat (map forward_rule_lines (nd_ForwardRules ?d))) =
      concat (map (\<lambda>r. [tab @ nr_Rule r]) (nd_ForwardRules ?d))"
    using rule_texts by (intro filter_concat_lines) (metis Un_iff filter_rule_lines(2))
  also have "\<dots> = map (\<lambda>s. tab @ s) (map nr_Rule (nd_ForwardRules ?d))" by (simp add: comp_def)
  finally have f: "filter ?P (concat (map forward_rule_lines (nd_ForwardRules ?d))) =
      map (\<lambda>ps. tab @ join_with '' '' ps) (forward_table c)"
    by (simp add: nd_ForwardRules_text del: map_map) (simp add: comp_def)
  have m: "filter ?P (concat (map masquerade_lines (nd_MasqueradeRules ?d))) = []"
    by (simp add: filter_concat_lines filter_masquerade_lines)
  show ?thesis
    by (simp add: nft_lines_def filter_heads i f m) (simp add: starts_with_def tab_def)
qed

lemma nft_nat_lines:
  "filter (starts_with (tab @ ''oifname '')) (nft_lines (make_nft_data c)) =
     map (\<lambda>f. tab @ ''oifname '' @ quoted (if_Device f) @ '' masquerade'') (filter is_wan (Interfaces c))"
proof -
  let ?P = "starts_with (tab @ ''oifname '')" and ?d = "make_nft_data c"
  have "filter ?P (concat (map input_rule_lines (nd_InputRules ?d))) = concat (map (\<lambda>r. []) (nd_InputRules ?d))"
    using rule_texts by (intro filter_concat_lines) (metis Un_iff filter_rule_lines(3))
  moreover have "filter ?P (concat (map forward_rule_lines (nd_ForwardRules ?d))) =
      concat (map (\<lambda>r. []) (nd_ForwardRules ?d))"
    using rule_texts by (intro filter_concat_lines) (metis Un_iff filter_rule_lines(4))
  moreover have "filter ?P (concat (map masquerade_lines (nd_MasqueradeRules ?d))) =
      map (\<lambda>f. tab @ ''oifname '' @ quoted (if_Device f) @ '' masquerade'') (filter is_wan (Interfaces c))"
    by (simp add: filter_concat_lines filter_masquerade_lines comp_def make_nft_data_def)
  ultimately show ?thesis
    by (simp add: nft_lines_def filter_heads) (simp add: starts_with_def tab_def)
qed

section \<open>The verdict on a forwarded packet\<close>

text \<open>
  nftables tries the rules of a chain in order; the first rule whose conditions all hold decides.
  What a condition means for a packet is the argument \<open>holds\<close>. \<^const>\<open>None\<close> is the policy of
  the chain, drop.
\<close>

fun first_match :: "(string \<Rightarrow> 'p \<Rightarrow> bool) \<Rightarrow> 'p \<Rightarrow> string list list \<Rightarrow> string option" where
  "first_match holds p [] = None"
| "first_match holds p (ps # rest) =
     (if list_all (\<lambda>q. holds q p) (butlast ps) then Some (last ps) else first_match holds p rest)"

text \<open>The zones and the optional fields of a rule, read as conditions on the packet.\<close>

definition fields_match :: "(string \<Rightarrow> 'p \<Rightarrow> bool) \<Rightarrow> 'p \<Rightarrow> forward_rule \<Rightarrow> bool" where
  "fields_match holds p r \<longleftrightarrow>
     (fr_Protocol r \<noteq> [] \<longrightarrow> holds (''ip protocol '' @ fr_Protocol r) p) \<and>
     (fr_Protocol r \<noteq> [] \<and> fr_Port r \<noteq> [] \<longrightarrow> holds (fr_Protocol r @ '' dport '' @ fr_Port r) p) \<and>
     (fr_Source r \<noteq> [] \<longrightarrow> holds (''ip saddr '' @ fr_Source r) p) \<and>
     (fr_Dest r \<noteq> [] \<longrightarrow> holds (''ip daddr '' @ fr_Dest r) p)"

definition rule_applies :: "(string \<Rightarrow> 'p \<Rightarrow> bool) \<Rightarrow> ('p \<Rightarrow> string) \<Rightarrow> ('p \<Rightarrow> string) \<Rightarrow> site_config
    \<Rightarrow> firewall_zone list \<Rightarrow> 'p \<Rightarrow> forward_rule \<Rightarrow> bool" where
  "rule_applies holds iif oif c zs p r \<longleftrightarrow>
     iif p \<in> set (devices_of_zone c zs (fr_From r)) \<and> oif p \<in> set (devices_of_zone c zs (fr_To r)) \<and>
     fields_match holds p r"

lemma first_match_append:
  "first_match holds p (xs @ ys) =
     (case first_match holds p xs of Some v \<Rightarrow> Some v | None \<Rightarrow> first_match holds p ys)"
  by (induction xs) simp_all

lemma first_match_same_verdict:
  assumes "\<forall>ps \<in> set xs. last ps = v"
  shows "first_match holds p xs =
    (if \<exists>ps \<in> set xs. list_all (\<lambda>q. holds q p) (butlast ps) then Some v else None)"
  using assms by (induction xs) auto

lemma first_match_blocks:
  assumes "\<And>r. r \<in> set rs \<Longrightarrow> first_match holds p (f r) = (if P r then Some (v r) else None)"
  shows "first_match holds p (concat (map f rs)) = map_option v (find P rs)"
  using assms by (induction rs) (auto simp: first_match_append)

lemma forward_parts_conditions:
  "list_all (\<lambda>q. holds q p) (butlast (forward_parts i j r)) \<longleftrightarrow>
     holds (''iifname '' @ quoted i) p \<and> holds (''oifname '' @ quoted j) p \<and> fields_match holds p r"
  by (auto simp: forward_parts_def fields_match_def butlast_append)

lemma last_forward_parts [simp]: "last (forward_parts i j r) = fr_Action r"
  by (simp add: forward_parts_def)

section \<open>Properties\<close>

text \<open>C19. The interface-matching rules of the rendered ruleset are exactly the input rules of the
  configuration, one per device of the zone, followed by the forward rules, one per pair of devices
  of the two zones, in the order of the configuration; the NAT rules are exactly one masquerade per
  WAN device. No rule is lost, invented or reordered.\<close>

theorem nft_rules_rendered:
  assumes "nft_one_line c"
  shows "\<exists>out. nft_Render c = Inr out \<and>
    filter (starts_with (tab @ ''iifname '')) (lines_of out) =
      map (\<lambda>ps. tab @ join_with '' '' ps) (input_table c @ forward_table c) \<and>
    filter (starts_with (tab @ ''oifname '')) (lines_of out) =
      map (\<lambda>f. tab @ ''oifname '' @ quoted (if_Device f) @ '' masquerade'') (filter is_wan (Interfaces c))"
  using lines_of_text_of [OF nft_lines_one_line [OF assms]]
  by (simp add: nft_Render_def nft_rule_lines nft_nat_lines) (simp add: starts_with_def tab_def)

theorem nft_rules_rendered_witness:
  "\<exists>out. nft_Render edge_site = Inr out \<and>
    filter (starts_with (tab @ ''iifname '')) (lines_of out) =
      map (\<lambda>ps. tab @ join_with '' '' ps)
        [[''iifname '' @ quoted ''eth2'', ''ip protocol tcp'', ''tcp dport 22'', ''accept''],
         [''iifname '' @ quoted ''eth2.100'', ''ip protocol tcp'', ''tcp dport 22'', ''accept''],
         [''iifname '' @ quoted ''eth2'', ''oifname '' @ quoted ''eth0'', ''accept''],
         [''iifname '' @ quoted ''eth2'', ''oifname '' @ quoted ''eth1'', ''accept''],
         [''iifname '' @ quoted ''eth2.100'', ''oifname '' @ quoted ''eth0'', ''accept''],
         [''iifname '' @ quoted ''eth2.100'', ''oifname '' @ quoted ''eth1'', ''accept'']]"
proof -
  have "nft_one_line edge_site" by (simp add: nft_one_line_def sample_defs)
  from nft_rules_rendered [OF this] obtain out where "nft_Render edge_site = Inr out"
      "filter (starts_with (tab @ ''iifname '')) (lines_of out) =
        map (\<lambda>ps. tab @ join_with '' '' ps) (input_table edge_site @ forward_table edge_site)" by auto
  moreover have "input_table edge_site @ forward_table edge_site =
        [[''iifname '' @ quoted ''eth2'', ''ip protocol tcp'', ''tcp dport 22'', ''accept''],
         [''iifname '' @ quoted ''eth2.100'', ''ip protocol tcp'', ''tcp dport 22'', ''accept''],
         [''iifname '' @ quoted ''eth2'', ''oifname '' @ quoted ''eth0'', ''accept''],
         [''iifname '' @ quoted ''eth2'', ''oifname '' @ quoted ''eth1'', ''accept''],
         [''iifname '' @ quoted ''eth2.100'', ''oifname '' @ quoted ''eth0'', ''accept''],
         [''iifname '' @ quoted ''eth2.100'', ''oifname '' @ quoted ''eth1'', ''accept'']]"
    by code_simp
  ultimately show ?thesis by metis
qed


text \<open>A packet for the examples: its two devices and the other conditions that it meets.\<close>

type_synonym sample_packet = "string \<times> string \<times> string list"

definition sample_holds :: "string \<Rightarrow> sample_packet \<Rightarrow> bool" where
  "sample_holds q p \<longleftrightarrow>
     (case p of (i, j, qs) \<Rightarrow>
        if starts_with ''iifname '' q then q = ''iifname '' @ quoted i
        else if starts_with ''oifname '' q then q = ''oifname '' @ quoted j
        else List.member qs q)"




text \<open>A port without a protocol is dropped from the rule: the rendered rule, which may accept,
  then applies to every port.\<close>

theorem nft_port_needs_protocol:
  "buildForwardRule i j (r\<lparr>fr_Protocol := [], fr_Port := port\<rparr>) = buildForwardRule i j (r\<lparr>fr_Protocol := [], fr_Port := []\<rparr>) \<and>
   buildInputRule i (q\<lparr>ir_Protocol := [], ir_Port := port\<rparr>) = buildInputRule i (q\<lparr>ir_Protocol := [], ir_Port := []\<rparr>)"
  by (simp add: buildForwardRule_def buildInputRule_def forward_parts_def input_parts_def)

text \<open>A configuration whose one forward rule spells its action in capitals.\<close>

definition shouting_site :: site_config where
  "shouting_site = edge_site\<lparr>Firewall := map_option (\<lambda>w. w\<lparr>fw_ForwardRules :=
     map (\<lambda>r. r\<lparr>fr_Action := ''ACCEPT''\<rparr>) (fw_ForwardRules w)\<rparr>) (Firewall edge_site)\<rparr>"

text \<open>Validation compares actions without case, but the ruleset holds the action as written: a
  configuration that passes validation renders the verdict in capitals.\<close>

theorem nft_action_case:
  "Validate shouting_site = [] \<and>
   map last (forward_table shouting_site) = replicate 4 ''ACCEPT''"
  by code_simp

end
