(* ===== verification/Kea.thy ===== *)
theory Kea
  imports Validate Samples
begin

text \<open>
  \<^verbatim>\<open>internal/services/kea/kea.go\<close>: the DHCP server configuration. The Go structs are
  records, a slice that may be nil is an option, \<^verbatim>\<open>json.MarshalIndent\<close> is a function
  from the record to a JSON value and from the value to text.
\<close>

section \<open>JSON\<close>

datatype json = JNull | JBool bool | JInt int | JString string | JArray "json list"
  | JObject "(string \<times> json) list"

definition hex_digit :: "nat \<Rightarrow> char" where
  "hex_digit n = char_of (if n < 10 then 48 + n else 87 + n)"

text \<open>
  Strings as \<^verbatim>\<open>encoding/json\<close> writes them: a backslash before quote and backslash, short
  escapes, \<^verbatim>\<open>\u00XX\<close> for the other control bytes and for the HTML characters, and an
  escape for U+2028 and U+2029, the byte sequences E2 80 A8 and E2 80 A9. Other bytes are copied: the
  YAML decoder only delivers valid UTF-8.
\<close>

definition json_escape_byte :: "char \<Rightarrow> string" where
  "json_escape_byte c =
     (let n = of_char c :: nat; b = CHR 0x5C in
      if n = 34 \<or> n = 92 then [b, c]
      else if n = 8 then [b, CHR ''b'']
      else if n = 12 then [b, CHR ''f'']
      else if n = 10 then [b, CHR ''n'']
      else if n = 13 then [b, CHR ''r'']
      else if n = 9 then [b, CHR ''t'']
      else if n < 32 \<or> n = 60 \<or> n = 62 \<or> n = 38
        then b # ''u00'' @ [hex_digit (n div 16), hex_digit (n mod 16)]
      else [c])"

fun json_escape :: "string \<Rightarrow> string" where
  "json_escape [] = []"
| "json_escape (c # s) =
     (if c = CHR 0xE2 \<and> take 2 s = [CHR 0x80, CHR 0xA8] then CHR 0x5C # ''u2028'' @ json_escape (drop 2 s)
      else if c = CHR 0xE2 \<and> take 2 s = [CHR 0x80, CHR 0xA9] then CHR 0x5C # ''u2029'' @ json_escape (drop 2 s)
      else json_escape_byte c @ json_escape s)"

definition json_indent :: "nat \<Rightarrow> string" where
  "json_indent n = concat (replicate n ''    '')"

text \<open>The text of a value whose line is indented to depth \<open>n\<close>.\<close>

fun json_text :: "nat \<Rightarrow> json \<Rightarrow> string" where
  "json_text n JNull = ''null''"
| "json_text n (JBool b) = (if b then ''true'' else ''false'')"
| "json_text n (JInt i) = itoa i"
| "json_text n (JString s) = quoted (json_escape s)"
| "json_text n (JArray vs) =
     (if vs = [] then ''[]''
      else ''['' @ nl @
        join_with ('','' @ nl) (map (\<lambda>v. json_indent (Suc n) @ json_text (Suc n) v) vs) @
        nl @ json_indent n @ '']'')"
| "json_text n (JObject fs) =
     (if fs = [] then ''{}''
      else ''{'' @ nl @
        join_with ('','' @ nl)
          (map (\<lambda>(k, v). json_indent (Suc n) @ quoted (json_escape k) @ '': '' @ json_text (Suc n) v) fs) @
        nl @ json_indent n @ ''}'')"

section \<open>The structs\<close>

record option_data =
  od_Name :: string
  od_Data :: string

record subnet4 =
  s4_ID :: int
  s4_Subnet :: string
  s4_Pools :: "string list"
  s4_OptionData :: "option_data list"
  s4_ValidLifetime :: int
  s4_Interface :: string

record control_socket =
  cs_SocketType :: string
  cs_SocketName :: string

record lease_database =
  ld_Type :: string
  ld_Persist :: bool
  ld_Name :: string
  ld_LFCInterval :: int

record logger =
  lg_Name :: string
  lg_Outputs :: "string list"
  lg_Severity :: string

record kea_config =
  k_Interfaces :: "string list option"
  k_ControlSocket :: control_socket
  k_LeaseDatabase :: lease_database
  k_ValidLifetime :: int
  k_RenewTimer :: int
  k_RebindTimer :: int
  k_Subnet4 :: "subnet4 list option"
  k_Loggers :: "logger list"

definition json_slice :: "('a \<Rightarrow> json) \<Rightarrow> 'a list option \<Rightarrow> json" where
  "json_slice f xs = (case xs of None \<Rightarrow> JNull | Some ys \<Rightarrow> JArray (map f ys))"

definition option_json :: "option_data \<Rightarrow> json" where
  "option_json d = JObject [(''name'', JString (od_Name d)), (''data'', JString (od_Data d))]"

text \<open>The three fields tagged \<^verbatim>\<open>omitempty\<close> are left out when empty or zero.\<close>

definition subnet4_json :: "subnet4 \<Rightarrow> json" where
  "subnet4_json s = JObject
     ([(''id'', JInt (s4_ID s)), (''subnet'', JString (s4_Subnet s)),
       (''pools'', JArray (map (\<lambda>p. JObject [(''pool'', JString p)]) (s4_Pools s)))] @
      (if s4_OptionData s \<noteq> [] then [(''option-data'', JArray (map option_json (s4_OptionData s)))] else []) @
      (if s4_ValidLifetime s \<noteq> 0 then [(''valid-lifetime'', JInt (s4_ValidLifetime s))] else []) @
      (if s4_Interface s \<noteq> [] then [(''interface'', JString (s4_Interface s))] else []))"

definition logger_json :: "logger \<Rightarrow> json" where
  "logger_json l = JObject
     [(''name'', JString (lg_Name l)),
      (''output-options'', JArray (map (\<lambda>x. JObject [(''output'', JString x)]) (lg_Outputs l))),
      (''severity'', JString (lg_Severity l))]"

definition kea_json :: "kea_config \<Rightarrow> json" where
  "kea_json k = JObject [(''Dhcp4'', JObject
     [(''interfaces-config'', JObject [(''interfaces'', json_slice JString (k_Interfaces k))]),
      (''control-socket'', JObject
        [(''socket-type'', JString (cs_SocketType (k_ControlSocket k))),
         (''socket-name'', JString (cs_SocketName (k_ControlSocket k)))]),
      (''lease-database'', JObject
        [(''type'', JString (ld_Type (k_LeaseDatabase k))), (''persist'', JBool (ld_Persist (k_LeaseDatabase k))),
         (''name'', JString (ld_Name (k_LeaseDatabase k))),
         (''lfc-interval'', JInt (ld_LFCInterval (k_LeaseDatabase k)))]),
      (''valid-lifetime'', JInt (k_ValidLifetime k)), (''renew-timer'', JInt (k_RenewTimer k)),
      (''rebind-timer'', JInt (k_RebindTimer k)),
      (''subnet4'', json_slice subnet4_json (k_Subnet4 k)),
      (''loggers'', JArray (map logger_json (k_Loggers k)))])]"

section \<open>Rendering\<close>

text \<open>A slice that grows by \<^verbatim>\<open>append\<close> from nil: nil when nothing was appended.\<close>

definition grown :: "'a list \<Rightarrow> 'a list option" where
  "grown xs = (if xs = [] then None else Some xs)"

definition iface_device :: "site_config \<Rightarrow> (string, string) gomap" where
  "iface_device c = foldl (\<lambda>m f. AList.update (if_Name f) (if_Device f) m) [] (Interfaces c)"

definition kea_base :: "kea_config" where
  "kea_base =
     \<lparr>k_Interfaces = Some [],
      k_ControlSocket = \<lparr>cs_SocketType = ''unix'', cs_SocketName = ''/run/kea/kea4-ctrl-socket''\<rparr>,
      k_LeaseDatabase = \<lparr>ld_Type = ''memfile'', ld_Persist = True,
        ld_Name = ''/var/lib/kea/kea-leases4.csv'', ld_LFCInterval = 3600\<rparr>,
      k_ValidLifetime = 3600, k_RenewTimer = 1800, k_RebindTimer = 3150,
      k_Subnet4 = Some [],
      k_Loggers = [\<lparr>lg_Name = ''kea-dhcp4'', lg_Outputs = [''syslog''], lg_Severity = ''INFO''\<rparr>]\<rparr>"

definition render_subnet :: "(string, string) gomap \<Rightarrow> nat \<Rightarrow> dhcp_subnet \<Rightarrow> subnet4" where
  "render_subnet devs i d =
     \<lparr>s4_ID = int i + 1, s4_Subnet = ds_Subnet d,
      s4_Pools = [ds_PoolStart d @ '' - '' @ ds_PoolEnd d],
      s4_OptionData =
        (if ds_Gateway d \<noteq> [] then [\<lparr>od_Name = ''routers'', od_Data = ds_Gateway d\<rparr>] else []) @
        (if length (ds_DNSServers d) > 0
         then [\<lparr>od_Name = ''domain-name-servers'', od_Data = join_with '', '' (ds_DNSServers d)\<rparr>] else []),
      s4_ValidLifetime = (if ds_LeaseTime d > 0 then ds_LeaseTime d else 0),
      s4_Interface = (case map_of devs (ds_Interface d) of Some dev \<Rightarrow> dev | None \<Rightarrow> [])\<rparr>"

definition make_kea_config :: "site_config \<Rightarrow> dhcp_config \<Rightarrow> kea_config" where
  "make_kea_config c d =
     (let devs = iface_device c; defaultLeaseTime = 3600
      in kea_base
         \<lparr>k_Interfaces := grown (List.map_filter (\<lambda>s. map_of devs (ds_Interface s)) (dhcp_Subnets d)),
          k_ValidLifetime := defaultLeaseTime,
          k_RenewTimer := defaultLeaseTime div 2,
          k_RebindTimer := defaultLeaseTime * 7 div 8,
          k_Subnet4 := grown (range_concat (\<lambda>i s. [render_subnet devs i s]) 0 (dhcp_Subnets d))\<rparr>)"

definition kea_value :: "site_config \<Rightarrow> kea_config" where
  "kea_value c =
     (case DHCP c of
        None \<Rightarrow> kea_base
      | Some d \<Rightarrow> if \<not> dhcp_Enabled d then kea_base else make_kea_config c d)"

definition kea_Render :: "site_config \<Rightarrow> string + string" where
  "kea_Render c = Inr (json_text 0 (kea_json (kea_value c)) @ nl)"

section \<open>Lemmas\<close>

lemma iface_device_eq: "map_of (iface_device c) n = map_option if_Device (map_of (iface_by_name (Interfaces c)) n)"
proof -
  have "map_of (foldl (\<lambda>m f. AList.update (if_Name f) (if_Device f) m) [] fs) n =
      map_option if_Device (map_of (iface_by_name fs) n)" for fs
    by (induction fs rule: rev_induct) (simp_all add: iface_by_name_snoc)
  then show ?thesis by (simp add: iface_device_def)
qed

lemma range_concat_single: "range_concat (\<lambda>i x. [f i x]) k xs = map (\<lambda>i. f (k + i) (xs ! i)) [0..<length xs]"
proof (induction xs arbitrary: k)
  case (Cons x xs)
  have "map (\<lambda>i. f (k + i) ((x # xs) ! i)) [0..<Suc (length xs)] =
      f k x # map (\<lambda>i. f (k + Suc i) (xs ! i)) [0..<length xs]"
    by (simp only: upt_conv_Cons [of 0 "Suc (length xs)"] map_Suc_upt [symmetric]) simp
  with Cons show ?case by simp
qed simp

lemma range_concat_map: "range_concat f k (map g xs) = range_concat (\<lambda>i x. f i (g x)) k xs"
  by (induction xs arbitrary: k) simp_all

lemma map_filter_map: "List.map_filter f (map g xs) = List.map_filter (f \<circ> g) xs"
  by (induction xs) (auto simp: map_filter_simps split: option.splits)

lemma kea_value_enabled:
  "DHCP c = Some d \<Longrightarrow> dhcp_Enabled d \<Longrightarrow> kea_value c = make_kea_config c d"
  by (simp add: kea_value_def)

text \<open>The device that a scope names, or the empty string when it names none.\<close>

definition scope_device :: "site_config \<Rightarrow> dhcp_subnet \<Rightarrow> string" where
  "scope_device c s =
     (case map_of (iface_by_name (Interfaces c)) (ds_Interface s) of Some f \<Rightarrow> if_Device f | None \<Rightarrow> [])"

lemma scope_device_valid:
  assumes "Validate c = []" "DHCP c = Some d" "dhcp_Enabled d" "s \<in> set (dhcp_Subnets d)"
  shows "if ds_Interface s = [] then map_of (iface_by_name (Interfaces c)) (ds_Interface s) = None
    else \<exists>f \<in> set (Interfaces c). if_Name f = ds_Interface s \<and> if_Device f \<noteq> [] \<and>
      map_of (iface_by_name (Interfaces c)) (ds_Interface s) = Some f"
proof -
  have "valid_interfaces (Interfaces c)" and v: "valid_dhcp (interfaceNames c) (DHCP c)"
    using assms(1) by (simp_all add: Validate_def valid_iff)
  then have names: "\<forall>f \<in> set (Interfaces c). if_Name f \<noteq> [] \<and> if_Device f \<noteq> []"
    by (simp add: valid_interfaces_def valid_interface_def)
  from v assms(2-) have s: "ds_Interface s = [] \<or> ds_Interface s \<in> interfaceNames c"
    by (simp add: valid_dhcp_def valid_subnet_def)
  show ?thesis
  proof (cases "map_of (iface_by_name (Interfaces c)) (ds_Interface s)")
    case None
    with s show ?thesis by (auto simp: iface_by_name_None interfaceNames_def)
  next
    case (Some f)
    from iface_by_name_Some [OF Some] names Some show ?thesis by auto
  qed
qed

section \<open>Properties\<close>

text \<open>C17. For a valid configuration with DHCP enabled the server gets one subnet per scope, in
  order, numbered from 1, with the scope's network, pool and lease time; each is bound to the
  device of the interface that the scope names, and the server listens on exactly these devices.\<close>

theorem kea_scopes:
  assumes "Validate c = []" "DHCP c = Some d" "dhcp_Enabled d"
  shows "\<exists>subs. k_Subnet4 (kea_value c) = grown subs \<and>
    map s4_ID subs = map (\<lambda>i. int i + 1) [0..<length (dhcp_Subnets d)] \<and>
    map s4_Subnet subs = map ds_Subnet (dhcp_Subnets d) \<and>
    map s4_Pools subs = map (\<lambda>s. [ds_PoolStart s @ '' - '' @ ds_PoolEnd s]) (dhcp_Subnets d) \<and>
    map s4_ValidLifetime subs = map (\<lambda>s. if ds_LeaseTime s > 0 then ds_LeaseTime s else 0) (dhcp_Subnets d) \<and>
    map s4_Interface subs = map (scope_device c) (dhcp_Subnets d) \<and>
    (\<forall>s \<in> set (dhcp_Subnets d). ds_Interface s \<noteq> [] \<longrightarrow>
       (\<exists>f \<in> set (Interfaces c). if_Name f = ds_Interface s \<and> scope_device c s = if_Device f)) \<and>
    k_Interfaces (kea_value c) = grown (filter (\<lambda>x. x \<noteq> []) (map s4_Interface subs))"
proof -
  let ?subs = "range_concat (\<lambda>i s. [render_subnet (iface_device c) i s]) 0 (dhcp_Subnets d)"
  have dev: "(case map_of (iface_device c) (ds_Interface s) of Some dev \<Rightarrow> dev | None \<Rightarrow> []) = scope_device c s" for s
    by (simp add: iface_device_eq scope_device_def split: option.splits)
  have nth: "map (\<lambda>i. g (dhcp_Subnets d ! i)) [0..<length (dhcp_Subnets d)] = map g (dhcp_Subnets d)"
    for g :: "dhcp_subnet \<Rightarrow> 'a"
    using arg_cong [OF map_nth [of "dhcp_Subnets d"], of "map g"] by (simp add: comp_def)
  have scope: "List.map_filter (\<lambda>s. map_of (iface_device c) (ds_Interface s)) ss =
      filter (\<lambda>x. x \<noteq> []) (map (scope_device c) ss)" if "set ss \<subseteq> set (dhcp_Subnets d)" for ss
    using that
  proof (induction ss)
    case (Cons s ss)
    with scope_device_valid [OF assms, of s] show ?case
      by (cases "ds_Interface s = []") (auto simp: map_filter_simps iface_device_eq scope_device_def)
  qed (simp add: map_filter_simps)
  have "map s4_Interface ?subs = map (scope_device c) (dhcp_Subnets d)"
    "map s4_ID ?subs = map (\<lambda>i. int i + 1) [0..<length (dhcp_Subnets d)]"
    "map s4_Subnet ?subs = map ds_Subnet (dhcp_Subnets d)"
    "map s4_Pools ?subs = map (\<lambda>s. [ds_PoolStart s @ '' - '' @ ds_PoolEnd s]) (dhcp_Subnets d)"
    "map s4_ValidLifetime ?subs = map (\<lambda>s. if ds_LeaseTime s > 0 then ds_LeaseTime s else 0) (dhcp_Subnets d)"
    using nth [of "scope_device c"] nth [of ds_Subnet] nth [of "\<lambda>s. [ds_PoolStart s @ '' - '' @ ds_PoolEnd s]"]
      nth [of "\<lambda>s. if ds_LeaseTime s > 0 then ds_LeaseTime s else 0"]
    by (simp_all add: range_concat_single render_subnet_def dev comp_def)
  moreover have "k_Subnet4 (kea_value c) = grown ?subs"
    "k_Interfaces (kea_value c) = grown (filter (\<lambda>x. x \<noteq> []) (map (scope_device c) (dhcp_Subnets d)))"
    by (simp_all add: kea_value_enabled [OF assms(2,3)] make_kea_config_def Let_def scope)
  moreover have "\<exists>f \<in> set (Interfaces c). if_Name f = ds_Interface s \<and> scope_device c s = if_Device f"
    if "s \<in> set (dhcp_Subnets d)" "ds_Interface s \<noteq> []" for s
    using scope_device_valid [OF assms that(1)] that(2) by (auto simp: scope_device_def)
  ultimately show ?thesis by (intro exI [of _ ?subs]) (simp del: map_map)
qed

theorem kea_scopes_witness:
  "k_Interfaces (kea_value edge_site) = Some [''eth2''] \<and>
   (\<exists>subs. k_Subnet4 (kea_value edge_site) = grown subs \<and> map s4_ID subs = [1] \<and>
      map s4_Pools subs = [[''192.168.10.100 - 192.168.10.199'']] \<and> map s4_Interface subs = [''eth2''])"
proof -
  have h: "Validate edge_site = []" "DHCP edge_site = Some (the (DHCP edge_site))"
      "dhcp_Enabled (the (DHCP edge_site))"
    by code_simp+
  have d: "map (scope_device edge_site) (dhcp_Subnets (the (DHCP edge_site))) = [''eth2'']"
      "map (\<lambda>s. [ds_PoolStart s @ '' - '' @ ds_PoolEnd s]) (dhcp_Subnets (the (DHCP edge_site))) =
        [[''192.168.10.100 - 192.168.10.199'']]"
      "length (dhcp_Subnets (the (DHCP edge_site))) = 1"
    by code_simp+
  show ?thesis
    using kea_scopes [OF h] unfolding d by (auto simp: grown_def)
qed

text \<open>When no scope names an interface, which validation accepts, the server's interface list is
  JSON null, where the configuration without DHCP has an empty list.\<close>

theorem kea_null_interfaces:
  assumes "Validate c = []" "DHCP c = Some d" "dhcp_Enabled d" "\<forall>s \<in> set (dhcp_Subnets d). ds_Interface s = []"
  shows "\<exists>rest. kea_json (kea_value c) =
      JObject [(''Dhcp4'', JObject ((''interfaces-config'', JObject [(''interfaces'', JNull)]) # rest))]"
proof -
  have "List.map_filter (\<lambda>s. map_of (iface_device c) (ds_Interface s)) ss = []"
    if "set ss \<subseteq> set (dhcp_Subnets d)" for ss
    using that
  proof (induction ss)
    case (Cons s ss)
    with scope_device_valid [OF assms(1-3), of s] assms(4) show ?case
      by (auto simp: map_filter_simps iface_device_eq)
  qed (simp add: map_filter_simps)
  then have "k_Interfaces (kea_value c) = None"
    by (simp add: kea_value_enabled [OF assms(2,3)] make_kea_config_def Let_def grown_def)
  then show ?thesis by (simp add: kea_json_def json_slice_def)
qed

definition unbound_scope_site :: site_config where
  "unbound_scope_site = edge_site\<lparr>DHCP := map_option (\<lambda>d. d\<lparr>dhcp_Subnets :=
     map (\<lambda>s. s\<lparr>ds_Interface := []\<rparr>) (dhcp_Subnets d)\<rparr>) (DHCP edge_site)\<rparr>"

theorem kea_null_interfaces_witness:
  "\<exists>rest. kea_json (kea_value unbound_scope_site) =
     JObject [(''Dhcp4'', JObject ((''interfaces-config'', JObject [(''interfaces'', JNull)]) # rest))]"
  by (rule kea_null_interfaces [where d = "the (DHCP unbound_scope_site)"]) code_simp+

text \<open>The options of a scope never reach the DHCP server.\<close>

theorem kea_options_ignored:
  "kea_Render (c\<lparr>DHCP := Some (d\<lparr>dhcp_Subnets := map (\<lambda>s. s\<lparr>ds_Options := opts s\<rparr>) (dhcp_Subnets d)\<rparr>)\<rparr>) =
   kea_Render (c\<lparr>DHCP := Some d\<rparr>)"
proof -
  have "render_subnet devs i (s\<lparr>ds_Options := opts s\<rparr>) = render_subnet devs i s" for devs i s
    by (simp add: render_subnet_def)
  moreover have "iface_device (c\<lparr>DHCP := x\<rparr>) = iface_device c" for x
    by (simp add: iface_device_def)
  ultimately show ?thesis
    by (simp add: kea_Render_def kea_value_def make_kea_config_def Let_def range_concat_map map_filter_map comp_def)
qed

text \<open>The renew and rebind timers precede the default lease time in every rendered file, but a
  scope's own lease time does not move them: a scope with a lease of at most half an hour expires
  before its clients are told to renew.\<close>

theorem kea_timers:
  "k_RenewTimer (kea_value c) < k_RebindTimer (kea_value c) \<and>
   k_RebindTimer (kea_value c) < k_ValidLifetime (kea_value c) \<and>
   (s4_ValidLifetime (render_subnet devs i s) \<le> k_RenewTimer (kea_value c) \<longleftrightarrow> ds_LeaseTime s \<le> 1800)"
  by (auto simp: kea_value_def make_kea_config_def kea_base_def Let_def render_subnet_def split: option.splits)

end
