(* ===== verification/Health.thy ===== *)
theory Health
  imports GoOS Complex_Main
begin

text \<open>
  \<^verbatim>\<open>internal/health\<close>: the prober and the status file. The network (\<^verbatim>\<open>PingFunc\<close> or
  \<^verbatim>\<open>icmpPing\<close>) is a parameter: a probe step takes the ping's outcome and the clock readings
  as arguments. Each uplink has one goroutine, whose loop is a fold over the outcomes of its
  \<^verbatim>\<open>select\<close>; the prober's mutex makes every probe one step.
\<close>

section \<open>State\<close>

datatype status = StatusUnknown | StatusHealthy | StatusDegraded | StatusDown

definition status_String :: "status \<Rightarrow> string" where
  "status_String s =
     (case s of StatusHealthy \<Rightarrow> ''healthy'' | StatusDegraded \<Rightarrow> ''degraded'' | StatusDown \<Rightarrow> ''down''
      | _ \<Rightarrow> ''unknown'')"

text \<open>Times and durations are in nanoseconds; 0 is the zero \<^verbatim>\<open>time.Time\<close>.\<close>

record uplink_state =
  us_Name :: string
  us_Target :: string
  us_Status :: status
  us_ConsecutiveFails :: int
  us_LastProbeTime :: int
  us_LastSuccessTime :: int
  us_LastLatency :: int
  us_TotalProbes :: int
  us_TotalFailures :: int

record probe_config =
  pc_Name :: string
  pc_Target :: string
  pc_Interval :: int
  pc_Timeout :: int
  pc_Failures :: int

text \<open>\<open>pr_Notify\<close> tells whether \<^verbatim>\<open>OnStateChange\<close> is set. A map of pointers to states that
  no one else holds is a map of states.\<close>

record prober =
  pr_states :: "(string, uplink_state) gomap"
  pr_Notify :: bool

type_synonym ping_result = "string + int"

type_synonym callback = "string \<times> status \<times> status"

section \<open>Operations\<close>

definition NewProber :: prober where
  "NewProber = \<lparr>pr_states = [], pr_Notify = False\<rparr>"

definition initial_state :: "probe_config \<Rightarrow> uplink_state" where
  "initial_state cfg =
     \<lparr>us_Name = pc_Name cfg, us_Target = pc_Target cfg, us_Status = StatusUnknown, us_ConsecutiveFails = 0,
      us_LastProbeTime = 0, us_LastSuccessTime = 0, us_LastLatency = 0, us_TotalProbes = 0,
      us_TotalFailures = 0\<rparr>"

text \<open>The states that \<^verbatim>\<open>Start\<close> leaves; the goroutines that it starts are the loops below.\<close>

definition Start :: "probe_config list \<Rightarrow> prober \<Rightarrow> prober" where
  "Start cfgs p = p\<lparr>pr_states :=
     foldl (\<lambda>m cfg. AList.update (pc_Name cfg) (initial_state cfg) m) (pr_states p) cfgs\<rparr>"

definition GetState :: "prober \<Rightarrow> string \<Rightarrow> uplink_state option" where
  "GetState p name = map_of (pr_states p) name"

definition GetAllStates :: "(string list \<Rightarrow> string list) \<Rightarrow> prober \<Rightarrow> uplink_state list" where
  "GetAllStates it p = map (\<lambda>n. the (map_of (pr_states p) n)) (it (keys_of (pr_states p)))"

definition HealthyUplinks :: "(string list \<Rightarrow> string list) \<Rightarrow> prober \<Rightarrow> string list" where
  "HealthyUplinks it p =
     filter (\<lambda>n. us_Status (the (map_of (pr_states p) n)) = StatusHealthy) (it (keys_of (pr_states p)))"

text \<open>The defaults that a probe loop sets: one second, two seconds, three failures.\<close>

definition probe_defaults :: "probe_config \<Rightarrow> probe_config" where
  "probe_defaults cfg = cfg
     \<lparr>pc_Interval := if pc_Interval cfg \<le> 0 then 1000000000 else pc_Interval cfg,
      pc_Timeout := if pc_Timeout cfg \<le> 0 then 2 * 1000000000 else pc_Timeout cfg,
      pc_Failures := if pc_Failures cfg \<le> 0 then 3 else pc_Failures cfg\<rparr>"

definition count_failure :: "probe_config \<Rightarrow> uplink_state \<Rightarrow> uplink_state" where
  "count_failure cfg st =
     (let st = st\<lparr>us_TotalFailures := wrap64 (us_TotalFailures st + 1),
                  us_ConsecutiveFails := wrap64 (us_ConsecutiveFails st + 1)\<rparr>
      in if us_ConsecutiveFails st \<ge> pc_Failures cfg then st\<lparr>us_Status := StatusDown\<rparr>
         else if us_ConsecutiveFails st \<ge> 1 then st\<lparr>us_Status := StatusDegraded\<rparr>
         else st)"

definition count_success :: "int \<Rightarrow> int \<Rightarrow> uplink_state \<Rightarrow> uplink_state" where
  "count_success now latency st =
     st\<lparr>us_ConsecutiveFails := 0, us_LastSuccessTime := now, us_LastLatency := latency,
        us_Status := StatusHealthy\<rparr>"

definition count_probe :: "probe_config \<Rightarrow> int \<Rightarrow> int \<Rightarrow> ping_result \<Rightarrow> uplink_state \<Rightarrow> uplink_state" where
  "count_probe cfg now1 now2 r st =
     (let st = st\<lparr>us_LastProbeTime := now1, us_TotalProbes := wrap64 (us_TotalProbes st + 1)\<rparr>
      in case r of Inl _ \<Rightarrow> count_failure cfg st | Inr latency \<Rightarrow> count_success now2 latency st)"

text \<open>\<^verbatim>\<open>doPing\<close>: the new prober and the callback that runs after the unlock, if any.
  \<^const>\<open>None\<close> is the nil dereference for a name without a state.\<close>

definition doPing :: "probe_config \<Rightarrow> int \<Rightarrow> int \<Rightarrow> ping_result \<Rightarrow> prober \<Rightarrow> (prober \<times> callback option) option" where
  "doPing cfg now1 now2 r p =
     (case map_of (pr_states p) (pc_Name cfg) of
        None \<Rightarrow> None
      | Some st \<Rightarrow>
          let st' = count_probe cfg now1 now2 r st in
          Some (p\<lparr>pr_states := AList.update (pc_Name cfg) st' (pr_states p)\<rparr>,
            if us_Status st \<noteq> us_Status st' \<and> pr_Notify p
            then Some (pc_Name cfg, us_Status st, us_Status st') else None))"

text \<open>The outcomes of the \<^verbatim>\<open>select\<close> in the probe loop: a tick, with the clock and the ping that
  follows it, or the end of the context.\<close>

datatype loop_event = Tick int int ping_result | CtxDone

fun probe_loop :: "probe_config \<Rightarrow> loop_event list \<Rightarrow> prober \<Rightarrow> (prober \<times> callback list) option" where
  "probe_loop cfg [] p = Some (p, [])"
| "probe_loop cfg (CtxDone # es) p = Some (p, [])"
| "probe_loop cfg (Tick now1 now2 r # es) p =
     (case doPing cfg now1 now2 r p of
        None \<Rightarrow> None
      | Some (p', cb) \<Rightarrow>
          (case probe_loop cfg es p' of
             None \<Rightarrow> None
           | Some (p'', cbs) \<Rightarrow> Some (p'', (case cb of Some x \<Rightarrow> x # cbs | None \<Rightarrow> cbs))))"

definition probeLoop :: "probe_config \<Rightarrow> loop_event list \<Rightarrow> prober \<Rightarrow> (prober \<times> callback list) option" where
  "probeLoop cfg es p = probe_loop (probe_defaults cfg) es p"

section \<open>The status file\<close>

text \<open>The latency in milliseconds is the exact quotient; a float64 rounds it.\<close>

record uplink_status =
  ul_Name :: string
  ul_Target :: string
  ul_Status :: string
  ul_ConsecutiveFails :: int
  ul_LastProbeTime :: int
  ul_LastSuccessTime :: int
  ul_LastLatencyMs :: rat
  ul_TotalProbes :: int
  ul_TotalFailures :: int

record status_report =
  sr_Timestamp :: int
  sr_Uplinks :: "uplink_status list"

definition StatusFilePath :: string where
  "StatusFilePath = ''/run/warp/health.json''"

definition uplink_report :: "uplink_state \<Rightarrow> uplink_status" where
  "uplink_report s =
     \<lparr>ul_Name = us_Name s, ul_Target = us_Target s, ul_Status = status_String (us_Status s),
      ul_ConsecutiveFails = us_ConsecutiveFails s, ul_LastProbeTime = us_LastProbeTime s,
      ul_LastSuccessTime = us_LastSuccessTime s, ul_LastLatencyMs = of_int (us_LastLatency s) / 1000000,
      ul_TotalProbes = us_TotalProbes s, ul_TotalFailures = us_TotalFailures s\<rparr>"

datatype status_error = EncodeError string | WriteError errno | ReadError errno | DecodeError string

text \<open>\<open>encode\<close> and \<open>decode\<close> stand for \<^verbatim>\<open>encoding/json\<close> on the report.\<close>

definition WriteStatusFile :: "(status_report \<Rightarrow> string + bytes) \<Rightarrow> (string list \<Rightarrow> string list) \<Rightarrow> int
    \<Rightarrow> string \<Rightarrow> prober \<Rightarrow> os \<Rightarrow> status_error option \<times> os" where
  "WriteStatusFile encode it now path p s =
     (case encode \<lparr>sr_Timestamp = now, sr_Uplinks = map uplink_report (GetAllStates it p)\<rparr> of
        Inl e \<Rightarrow> (Some (EncodeError e), s)
      | Inr data \<Rightarrow>
          (case os_WriteFile path data s of
             (Some e, s') \<Rightarrow> (Some (WriteError e), s') | (None, s') \<Rightarrow> (None, s')))"

definition ReadStatusFile :: "(bytes \<Rightarrow> string + status_report) \<Rightarrow> string \<Rightarrow> os
    \<Rightarrow> (status_error + status_report) \<times> os" where
  "ReadStatusFile decode path s =
     (case os_ReadFile path s of
        (Inl e, s') \<Rightarrow> (Inl (ReadError e), s')
      | (Inr data, s') \<Rightarrow>
          (case decode data of Inl e \<Rightarrow> (Inl (DecodeError e), s') | Inr r \<Rightarrow> (Inr r, s')))"

section \<open>The status as a function of the probe history\<close>

text \<open>The results so far, oldest first, \<^const>\<open>True\<close> for a reply.\<close>

definition failures_at_end :: "bool list \<Rightarrow> nat" where
  "failures_at_end rs = length (takeWhile Not (rev rs))"

definition status_of :: "int \<Rightarrow> bool list \<Rightarrow> status" where
  "status_of threshold rs =
     (if rs = [] then StatusUnknown
      else if failures_at_end rs = 0 then StatusHealthy
      else if int (failures_at_end rs) \<ge> threshold then StatusDown
      else StatusDegraded)"

fun tick_results :: "loop_event list \<Rightarrow> bool list" where
  "tick_results [] = []"
| "tick_results (CtxDone # es) = []"
| "tick_results (Tick now1 now2 r # es) = (case r of Inl _ \<Rightarrow> False | Inr _ \<Rightarrow> True) # tick_results es"

text \<open>The callbacks that a sequence of statuses calls for: one per change.\<close>

fun status_changes :: "string \<Rightarrow> status \<Rightarrow> status list \<Rightarrow> callback list" where
  "status_changes n old [] = []"
| "status_changes n old (s # ss) = (if s \<noteq> old then [(n, old, s)] else []) @ status_changes n s ss"

definition status_run :: "int \<Rightarrow> bool list \<Rightarrow> bool list \<Rightarrow> status list" where
  "status_run threshold past rs = map (\<lambda>k. status_of threshold (past @ take (Suc k) rs)) [0..<length rs]"

definition follows :: "int \<Rightarrow> bool list \<Rightarrow> uplink_state \<Rightarrow> bool" where
  "follows threshold rs st \<longleftrightarrow>
     us_Status st = status_of threshold rs \<and> us_ConsecutiveFails st = int (failures_at_end rs) \<and>
     us_TotalProbes st = int (length rs) \<and> us_TotalFailures st = int (count_list rs False)"

lemma failures_at_end_simps [simp]:
  "failures_at_end [] = 0" "failures_at_end (rs @ [True]) = 0"
  "failures_at_end (rs @ [False]) = Suc (failures_at_end rs)"
  by (simp_all add: failures_at_end_def)

lemma failures_at_end_le: "failures_at_end rs \<le> count_list rs False" "count_list rs False \<le> length rs"
proof -
  show "failures_at_end rs \<le> count_list rs False"
  proof (induction rs rule: rev_induct)
    case (snoc r rs)
    then show ?case by (cases r) simp_all
  qed simp
qed (rule count_le_length)

lemma wrap64_Suc: "n < 2 ^ 63 - 1 \<Longrightarrow> wrap64 (int n + 1) = int n + 1"
  by (rule wrap64_id) (simp add: int64_range_def)

lemma follows_initial: "follows threshold [] (initial_state cfg)"
  by (simp add: follows_def initial_state_def status_of_def)

lemma follows_probe:
  assumes "follows (pc_Failures cfg) rs st" "pc_Failures cfg > 0" "length rs < 2 ^ 63 - 1"
  shows "follows (pc_Failures cfg) (rs @ [case r of Inl _ \<Rightarrow> False | Inr _ \<Rightarrow> True]) (count_probe cfg now1 now2 r st)"
proof -
  have n: "failures_at_end rs < 2 ^ 63 - 1" "count_list rs False < 2 ^ 63 - 1"
    using failures_at_end_le [of rs] assms(3) by linarith+
  note wraps = wrap64_Suc [OF assms(3)] wrap64_Suc [OF n(1)] wrap64_Suc [OF n(2)]
  show ?thesis
    using assms(1,2)
    by (cases r)
      (auto simp: follows_def count_probe_def count_failure_def count_success_def Let_def status_of_def wraps)
qed

lemma doPing_some:
  assumes "map_of (pr_states p) (pc_Name cfg) = Some st"
  shows "\<exists>p' cb. doPing cfg now1 now2 r p = Some (p', cb) \<and> pr_Notify p' = pr_Notify p \<and>
    map_of (pr_states p') = (map_of (pr_states p))(pc_Name cfg \<mapsto> count_probe cfg now1 now2 r st) \<and>
    cb = (if us_Status st \<noteq> us_Status (count_probe cfg now1 now2 r st) \<and> pr_Notify p
      then Some (pc_Name cfg, us_Status st, us_Status (count_probe cfg now1 now2 r st)) else None)"
  using assms by (simp add: doPing_def Let_def)

lemma status_run_Cons:
  "status_run threshold past (r # rs) =
     status_of threshold (past @ [r]) # status_run threshold (past @ [r]) rs"
  unfolding status_run_def
  by (simp only: length_Cons upt_conv_Cons [of 0 "Suc (length rs)"] map_Suc_upt [symmetric]) simp

lemma probe_loop_follows:
  assumes "map_of (pr_states p) (pc_Name cfg) = Some st" "follows (pc_Failures cfg) rs st"
    "pc_Failures cfg > 0" "length rs + length es < 2 ^ 63"
  shows "\<exists>p' cbs st'. probe_loop cfg es p = Some (p', cbs) \<and>
    map_of (pr_states p') = (map_of (pr_states p))(pc_Name cfg \<mapsto> st') \<and>
    follows (pc_Failures cfg) (rs @ tick_results es) st' \<and>
    cbs = (if pr_Notify p
      then status_changes (pc_Name cfg) (us_Status st) (status_run (pc_Failures cfg) rs (tick_results es)) else [])"
  using assms
proof (induction cfg es p arbitrary: rs st rule: probe_loop.induct)
  case (1 cfg p)
  from 1(1,2) show ?case by (simp add: status_run_def) (rule exI [of _ st], simp add: fun_eq_iff)
next
  case (2 cfg es p)
  from 2(1,2) show ?case by (simp add: status_run_def) (rule exI [of _ st], simp add: fun_eq_iff)
next
  case (3 cfg now1 now2 r es p)
  let ?st = "count_probe cfg now1 now2 r st" and ?ok = "case r of Inl _ \<Rightarrow> False | Inr _ \<Rightarrow> True"
  from doPing_some [OF "3.prems"(1), of now1 now2 r] obtain p' cb where
    ping: "doPing cfg now1 now2 r p = Some (p', cb)" "pr_Notify p' = pr_Notify p"
      "map_of (pr_states p') = (map_of (pr_states p))(pc_Name cfg \<mapsto> ?st)"
      "cb = (if us_Status st \<noteq> us_Status ?st \<and> pr_Notify p
        then Some (pc_Name cfg, us_Status st, us_Status ?st) else None)" by blast
  have f: "follows (pc_Failures cfg) (rs @ [?ok]) ?st"
    using "3.prems" by (intro follows_probe) auto
  have "\<exists>p'' cbs st'. probe_loop cfg es p' = Some (p'', cbs) \<and>
      map_of (pr_states p'') = (map_of (pr_states p'))(pc_Name cfg \<mapsto> st') \<and>
      follows (pc_Failures cfg) ((rs @ [?ok]) @ tick_results es) st' \<and>
      cbs = (if pr_Notify p' then status_changes (pc_Name cfg) (us_Status ?st)
        (status_run (pc_Failures cfg) (rs @ [?ok]) (tick_results es)) else [])"
    by (rule "3.IH" [OF ping(1) refl]) (use "3.prems" ping f in auto)
  then obtain p'' cbs st' where rest: "probe_loop cfg es p' = Some (p'', cbs)"
      "map_of (pr_states p'') = (map_of (pr_states p))(pc_Name cfg \<mapsto> st')"
      "follows (pc_Failures cfg) (rs @ ?ok # tick_results es) st'"
      "cbs = (if pr_Notify p then status_changes (pc_Name cfg) (us_Status ?st)
        (status_run (pc_Failures cfg) (rs @ [?ok]) (tick_results es)) else [])"
    by (auto simp: ping(2,3))
  moreover have "us_Status ?st = status_of (pc_Failures cfg) (rs @ [?ok])"
    using f by (simp add: follows_def)
  ultimately show ?case
    by (intro exI [of _ p''] exI [of _ "case cb of Some x \<Rightarrow> x # cbs | None \<Rightarrow> cbs"] exI [of _ st'])
      (simp add: ping(1,4) status_run_Cons)
qed

section \<open>Properties\<close>

text \<open>C9. After any run of a probe loop the uplink's status is the one its probe history calls for:
  unknown before the first probe, healthy after a reply, down after at least the configured number of
  consecutive failures (three if none is configured), degraded after fewer; the counters count; the
  other uplinks are untouched; and the callbacks are exactly the changes of status, in order, each
  starting from the status the previous one ended in. The loop never dereferences a nil state.\<close>

theorem probe_status:
  assumes "map_of (pr_states p) (pc_Name cfg) = Some (initial_state cfg)" "length es < 2 ^ 63"
  defines "threshold \<equiv> if pc_Failures cfg \<le> 0 then 3 else pc_Failures cfg"
  shows "\<exists>p' cbs st. probeLoop cfg es p = Some (p', cbs) \<and>
    map_of (pr_states p') = (map_of (pr_states p))(pc_Name cfg \<mapsto> st) \<and>
    us_Status st = status_of threshold (tick_results es) \<and>
    us_ConsecutiveFails st = int (failures_at_end (tick_results es)) \<and>
    us_TotalProbes st = int (length (tick_results es)) \<and>
    us_TotalFailures st = int (count_list (tick_results es) False) \<and>
    cbs = (if pr_Notify p
      then status_changes (pc_Name cfg) StatusUnknown (status_run threshold [] (tick_results es)) else [])"
proof -
  let ?cfg = "probe_defaults cfg"
  have d: "pc_Name ?cfg = pc_Name cfg" "pc_Failures ?cfg = threshold" "pc_Failures ?cfg > 0"
    by (auto simp: probe_defaults_def threshold_def)
  have "follows (pc_Failures ?cfg) [] (initial_state cfg)"
    by (rule follows_initial)
  with probe_loop_follows [of p ?cfg "initial_state cfg" "[]" es] assms(1,2) d
  obtain p' cbs st where "probe_loop ?cfg es p = Some (p', cbs)"
    "map_of (pr_states p') = (map_of (pr_states p))(pc_Name cfg \<mapsto> st)"
    "follows threshold (tick_results es) st"
    "cbs = (if pr_Notify p then status_changes (pc_Name cfg) (us_Status (initial_state cfg))
      (status_run threshold [] (tick_results es)) else [])"
    by auto
  then show ?thesis
    unfolding probeLoop_def
    by (intro exI [of _ p'] exI [of _ cbs] exI [of _ st]) (simp add: follows_def initial_state_def)
qed

text \<open>An uplink that fails three times and then answers.\<close>

definition sample_probe :: probe_config where
  "sample_probe = \<lparr>pc_Name = ''wan1'', pc_Target = ''10.0.0.1'', pc_Interval = 0, pc_Timeout = 0, pc_Failures = 0\<rparr>"

definition sample_events :: "loop_event list" where
  "sample_events = [Tick 1 1 (Inl ''timeout''), Tick 2 2 (Inl ''timeout''), Tick 3 3 (Inl ''timeout''),
     Tick 4 5 (Inr 7), CtxDone]"

theorem probe_status_witness:
  "\<exists>p' st. probeLoop sample_probe sample_events (Start [sample_probe] (NewProber\<lparr>pr_Notify := True\<rparr>)) =
     Some (p', [(''wan1'', StatusUnknown, StatusDegraded), (''wan1'', StatusDegraded, StatusDown),
                (''wan1'', StatusDown, StatusHealthy)]) \<and>
     map_of (pr_states p') ''wan1'' = Some st \<and> us_Status st = StatusHealthy \<and> us_TotalFailures st = 3"
proof -
  let ?p = "Start [sample_probe] (NewProber\<lparr>pr_Notify := True\<rparr>)"
  have s: "map_of (pr_states ?p) (pc_Name sample_probe) = Some (initial_state sample_probe)"
    by (simp add: Start_def NewProber_def)
  have l: "length sample_events < 2 ^ 63" by (simp add: sample_events_def)
  have e: "tick_results sample_events = [False, False, False, True]" "pc_Failures sample_probe \<le> 0"
      "pc_Name sample_probe = ''wan1''"
    by (simp_all add: sample_events_def sample_probe_def)
  have c: "status_changes ''wan1'' StatusUnknown (status_run 3 [] [False, False, False, True]) =
      [(''wan1'', StatusUnknown, StatusDegraded), (''wan1'', StatusDegraded, StatusDown),
       (''wan1'', StatusDown, StatusHealthy)]"
    "status_of 3 [False, False, False, True] = StatusHealthy" "pr_Notify ?p"
    "count_list [False, False, False, True] False = 3"
    by code_simp+
  show ?thesis
    using probe_status [OF s l] by (auto simp: e c)
qed

text \<open>What the daemon writes is what the command line reads: when the two calls succeed, reading
  the status file gives back the report, with one entry per uplink.\<close>

theorem status_file_roundtrip:
  assumes json: "\<And>r data. encode r = Inr data \<Longrightarrow> decode data = Inr r"
    and encoded: "encode \<lparr>sr_Timestamp = now, sr_Uplinks = map uplink_report (GetAllStates it p)\<rparr> = Inr data"
    and calls: "faults s (tick s) = None" "faults s (Suc (tick s)) = None"
    and target: "is_dir (nodes s) (path_dir path)" "\<not> is_dir (nodes s) path" "resolve (nodes s) path = path"
    and order: "some_order it"
  shows "\<exists>s' s'' r. WriteStatusFile encode it now path p s = (None, s') \<and>
    ReadStatusFile decode path s' = (Inr r, s'') \<and> sr_Timestamp r = now \<and>
    mset (sr_Uplinks r) = mset (map (\<lambda>n. uplink_report (the (GetState p n))) (keys_of (pr_states p)))"
proof -
  let ?r = "\<lparr>sr_Timestamp = now, sr_Uplinks = map uplink_report (GetAllStates it p)\<rparr>"
  let ?s = "end_call (AList.update path (File data) (nodes s)) s"
  have w: "WriteStatusFile encode it now path p s = (None, ?s)"
    using calls(1) target encoded by (simp add: WriteStatusFile_def os_WriteFile_def call_fate_def Let_def)
  have "resolve (AList.update path (File data) (nodes s)) path = path"
    by (simp add: resolve_def)
  with calls(2) json [OF encoded]
  have "ReadStatusFile decode path ?s = (Inr ?r, end_call (nodes ?s) ?s)"
    by (simp add: ReadStatusFile_def os_ReadFile_def call_fate_def end_call_def Let_def)
  moreover have "mset (sr_Uplinks ?r) = mset (map (\<lambda>n. uplink_report (the (GetState p n))) (keys_of (pr_states p)))"
  proof -
    have "mset (it (keys_of (pr_states p))) = mset (keys_of (pr_states p))"
      using order by (simp add: some_order_def)
    then show ?thesis by (simp add: GetAllStates_def GetState_def comp_def)
  qed
  ultimately show ?thesis using w by (metis status_report.select_convs(1))
qed

text \<open>A toy encoding of the one report that the example writes.\<close>

definition sample_os :: os where
  "sample_os = \<lparr>nodes = [(''/run/warp'', Dir)], faults = (\<lambda>_. None), tick = 0, seen = [], cmds = [],
     answer = (\<lambda>_. (True, []))\<rparr>"

theorem status_file_roundtrip_witness:
  "\<exists>encode decode s' s'' r.
     WriteStatusFile encode id 7 StatusFilePath (Start [sample_probe] NewProber) sample_os = (None, s') \<and>
     ReadStatusFile decode StatusFilePath s' = (Inr r, s'') \<and> sr_Timestamp r = 7"
proof -
  let ?p = "Start [sample_probe] NewProber"
  let ?r = "\<lparr>sr_Timestamp = 7, sr_Uplinks = map uplink_report (GetAllStates id ?p)\<rparr>"
  let ?enc = "\<lambda>r. if r = ?r then Inr ''{}'' else Inl ''other''"
  let ?dec = "\<lambda>d. if d = ''{}'' then Inr ?r else Inl ''other''"
  have "\<exists>s' s'' r. WriteStatusFile ?enc id 7 StatusFilePath ?p sample_os = (None, s') \<and>
    ReadStatusFile ?dec StatusFilePath s' = (Inr r, s'') \<and> sr_Timestamp r = 7 \<and>
    mset (sr_Uplinks r) = mset (map (\<lambda>n. uplink_report (the (GetState ?p n))) (keys_of (pr_states ?p)))"
  proof (rule status_file_roundtrip [where data = "''{}''"])
    show "is_dir (nodes sample_os) (path_dir StatusFilePath)" by code_simp
    show "\<not> is_dir (nodes sample_os) StatusFilePath" by code_simp
    show "resolve (nodes sample_os) StatusFilePath = StatusFilePath" by code_simp
  qed (auto simp: sample_os_def some_order_def split: if_splits)
  then show ?thesis by blast
qed

end
