(* ===== verification/Lifecycle.thy ===== *)
theory Lifecycle
  imports Health
begin

text \<open>
  The goroutines of \<^verbatim>\<open>internal/health/probe.go\<close>: \<^verbatim>\<open>Start\<close> makes a context and one probe loop per
  uplink under it, \<^verbatim>\<open>Stop\<close> cancels the context of the latest \<^verbatim>\<open>Start\<close> and waits for all loops.
  What a loop does to its uplink's state is \<^const>\<open>doPing\<close>; here only its life counts.
\<close>

section \<open>State\<close>

datatype loop_state = Waiting | Probing | Ended

text \<open>\<open>lf_Ctxs\<close> tells of every context whether it is cancelled, \<open>lf_Cancel\<close> is the one that \<^verbatim>\<open>p.cancel\<close>
  cancels. The counter of the wait group is the number of loops that have not ended.\<close>

record life =
  lf_Ctxs :: "bool list"
  lf_Cancel :: "nat option"
  lf_Loops :: "(nat \<times> loop_state) list"

definition new_life :: life where
  "new_life = \<lparr>lf_Ctxs = [], lf_Cancel = None, lf_Loops = []\<rparr>"

section \<open>Operations\<close>

definition start_loops :: "'a list \<Rightarrow> life \<Rightarrow> life" where
  "start_loops configs l =
     (let ctx = length (lf_Ctxs l)
      in l\<lparr>lf_Ctxs := lf_Ctxs l @ [False], lf_Cancel := Some ctx,
           lf_Loops := lf_Loops l @ map (\<lambda>_. (ctx, Waiting)) configs\<rparr>)"

definition stop_cancel :: "life \<Rightarrow> life" where
  "stop_cancel l = (case lf_Cancel l of None \<Rightarrow> l | Some ctx \<Rightarrow> l\<lparr>lf_Ctxs := (lf_Ctxs l)[ctx := True]\<rparr>)"

definition wait_group :: "life \<Rightarrow> nat" where
  "wait_group l = length (filter (\<lambda>x. snd x \<noteq> Ended) (lf_Loops l))"

text \<open>The steps of the loops. When the ticker and the context are both ready, \<^verbatim>\<open>select\<close> takes either.\<close>

inductive loop_step :: "life \<Rightarrow> life \<Rightarrow> bool" where
  tick: "i < length (lf_Loops l) \<Longrightarrow> lf_Loops l ! i = (c, Waiting) \<Longrightarrow>
    loop_step l (l\<lparr>lf_Loops := (lf_Loops l)[i := (c, Probing)]\<rparr>)"
| probed: "i < length (lf_Loops l) \<Longrightarrow> lf_Loops l ! i = (c, Probing) \<Longrightarrow>
    loop_step l (l\<lparr>lf_Loops := (lf_Loops l)[i := (c, Waiting)]\<rparr>)"
| cancelled: "i < length (lf_Loops l) \<Longrightarrow> lf_Loops l ! i = (c, Waiting) \<Longrightarrow> lf_Ctxs l ! c \<Longrightarrow>
    loop_step l (l\<lparr>lf_Loops := (lf_Loops l)[i := (c, Ended)]\<rparr>)"

section \<open>Cancelled loops end\<close>

definition all_cancelled :: "life \<Rightarrow> bool" where
  "all_cancelled l \<longleftrightarrow> (\<forall>x \<in> set (lf_Loops l). lf_Ctxs l ! fst x)"

lemma wait_group_zero: "wait_group l = 0 \<longleftrightarrow> (\<forall>x \<in> set (lf_Loops l). snd x = Ended)"
  by (simp add: wait_group_def filter_empty_conv)

lemma loop_step_ctxs: "loop_step l l' \<Longrightarrow> lf_Ctxs l' = lf_Ctxs l \<and> lf_Cancel l' = lf_Cancel l \<and>
    map fst (lf_Loops l') = map fst (lf_Loops l)"
  by (induction rule: loop_step.induct) (simp_all add: map_update list_update_id nth_map [symmetric] del: nth_map,
      simp_all add: list_update_same_conv)

lemma loop_steps_ctxs: "loop_step\<^sup>*\<^sup>* l l' \<Longrightarrow> lf_Ctxs l' = lf_Ctxs l \<and> lf_Cancel l' = lf_Cancel l \<and>
    map fst (lf_Loops l') = map fst (lf_Loops l)"
  by (induction rule: rtranclp_induct) (auto dest: loop_step_ctxs)

lemma all_cancelled_ctxs: "all_cancelled l \<longleftrightarrow> (\<forall>c \<in> set (map fst (lf_Loops l)). lf_Ctxs l ! c)"
  by (simp add: all_cancelled_def)

fun loop_work :: "loop_state \<Rightarrow> nat" where
  "loop_work Waiting = 1"
| "loop_work Probing = 2"
| "loop_work Ended = 0"

definition work :: "life \<Rightarrow> nat" where
  "work l = sum_list (map (loop_work \<circ> snd) (lf_Loops l))"

lemma work_update:
  assumes "i < length (lf_Loops l)" "loop_work s < loop_work (snd (lf_Loops l ! i))"
  shows "work (l\<lparr>lf_Loops := (lf_Loops l)[i := (c, s)]\<rparr>) < work l"
proof -
  have "work (l\<lparr>lf_Loops := (lf_Loops l)[i := (c, s)]\<rparr>) = work l + loop_work s - loop_work (snd (lf_Loops l ! i))"
    using assms(1) by (simp add: work_def map_update sum_list_update)
  moreover have "loop_work (snd (lf_Loops l ! i)) \<le> work l"
    unfolding work_def by (rule member_le_sum_list) (use assms(1) in auto)
  ultimately show ?thesis using assms(2) by simp
qed

lemma work_bound: "work l \<le> 2 * length (lf_Loops l)"
proof -
  have "sum_list (map (loop_work \<circ> snd) xs) \<le> 2 * length xs" for xs :: "(nat \<times> loop_state) list"
  proof (induction xs)
    case (Cons x xs)
    have "loop_work (snd x) \<le> 2" by (cases "snd x") simp_all
    with Cons show ?case by simp
  qed simp
  then show ?thesis by (simp add: work_def)
qed

lemma loop_progress:
  assumes "all_cancelled l" "wait_group l \<noteq> 0"
  shows "\<exists>l'. loop_step l l' \<and> work l' < work l"
proof -
  from assms(2) obtain i where i: "i < length (lf_Loops l)" "snd (lf_Loops l ! i) \<noteq> Ended"
    by (auto simp: wait_group_zero in_set_conv_nth)
  obtain c st where st: "lf_Loops l ! i = (c, st)" by fastforce
  have c: "lf_Ctxs l ! c" using assms(1) nth_mem [OF i(1)] st by (metis all_cancelled_def fst_conv)
  from i(2) st consider "st = Waiting" | "st = Probing" by (cases st) auto
  then show ?thesis
  proof cases
    case 1
    with loop_step.cancelled [OF i(1) _ c] work_update [OF i(1), of Ended c] st show ?thesis by auto
  next
    case 2
    with loop_step.probed [OF i(1)] work_update [OF i(1), of Waiting c] st show ?thesis by auto
  qed
qed

lemma cancelled_loops_end:
  "all_cancelled l \<Longrightarrow> \<exists>k l'. k \<le> work l \<and> (loop_step ^^ k) l l' \<and> wait_group l' = 0"
proof (induction "work l" arbitrary: l rule: less_induct)
  case less
  show ?case
  proof (cases "wait_group l = 0")
    case False
    from loop_progress [OF less.prems False] obtain l1 where l1: "loop_step l l1" "work l1 < work l" by blast
    have "all_cancelled l1" using less.prems loop_step_ctxs [OF l1(1)] by (simp add: all_cancelled_ctxs)
    from less.hyps [OF l1(2) this] obtain k l' where k: "k \<le> work l1" "(loop_step ^^ k) l1 l'" "wait_group l' = 0" by blast
    show ?thesis
    proof (intro exI conjI)
      show "Suc k \<le> work l" using k(1) l1(2) by simp
      show "(loop_step ^^ Suc k) l l'" by (rule relpowp_Suc_I2 [OF l1(1) k(2)])
    qed (rule k(3))
  qed (intro exI [of _ 0], auto)
qed

lemma ended_loops_stay: "wait_group l = 0 \<Longrightarrow> \<not> loop_step l l'"
proof
  assume "wait_group l = 0" "loop_step l l'"
  from this(2,1) show False by cases (auto simp: wait_group_zero dest!: nth_mem)
qed

section \<open>Properties\<close>

text \<open>C38. \<^verbatim>\<open>Stop\<close> can always return: whatever its probe loops were doing when the context was cancelled and
  have done since, they can all end, in at most two steps each, and once they have no probe runs any
  more. The prober was started once.\<close>

theorem stop_returns:
  assumes "loop_step\<^sup>*\<^sup>* (start_loops configs new_life) l" "loop_step\<^sup>*\<^sup>* (stop_cancel l) l'"
  shows "\<exists>k l''. k \<le> 2 * length configs \<and> (loop_step ^^ k) l' l'' \<and> wait_group l'' = 0 \<and> (\<forall>m. \<not> loop_step l'' m)"
proof -
  have l: "lf_Ctxs l = [False]" "lf_Cancel l = Some 0" "map fst (lf_Loops l) = map (\<lambda>_. 0) configs"
    using loop_steps_ctxs [OF assms(1)] by (simp_all add: start_loops_def new_life_def Let_def comp_def)
  then have l': "lf_Ctxs l' = [True]" "map fst (lf_Loops l') = map (\<lambda>_. 0) configs"
    using loop_steps_ctxs [OF assms(2)] by (simp_all add: stop_cancel_def)
  then have "all_cancelled l'" by (auto simp: all_cancelled_ctxs)
  moreover have "length (lf_Loops l') = length configs" using l'(2) by (metis length_map)
  ultimately show ?thesis
    using cancelled_loops_end [of l'] work_bound [of l'] ended_loops_stay by (metis le_trans)
qed

theorem stop_returns_witness:
  "\<exists>l k l''. loop_step (start_loops [''wan1'', ''wan2''] new_life) l \<and> lf_Loops l = [(0, Waiting), (0, Probing)] \<and>
     k \<le> 4 \<and> (loop_step ^^ k) (stop_cancel l) l'' \<and> wait_group l'' = 0"
proof -
  let ?start = "start_loops [''wan1'', ''wan2''] new_life"
  let ?l = "?start\<lparr>lf_Loops := (lf_Loops ?start)[1 := (0, Probing)]\<rparr>"
  have step: "loop_step ?start ?l"
    by (intro loop_step.tick) (simp_all add: start_loops_def new_life_def)
  then have "loop_step\<^sup>*\<^sup>* ?start ?l" by (rule r_into_rtranclp)
  from stop_returns [OF this rtranclp.rtrancl_refl] step show ?thesis
    by (intro exI [of _ ?l]) (auto simp: start_loops_def new_life_def)
qed

text \<open>A second \<^verbatim>\<open>Start\<close> replaces the cancel function of the first: \<^verbatim>\<open>Stop\<close> then waits for ever for loops whose
  context nothing cancels. The daemon starts its prober once.\<close>

lemma second_start_blocks_stop:
  assumes "loop_step\<^sup>*\<^sup>* (stop_cancel (start_loops configs2 (start_loops configs1 new_life))) l"
  shows "wait_group l \<ge> length configs1"
proof -
  let ?first = "\<lambda>l. lf_Ctxs l = [False, True] \<and> length configs1 \<le> length (lf_Loops l) \<and>
    (\<forall>i < length configs1. fst (lf_Loops l ! i) = 0 \<and> snd (lf_Loops l ! i) \<noteq> Ended)"
  have "?first l"
    using assms
  proof (induction rule: rtranclp_induct)
    case base
    show ?case by (simp add: stop_cancel_def start_loops_def new_life_def Let_def nth_append)
  next
    case (step l l')
    have first: "fst (lf_Loops l ! i) = 0 \<and> snd (lf_Loops l ! i) \<noteq> Ended" if "i < length configs1" for i
      using step.IH that by blast
    have keep: "?first (l\<lparr>lf_Loops := (lf_Loops l)[i := (c, st)]\<rparr>)"
      if "lf_Loops l ! i = (c, st')" "st \<noteq> Ended \<or> \<not> i < length configs1" for i c st st'
    proof -
      have "fst ((lf_Loops l)[i := (c, st)] ! j) = 0 \<and> snd ((lf_Loops l)[i := (c, st)] ! j) \<noteq> Ended" if "j < length configs1" for j
        using that \<open>lf_Loops l ! i = (c, st')\<close> \<open>st \<noteq> Ended \<or> _\<close> first [of i] first [of j] step.IH
        by (cases "j = i") auto
      with step.IH show ?thesis by simp
    qed
    have ctx: "\<not> lf_Ctxs l ! 0" using step.IH by simp
    from step.hyps(2) show ?case
    proof cases
      case (cancelled i c)
      with ctx first [of i] have "\<not> i < length configs1" by auto
      with keep [OF cancelled(3), of Ended] cancelled(1) show ?thesis by simp
    next
      case (tick i c)
      with keep [OF tick(3), of Probing] show ?thesis by simp
    next
      case (probed i c)
      with keep [OF probed(3), of Waiting] show ?thesis by simp
    qed
  qed
  then have "length configs1 \<le> length (filter (\<lambda>x. snd x \<noteq> Ended) (take (length configs1) (lf_Loops l)))"
    by (subst filter_True) (auto simp: in_set_conv_nth, metis snd_conv)
  also have "\<dots> \<le> wait_group l"
    unfolding wait_group_def by (subst (2) append_take_drop_id [symmetric, of _ "length configs1"]) (simp only: filter_append length_append le_add1)
  finally show ?thesis .
qed

end
