(* ===== verification/Icmp.thy ===== *)
theory Icmp
  imports Health NetAddr
begin

text \<open>
  \<^verbatim>\<open>icmpPing\<close> of \<^verbatim>\<open>internal/health/probe.go\<close>: the ping of a prober without
  \<^verbatim>\<open>PingFunc\<close>. The package \<^verbatim>\<open>golang.org/x/net/icmp\<close> and the network are parameters; the
  model keeps the calls that are made on the connection, in order.
\<close>

section \<open>The network\<close>

record echo_message =
  em_Type :: nat
  em_Code :: nat
  em_ID :: "16 word"
  em_Seq :: nat
  em_Data :: bytes

text \<open>The answers that one ping meets: \<^const>\<open>Some\<close> and \<^const>\<open>Inl\<close> hold the text of the error. A read
  is told the size of its buffer; what the message type of a parsed reply is, is its number.\<close>

record icmp_net =
  in_Listen :: "string option"
  in_Marshal :: "echo_message \<Rightarrow> string + bytes"
  in_SetDeadline :: "int \<Rightarrow> string option"
  in_WriteTo :: "bytes \<Rightarrow> ip \<Rightarrow> string option"
  in_ReadFrom :: "nat \<Rightarrow> string + bytes"
  in_ParseMessage :: "nat \<Rightarrow> bytes \<Rightarrow> string + nat"

datatype icmp_call = ListenPacket string | CloseConn | SetDeadline int | WriteTo bytes ip | ReadFrom nat

datatype icmp_error = ListenFailed string | InvalidTarget string | MarshalFailed string | DeadlineFailed string
  | WriteFailed string | ReadFailed string | ParseReplyFailed string | UnexpectedType nat

abbreviation ICMPTypeEcho :: nat where "ICMPTypeEcho \<equiv> 8"
abbreviation ICMPTypeEchoReply :: nat where "ICMPTypeEchoReply \<equiv> 0"

section \<open>The ping\<close>

definition echo_request :: "64 word \<Rightarrow> echo_message" where
  "echo_request pid = \<lparr>em_Type = ICMPTypeEcho, em_Code = 0, em_ID = ucast (and pid 0xffff), em_Seq = 1,
     em_Data = ''warp-health''\<rparr>"

text \<open>What runs between the listen and the deferred close; \<open>start\<close> and \<open>finish\<close> are the clock's readings.\<close>

definition exchange :: "icmp_net \<Rightarrow> 64 word \<Rightarrow> int \<Rightarrow> int \<Rightarrow> string \<Rightarrow> int \<Rightarrow> icmp_call list \<times> (icmp_error + int)" where
  "exchange net pid start finish target timeout =
     (case ParseIP target of
        None \<Rightarrow> ([], Inl (InvalidTarget target))
      | Some dst \<Rightarrow>
          (case in_Marshal net (echo_request pid) of
             Inl e \<Rightarrow> ([], Inl (MarshalFailed e))
           | Inr wb \<Rightarrow>
               let deadline = SetDeadline (start + timeout) in
               (case in_SetDeadline net (start + timeout) of
                  Some e \<Rightarrow> ([deadline], Inl (DeadlineFailed e))
                | None \<Rightarrow>
                    (case in_WriteTo net wb dst of
                       Some e \<Rightarrow> ([deadline, WriteTo wb dst], Inl (WriteFailed e))
                     | None \<Rightarrow>
                         let calls = [deadline, WriteTo wb dst, ReadFrom 1500] in
                         (case in_ReadFrom net 1500 of
                            Inl e \<Rightarrow> (calls, Inl (ReadFailed e))
                          | Inr rb \<Rightarrow>
                              (case in_ParseMessage net 1 rb of
                                 Inl e \<Rightarrow> (calls, Inl (ParseReplyFailed e))
                               | Inr ty \<Rightarrow>
                                   if ty \<noteq> ICMPTypeEchoReply then (calls, Inl (UnexpectedType ty))
                                   else (calls, Inr (finish - start))))))))"

definition icmpPing :: "icmp_net \<Rightarrow> 64 word \<Rightarrow> int \<Rightarrow> int \<Rightarrow> string \<Rightarrow> int \<Rightarrow> icmp_call list \<times> (icmp_error + int)" where
  "icmpPing net pid start finish target timeout =
     (case in_Listen net of
        Some e \<Rightarrow> ([ListenPacket ''udp4''], Inl (ListenFailed e))
      | None \<Rightarrow>
          (case exchange net pid start finish target timeout of
             (calls, r) \<Rightarrow> (ListenPacket ''udp4'' # calls @ [CloseConn], r)))"

section \<open>What a ping does\<close>

text \<open>A socket that was opened is closed, once and last.\<close>

lemma icmpPing_closes:
  "icmpPing net pid start finish target timeout = (calls, r) \<Longrightarrow>
     (in_Listen net = None \<longrightarrow> last calls = CloseConn \<and> count_list calls CloseConn = 1)"
  by (auto simp: icmpPing_def exchange_def Let_def split: option.splits sum.splits if_splits)

lemma icmpPing_success_iff:
  "snd (icmpPing net pid start finish target timeout) = Inr latency \<longleftrightarrow>
     latency = finish - start \<and> in_Listen net = None \<and>
     (\<exists>dst wb rb. ParseIP target = Some dst \<and> in_Marshal net (echo_request pid) = Inr wb \<and>
        in_SetDeadline net (start + timeout) = None \<and> in_WriteTo net wb dst = None \<and>
        in_ReadFrom net 1500 = Inr rb \<and> in_ParseMessage net 1 rb = Inr ICMPTypeEchoReply)"
  by (auto simp: icmpPing_def exchange_def Let_def split: option.splits sum.splits if_splits)

text \<open>Only a target that is an address gets a packet, and only one.\<close>

lemma icmpPing_sends:
  "WriteTo wb dst \<in> set (fst (icmpPing net pid start finish target timeout)) \<Longrightarrow>
     ParseIP target = Some dst \<and> in_Marshal net (echo_request pid) = Inr wb"
  by (auto simp: icmpPing_def exchange_def Let_def split: option.splits sum.splits if_splits)

end
