(* ===== verification/Routes.thy ===== *)
theory Routes
  imports NetAddr
begin

text \<open>
  The types that the failover controller shares with the route managers
  (\<^verbatim>\<open>internal/failover/controller.go\<close>) and the contract of the interface
  \<^verbatim>\<open>RouteManager\<close>. The interface value is a record of functions on the manager's state.
\<close>

section \<open>Types\<close>

record nexthop =
  nh_Gateway :: "ip option"
  nh_Device :: string
  nh_Weight :: int

text \<open>\<^verbatim>\<open>Gateway net.IP\<close> may be nil: \<^verbatim>\<open>net.ParseIP\<close> returns nil for text that is not an
  address.\<close>

record route_pbr =
  rp_Name :: string
  rp_Priority :: int
  rp_Source :: ipnet
  rp_Gateway :: "ip option"
  rp_Device :: string

text \<open>The key under which a next hop is configured and tracked.\<close>

definition nhKey :: "nexthop \<Rightarrow> string" where
  "nhKey nh = IP_String (nh_Gateway nh) @ '' '' @ nh_Device nh"

text \<open>One order per loop over a map: the loops of an operation are numbered.\<close>

type_synonym orders = "nat \<Rightarrow> string list \<Rightarrow> string list"

definition good_orders :: "orders \<Rightarrow> bool" where
  "good_orders its \<longleftrightarrow> (\<forall>n. some_order (its n))"

lemma good_ordersD [simp]: "good_orders its \<Longrightarrow> some_order (its n)"
  by (simp add: good_orders_def)

lemma good_orders_id: "good_orders (\<lambda>_. id)"
  by (simp add: good_orders_def some_order_def)

text \<open>A call gives back an error message or \<^const>\<open>None\<close>, and the new state.\<close>

record 'm route_ops =
  ro_Replace :: "orders \<Rightarrow> nexthop list \<Rightarrow> 'm \<Rightarrow> string option \<times> 'm"
  ro_AddPBR :: "route_pbr \<Rightarrow> 'm \<Rightarrow> string option \<times> 'm"
  ro_DelPBR :: "route_pbr \<Rightarrow> 'm \<Rightarrow> string option \<times> 'm"

section \<open>The contract\<close>

text \<open>
  What the controller relies on: a successful replacement leaves exactly the wanted routes,
  whatever was installed before; a failed one has removed only unwanted routes and added only
  wanted ones; the operations on PBR rules leave the routes alone.
\<close>

locale route_manager =
  fixes ops :: "'m route_ops"
    and routes :: "'m \<Rightarrow> string set"
    and managed :: "'m \<Rightarrow> bool"
  assumes replace_ok: "managed m \<Longrightarrow> good_orders its \<Longrightarrow> ro_Replace ops its nhs m = (None, m') \<Longrightarrow>
      routes m' = nhKey ` set nhs"
    and replace_err: "managed m \<Longrightarrow> good_orders its \<Longrightarrow> ro_Replace ops its nhs m = (Some e, m') \<Longrightarrow>
      routes m \<inter> nhKey ` set nhs \<subseteq> routes m' \<and> routes m' \<subseteq> routes m \<union> nhKey ` set nhs"
    and replace_managed: "managed m \<Longrightarrow> good_orders its \<Longrightarrow> managed (snd (ro_Replace ops its nhs m))"
    and pbr_managed: "managed m \<Longrightarrow> managed (snd (ro_AddPBR ops r m))"
      "managed m \<Longrightarrow> managed (snd (ro_DelPBR ops r m))"
    and pbr_routes: "managed m \<Longrightarrow> routes (snd (ro_AddPBR ops r m)) = routes m"
      "managed m \<Longrightarrow> routes (snd (ro_DelPBR ops r m)) = routes m"
begin

text \<open>Two managers that accept the same routes agree, whatever they held before.\<close>

lemma replace_forgets:
  assumes "managed m" "managed n" "good_orders its" "good_orders jts"
    and "ro_Replace ops its nhs m = (None, m')" "ro_Replace ops jts nhs n = (None, n')"
  shows "routes m' = routes n'"
  using replace_ok [OF assms(1,3,5)] replace_ok [OF assms(2,4,6)] by simp

lemma replace_within:
  assumes "managed m" "good_orders its"
  shows "routes (snd (ro_Replace ops its nhs m)) \<subseteq> routes m \<union> nhKey ` set nhs"
proof (cases "ro_Replace ops its nhs m")
  case (Pair e m')
  then show ?thesis
    using replace_ok [OF assms] replace_err [OF assms] by (cases e) auto
qed

end

end
