(* ===== verification/Failover.thy ===== *)
theory Failover
  imports Config Routes Health
begin

text \<open>
  \<^verbatim>\<open>internal/failover/controller.go\<close>: the controller that turns changes of an uplink's
  health into route updates. It calls a route manager through its interface; the lemmas use only
  the contract of that interface, and the theory of a manager instantiates them. Each operation
  holds the controller's mutex, so it is one step.
\<close>

section \<open>State\<close>

record uplink_info =
  ui_Name :: string
  ui_Gateway :: "ip option"
  ui_Device :: string

text \<open>What \<^verbatim>\<open>log.Printf\<close> reports.\<close>

datatype log_event =
    DeactivateFailed string string
  | ActivateFailed string string
  | RemoveRuleFailed string string
  | AddRuleFailed string string

text \<open>\<open>c_routes\<close> is the state of the route manager. The prober, which the Go struct also holds,
  is not used by any operation.\<close>

record 'm controller =
  c_routes :: 'm
  c_uplinks :: "(string, uplink_info) gomap"
  c_pbrRules :: "(string, route_pbr) gomap"
  c_active :: "(string, bool) gomap"
  c_log :: "log_event list"

section \<open>Construction\<close>

definition uplink_of :: "interface \<Rightarrow> uplink_info" where
  "uplink_of f = \<lparr>ui_Name = if_Name f, ui_Gateway = ParseIP (if_Gateway f), ui_Device = if_Device f\<rparr>"

definition index_uplinks :: "site_config \<Rightarrow> (string, uplink_info) gomap" where
  "index_uplinks cfg =
     foldl (\<lambda>m f. if is_wan f \<and> if_Gateway f \<noteq> [] then AList.update (if_Name f) (uplink_of f) m else m)
       [] (Interfaces cfg)"

definition initially_active :: "site_config \<Rightarrow> (string, bool) gomap" where
  "initially_active cfg =
     foldl (\<lambda>m f. if is_wan f \<and> if_Gateway f \<noteq> [] then AList.update (if_Name f) True m else m)
       [] (Interfaces cfg)"

definition controller_pbr :: "site_config \<Rightarrow> (string, route_pbr) gomap" where
  "controller_pbr cfg =
     foldl (\<lambda>m r.
       case map_of (iface_by_name (Interfaces cfg)) (pbr_Interface r) of
         None \<Rightarrow> m
       | Some t \<Rightarrow>
           if if_Gateway t = [] then m
           else (case ParseCIDR (pbr_Source r) of
               None \<Rightarrow> m
             | Some (_, srcNet) \<Rightarrow>
                 AList.update (pbr_Name r)
                   \<lparr>rp_Name = pbr_Name r, rp_Priority = pbr_Priority r, rp_Source = srcNet,
                    rp_Gateway = ParseIP (if_Gateway t), rp_Device = if_Device t\<rparr> m))
       [] (PBR cfg)"

definition NewController :: "site_config \<Rightarrow> 'm \<Rightarrow> 'm controller" where
  "NewController cfg routes =
     \<lparr>c_routes = routes, c_uplinks = index_uplinks cfg, c_pbrRules = controller_pbr cfg,
      c_active = initially_active cfg, c_log = []\<rparr>"

section \<open>Operations\<close>

definition is_active :: "'m controller \<Rightarrow> string \<Rightarrow> bool" where
  "is_active c name \<longleftrightarrow> map_of (c_active c) name = Some True"

definition uplink_nexthop :: "uplink_info \<Rightarrow> nexthop" where
  "uplink_nexthop i = \<lparr>nh_Gateway = ui_Gateway i, nh_Device = ui_Device i, nh_Weight = 1\<rparr>"

definition active_nexthops :: "orders \<Rightarrow> 'm controller \<Rightarrow> nexthop list" where
  "active_nexthops its c =
     map (\<lambda>n. uplink_nexthop (the (map_of (c_uplinks c) n)))
       (filter (is_active c) (its 2 (keys_of (c_uplinks c))))"

definition updateECMP :: "'m route_ops \<Rightarrow> orders \<Rightarrow> 'm controller \<Rightarrow> string option \<times> 'm controller" where
  "updateECMP ops its c =
     (case ro_Replace ops its (active_nexthops its c) (c_routes c) of
        (e, m) \<Rightarrow> (e, c\<lparr>c_routes := m\<rparr>))"

fun add_all_rules :: "'m route_ops \<Rightarrow> string list \<Rightarrow> 'm controller \<Rightarrow> string option \<times> 'm controller" where
  "add_all_rules ops [] c = (None, c)"
| "add_all_rules ops (n # ns) c =
     (case ro_AddPBR ops (the (map_of (c_pbrRules c) n)) (c_routes c) of
        (Some e, m) \<Rightarrow> (Some (''initial PBR rule '' @ rp_Name (the (map_of (c_pbrRules c) n)) @ '': '' @ e), c\<lparr>c_routes := m\<rparr>)
      | (None, m) \<Rightarrow> add_all_rules ops ns (c\<lparr>c_routes := m\<rparr>))"

definition InstallInitialRoutes :: "'m route_ops \<Rightarrow> orders \<Rightarrow> 'm controller \<Rightarrow> string option \<times> 'm controller" where
  "InstallInitialRoutes ops its c =
     (case updateECMP ops its c of
        (Some e, c') \<Rightarrow> (Some (''initial ECMP: '' @ e), c')
      | (None, c') \<Rightarrow> add_all_rules ops (its 3 (keys_of (c_pbrRules c'))) c')"

text \<open>The rules of a device, one call each; a failure is logged and the loop goes on.\<close>

fun each_rule :: "(route_pbr \<Rightarrow> 'm \<Rightarrow> string option \<times> 'm) \<Rightarrow> (string \<Rightarrow> string \<Rightarrow> log_event)
    \<Rightarrow> string \<Rightarrow> string list \<Rightarrow> 'm controller \<Rightarrow> 'm controller" where
  "each_rule call failed dev [] c = c"
| "each_rule call failed dev (n # ns) c =
     (let r = the (map_of (c_pbrRules c) n) in
      if rp_Device r = dev then
        (case call r (c_routes c) of
           (Some e, m) \<Rightarrow> each_rule call failed dev ns (c\<lparr>c_routes := m, c_log := c_log c @ [failed (rp_Name r) e]\<rparr>)
         | (None, m) \<Rightarrow> each_rule call failed dev ns (c\<lparr>c_routes := m\<rparr>))
      else each_rule call failed dev ns c)"

definition set_active :: "string \<Rightarrow> bool \<Rightarrow> 'm controller \<Rightarrow> 'm controller" where
  "set_active name b c = c\<lparr>c_active := AList.update name b (c_active c)\<rparr>"

definition deactivateUplink :: "'m route_ops \<Rightarrow> orders \<Rightarrow> string \<Rightarrow> 'm controller \<Rightarrow> 'm controller" where
  "deactivateUplink ops its name c =
     (if \<not> is_active c name then c
      else case updateECMP ops its (set_active name False c) of
          (Some e, c') \<Rightarrow> set_active name True (c'\<lparr>c_log := c_log c' @ [DeactivateFailed name e]\<rparr>)
        | (None, c') \<Rightarrow>
            (case map_of (c_uplinks c') name of
               None \<Rightarrow> c'
             | Some info \<Rightarrow>
                 each_rule (ro_DelPBR ops) RemoveRuleFailed (ui_Device info) (its 3 (keys_of (c_pbrRules c'))) c'))"

definition activateUplink :: "'m route_ops \<Rightarrow> orders \<Rightarrow> string \<Rightarrow> 'm controller \<Rightarrow> 'm controller" where
  "activateUplink ops its name c =
     (if is_active c name then c
      else case updateECMP ops its (set_active name True c) of
          (Some e, c') \<Rightarrow> set_active name False (c'\<lparr>c_log := c_log c' @ [ActivateFailed name e]\<rparr>)
        | (None, c') \<Rightarrow>
            (case map_of (c_uplinks c') name of
               None \<Rightarrow> c'
             | Some info \<Rightarrow>
                 each_rule (ro_AddPBR ops) AddRuleFailed (ui_Device info) (its 3 (keys_of (c_pbrRules c'))) c'))"

definition HandleStateChange :: "'m route_ops \<Rightarrow> orders \<Rightarrow> string \<Rightarrow> status \<Rightarrow> status \<Rightarrow> 'm controller
    \<Rightarrow> 'm controller" where
  "HandleStateChange ops its name oldStatus newStatus c =
     (case newStatus of
        StatusDown \<Rightarrow> deactivateUplink ops its name c
      | StatusHealthy \<Rightarrow> activateUplink ops its name c
      | _ \<Rightarrow> c)"

definition ActiveUplinks :: "(string list \<Rightarrow> string list) \<Rightarrow> 'm controller \<Rightarrow> string list" where
  "ActiveUplinks it c = filter (is_active c) (it (keys_of (c_active c)))"

section \<open>What the controller promises\<close>

text \<open>The routes of the active uplinks, and the manager in step with them.\<close>

definition wanted_routes :: "'m controller \<Rightarrow> string set" where
  "wanted_routes c =
     {nhKey (uplink_nexthop i) | n i. map_of (c_uplinks c) n = Some i \<and> is_active c n}"

definition ecmp_failure :: "string \<Rightarrow> log_event \<Rightarrow> bool" where
  "ecmp_failure name e \<longleftrightarrow> (\<exists>x. e = DeactivateFailed name x \<or> e = ActivateFailed name x)"

lemma is_active_simps [simp]:
  "is_active (set_active n b c) k \<longleftrightarrow> (if k = n then b else is_active c k)"
  "is_active (c\<lparr>c_routes := m\<rparr>) = is_active c" "is_active (c\<lparr>c_log := l\<rparr>) = is_active c"
  by (auto simp: is_active_def set_active_def fun_eq_iff)

lemma set_active_simps [simp]:
  "c_uplinks (set_active n b c) = c_uplinks c" "c_pbrRules (set_active n b c) = c_pbrRules c"
  "c_routes (set_active n b c) = c_routes c" "c_log (set_active n b c) = c_log c"
  by (simp_all add: set_active_def)

lemma active_nexthops_keys:
  assumes "good_orders its"
  shows "nhKey ` set (active_nexthops its c) = wanted_routes c"
proof -
  have "set (its 2 (keys_of (c_uplinks c))) = dom (map_of (c_uplinks c))"
    using assms by (simp add: set_keys_of)
  then show ?thesis by (force simp: active_nexthops_def wanted_routes_def)
qed

lemma wanted_routes_cong:
  "c_uplinks c' = c_uplinks c \<Longrightarrow> is_active c' = is_active c \<Longrightarrow> wanted_routes c' = wanted_routes c"
  by (simp add: wanted_routes_def)

lemma add_all_rules_frame:
  "add_all_rules ops ns c = (e, c') \<Longrightarrow>
     c_uplinks c' = c_uplinks c \<and> c_pbrRules c' = c_pbrRules c \<and> c_active c' = c_active c \<and> c_log c' = c_log c"
  by (induction ops ns c rule: add_all_rules.induct) (auto split: prod.splits option.splits)

lemma each_rule_frame:
  "c_uplinks (each_rule call failed dev ns c) = c_uplinks c \<and>
   c_pbrRules (each_rule call failed dev ns c) = c_pbrRules c \<and>
   c_active (each_rule call failed dev ns c) = c_active c \<and>
   (\<exists>es. c_log (each_rule call failed dev ns c) = c_log c @ es \<and> (\<forall>e \<in> set es. \<exists>r x. e = failed r x))"
proof (induction call failed dev ns c rule: each_rule.induct)
  case (2 call failed dev n ns c)
  let ?r = "the (map_of (c_pbrRules c) n)"
  show ?case
  proof (cases "rp_Device ?r = dev")
    case True
    obtain e m where call: "call ?r (c_routes c) = (e, m)" by (cases "call ?r (c_routes c)")
    show ?thesis
    proof (cases e)
      case None
      from "2.IH"(1) [OF refl True call [symmetric] None] show ?thesis
        by (simp add: Let_def True call None)
    next
      case (Some x)
      from "2.IH"(2) [OF refl True call [symmetric] Some] show ?thesis
        by (simp add: Let_def True call Some) (elim conjE exE, rule exI, rule conjI, assumption, force)
    qed
  next
    case False
    from "2.IH"(3) [OF refl False] show ?thesis by (simp add: Let_def False)
  qed
qed simp

lemma each_rule_log: "set (c_log c) \<subseteq> set (c_log (each_rule call failed dev ns c))"
  using each_rule_frame [of call failed dev ns c] by auto

lemma is_active_cong: "c_active c' = c_active c \<Longrightarrow> is_active c' = is_active c"
  by (simp add: is_active_def fun_eq_iff)

text \<open>Both handlers have the same shape.\<close>

definition switch_uplink :: "'m route_ops \<Rightarrow> orders \<Rightarrow> bool \<Rightarrow> (route_pbr \<Rightarrow> 'm \<Rightarrow> string option \<times> 'm)
    \<Rightarrow> (string \<Rightarrow> string \<Rightarrow> log_event) \<Rightarrow> (string \<Rightarrow> string \<Rightarrow> log_event) \<Rightarrow> string \<Rightarrow> 'm controller \<Rightarrow> 'm controller" where
  "switch_uplink ops its b call rule_failed failed name c =
     (if is_active c name = b then c
      else case updateECMP ops its (set_active name b c) of
          (Some e, c') \<Rightarrow> set_active name (\<not> b) (c'\<lparr>c_log := c_log c' @ [failed name e]\<rparr>)
        | (None, c') \<Rightarrow>
            (case map_of (c_uplinks c') name of
               None \<Rightarrow> c'
             | Some info \<Rightarrow> each_rule call rule_failed (ui_Device info) (its 3 (keys_of (c_pbrRules c'))) c'))"

lemma handlers_switch:
  "deactivateUplink ops its = switch_uplink ops its False (ro_DelPBR ops) RemoveRuleFailed DeactivateFailed"
  "activateUplink ops its = switch_uplink ops its True (ro_AddPBR ops) AddRuleFailed ActivateFailed"
  by (auto simp: fun_eq_iff deactivateUplink_def activateUplink_def switch_uplink_def
      split: option.split prod.split)

context route_manager
begin

lemma updateECMP_ok:
  assumes "managed (c_routes c)" "good_orders its" "updateECMP ops its c = (None, c')"
  shows "managed (c_routes c') \<and> routes (c_routes c') = wanted_routes c \<and> c' = c\<lparr>c_routes := c_routes c'\<rparr>"
proof -
  obtain m where m: "ro_Replace ops its (active_nexthops its c) (c_routes c) = (None, m)" "c' = c\<lparr>c_routes := m\<rparr>"
    using assms(3) by (auto simp: updateECMP_def split: prod.splits)
  with replace_ok [OF assms(1,2) m(1)] replace_managed [OF assms(1,2), of "active_nexthops its c"]
    active_nexthops_keys [OF assms(2), of c] show ?thesis by simp
qed

lemma updateECMP_err:
  assumes "managed (c_routes c)" "good_orders its" "updateECMP ops its c = (Some e, c')"
  shows "managed (c_routes c') \<and> c' = c\<lparr>c_routes := c_routes c'\<rparr> \<and>
    routes (c_routes c) \<inter> wanted_routes c \<subseteq> routes (c_routes c') \<and>
    routes (c_routes c') \<subseteq> routes (c_routes c) \<union> wanted_routes c"
proof -
  obtain m where m: "ro_Replace ops its (active_nexthops its c) (c_routes c) = (Some e, m)" "c' = c\<lparr>c_routes := m\<rparr>"
    using assms(3) by (auto simp: updateECMP_def split: prod.splits)
  with replace_err [OF assms(1,2) m(1)] replace_managed [OF assms(1,2), of "active_nexthops its c"]
  show ?thesis unfolding active_nexthops_keys [OF assms(2), of c] by simp
qed

lemma add_all_rules_routes:
  "add_all_rules ops ns c = (e, c') \<Longrightarrow> managed (c_routes c) \<Longrightarrow>
     managed (c_routes c') \<and> routes (c_routes c') = routes (c_routes c)"
proof (induction ns arbitrary: c)
  case (Cons n ns)
  obtain f m where f: "ro_AddPBR ops (the (map_of (c_pbrRules c) n)) (c_routes c) = (f, m)" by fastforce
  with pbr_managed(1) [OF Cons.prems(2)] pbr_routes(1) [OF Cons.prems(2)]
  have "managed m" "routes m = routes (c_routes c)" by (metis snd_conv)+
  with Cons f show ?case by (cases f) auto
qed simp

lemma each_rule_routes:
  assumes "call = ro_AddPBR ops \<or> call = ro_DelPBR ops" "managed (c_routes c)"
  shows "managed (c_routes (each_rule call failed dev ns c)) \<and>
    routes (c_routes (each_rule call failed dev ns c)) = routes (c_routes c)"
  using assms(2)
proof (induction ns arbitrary: c)
  case (Cons n ns)
  let ?r = "the (map_of (c_pbrRules c) n)"
  obtain f m where f: "call ?r (c_routes c) = (f, m)" by fastforce
  have "managed m" "routes m = routes (c_routes c)"
    using assms(1) pbr_managed [OF Cons.prems, of ?r] pbr_routes [OF Cons.prems, of ?r] f
    by (metis snd_conv)+
  with Cons f show ?case by (cases f) (auto simp: Let_def)
qed simp

lemma InstallInitialRoutes_ok:
  assumes "managed (c_routes c)" "good_orders its" "InstallInitialRoutes ops its c = (None, c')"
  shows "managed (c_routes c') \<and> routes (c_routes c') = wanted_routes c' \<and>
    c_uplinks c' = c_uplinks c \<and> c_active c' = c_active c"
proof -
  obtain c1 where c1: "updateECMP ops its c = (None, c1)"
    and a: "add_all_rules ops (its 3 (keys_of (c_pbrRules c1))) c1 = (None, c')"
    using assms(3) by (auto simp: InstallInitialRoutes_def split: prod.splits option.splits)
  note U = updateECMP_ok [OF assms(1,2) c1]
  then have f: "c_uplinks c1 = c_uplinks c" "c_active c1 = c_active c"
    by (metis controller.select_convs controller.surjective controller.update_convs(1))+
  note A = add_all_rules_frame [OF a] add_all_rules_routes [OF a]
  with U f have "wanted_routes c' = wanted_routes c"
    by (intro wanted_routes_cong is_active_cong) simp_all
  with A U f show ?thesis by simp
qed

text \<open>
  A handler has nothing to do; or the routes are those of the new set of active uplinks; or
  the update failed, the failure is logged, the set of active uplinks is as before, and the routes
  only moved towards the set that was asked for.
\<close>

lemma switch_cases:
  assumes "managed (c_routes c)" "good_orders its"
    and call: "call = ro_AddPBR ops \<or> call = ro_DelPBR ops" and failed: "\<And>n e. ecmp_failure n (failed n e)"
    and c'_def: "c' = switch_uplink ops its b call rule_failed failed name c"
  shows "managed (c_routes c') \<and> c_uplinks c' = c_uplinks c \<and> c_pbrRules c' = c_pbrRules c \<and>
    set (c_log c) \<subseteq> set (c_log c') \<and>
    (is_active c name = b \<and> c' = c \<or>
     is_active c name \<noteq> b \<and> is_active c' = (is_active c)(name := b) \<and> routes (c_routes c') = wanted_routes c' \<or>
     is_active c name \<noteq> b \<and> is_active c' = is_active c \<and> (\<exists>e \<in> set (c_log c'). ecmp_failure name e) \<and>
     routes (c_routes c) \<inter> wanted_routes (set_active name b c) \<subseteq> routes (c_routes c') \<and>
     routes (c_routes c') \<subseteq> routes (c_routes c) \<union> wanted_routes (set_active name b c))"
proof (cases "is_active c name = b")
  case active: False
  let ?d = "set_active name b c"
  have md: "managed (c_routes ?d)" using assms(1) by simp
  obtain e c1 where u: "updateECMP ops its ?d = (e, c1)" by fastforce
  show ?thesis
  proof (cases e)
    case None
    note U = updateECMP_ok [OF md assms(2) u [unfolded None]]
    then have eq: "c1 = ?d\<lparr>c_routes := c_routes c1\<rparr>" by simp
    have f: "c_uplinks c1 = c_uplinks c" by (subst eq) simp
    have p: "c_pbrRules c1 = c_pbrRules c" by (subst eq) simp
    have a: "is_active c1 = (is_active c)(name := b)" by (subst eq) (simp add: fun_eq_iff)
    have l: "c_log c1 = c_log c" by (subst eq) simp
    have w1: "wanted_routes c1 = wanted_routes ?d"
      using f a by (intro wanted_routes_cong) auto
    define c2 where "c2 = (case map_of (c_uplinks c1) name of None \<Rightarrow> c1
      | Some info \<Rightarrow> each_rule call rule_failed (ui_Device info) (its 3 (keys_of (c_pbrRules c1))) c1)"
    have c': "c' = c2"
      unfolding c'_def switch_uplink_def c2_def using active u None by simp
    have "managed (c_routes c2) \<and> routes (c_routes c2) = routes (c_routes c1) \<and> c_uplinks c2 = c_uplinks c1 \<and>
        c_pbrRules c2 = c_pbrRules c1 \<and> c_active c2 = c_active c1 \<and> set (c_log c1) \<subseteq> set (c_log c2)"
      unfolding c2_def
      using each_rule_frame [of call rule_failed _ "its 3 (keys_of (c_pbrRules c1))" c1]
        each_rule_log [of c1 call rule_failed _ "its 3 (keys_of (c_pbrRules c1))"]
        each_rule_routes [OF call, of c1] U
      by (auto split: option.split)
    moreover from this have "wanted_routes c2 = wanted_routes c1"
      by (intro wanted_routes_cong is_active_cong) simp_all
    ultimately show ?thesis using U f p a l w1 active is_active_cong [of c2 c1] unfolding c' by simp
  next
    case (Some x)
    note U = updateECMP_err [OF md assms(2) u [unfolded Some]]
    then have eq: "c1 = ?d\<lparr>c_routes := c_routes c1\<rparr>" by simp
    have f: "c_uplinks c1 = c_uplinks c" by (subst eq) simp
    have p: "c_pbrRules c1 = c_pbrRules c" by (subst eq) simp
    have a: "is_active c1 = is_active ?d" by (subst eq) simp
    have l: "c_log c1 = c_log c" by (subst eq) simp
    have c': "c' = set_active name (\<not> b) (c1\<lparr>c_log := c_log c1 @ [failed name x]\<rparr>)"
      unfolding c'_def switch_uplink_def using active u Some by simp
    have "is_active c' = is_active c"
      using a active unfolding c' by (auto simp: fun_eq_iff)
    moreover have "\<exists>e \<in> set (c_log c'). ecmp_failure name e"
      unfolding c' by (auto simp: failed)
    moreover have "set (c_log c) \<subseteq> set (c_log c')"
      using l unfolding c' by auto
    ultimately show ?thesis using U f p active unfolding c' by simp
  qed
qed (use assms(1) in \<open>simp add: c'_def switch_uplink_def\<close>)

end

end
