(* ===== verification/Vtysh.thy ===== *)
theory Vtysh
  imports Failover
begin

text \<open>
  \<^verbatim>\<open>internal/failover/vtysh.go\<close>: the route manager that drives FRR through \<^verbatim>\<open>vtysh\<close>.
  The manager keeps the set of routes it believes installed; the machine keeps the log of the
  commands that ran.
\<close>

section \<open>State\<close>

type_synonym command_runner = "string list \<Rightarrow> os \<Rightarrow> (bool \<times> string) \<times> os"

record vtysh_manager =
  vm_installed :: "(string, bool) gomap"
  vm_RunCmd :: "command_runner option"

definition NewVtyshRouteManager :: "nexthop list \<Rightarrow> vtysh_manager" where
  "NewVtyshRouteManager initialRoutes =
     \<lparr>vm_installed = foldl (\<lambda>m nh. AList.update (nhKey nh) True m) [] initialRoutes, vm_RunCmd = None\<rparr>"

section \<open>Operations\<close>

definition exec_vtysh :: command_runner where
  "exec_vtysh args s = os_Exec (''vtysh'' # args) s"

definition runner :: "vtysh_manager \<Rightarrow> command_runner" where
  "runner m = (case vm_RunCmd m of None \<Rightarrow> exec_vtysh | Some run \<Rightarrow> run)"

text \<open>The message leaves out the text of the exit error itself.\<close>

definition vtyshConfigure :: "vtysh_manager \<Rightarrow> string \<Rightarrow> os \<Rightarrow> string option \<times> os" where
  "vtyshConfigure m configCmd s =
     (case runner m [''-c'', ''configure terminal'', ''-c'', configCmd] s of
        ((ok, out), s') \<Rightarrow>
          if \<not> ok then (Some (''vtysh '' @ quoted configCmd @ '': '' @ nl @ ''output: '' @ out), s') else (None, s'))"

definition add_cmd :: "string \<Rightarrow> string" where
  "add_cmd key = ''ip route 0.0.0.0/0 '' @ key"

definition del_cmd :: "string \<Rightarrow> string" where
  "del_cmd key = ''no ip route 0.0.0.0/0 '' @ key"

fun remove_routes :: "(string, nexthop) gomap \<Rightarrow> string list \<Rightarrow> vtysh_manager \<times> os
    \<Rightarrow> string option \<times> vtysh_manager \<times> os" where
  "remove_routes desired [] ms = (None, ms)"
| "remove_routes desired (key # keys) (m, s) =
     (if map_of desired key = None then
        (case vtyshConfigure m (del_cmd key) s of
           (Some e, s') \<Rightarrow> (Some (''removing route '' @ key @ '': '' @ e), m, s')
         | (None, s') \<Rightarrow>
             remove_routes desired keys (m\<lparr>vm_installed := AList.delete key (vm_installed m)\<rparr>, s'))
      else remove_routes desired keys (m, s))"

definition is_installed :: "vtysh_manager \<Rightarrow> string \<Rightarrow> bool" where
  "is_installed m key \<longleftrightarrow> map_of (vm_installed m) key = Some True"

fun add_routes :: "string list \<Rightarrow> vtysh_manager \<times> os \<Rightarrow> string option \<times> vtysh_manager \<times> os" where
  "add_routes [] ms = (None, ms)"
| "add_routes (key # keys) (m, s) =
     (if \<not> is_installed m key then
        (case vtyshConfigure m (add_cmd key) s of
           (Some e, s') \<Rightarrow> (Some (''adding route '' @ key @ '': '' @ e), m, s')
         | (None, s') \<Rightarrow>
             add_routes keys (m\<lparr>vm_installed := AList.update key True (vm_installed m)\<rparr>, s'))
      else add_routes keys (m, s))"

definition desired_routes :: "nexthop list \<Rightarrow> (string, nexthop) gomap" where
  "desired_routes nexthops = foldl (\<lambda>d nh. AList.update (nhKey nh) nh d) [] nexthops"

definition vtysh_ReplaceECMPRoute :: "orders \<Rightarrow> nexthop list \<Rightarrow> vtysh_manager \<times> os
    \<Rightarrow> string option \<times> vtysh_manager \<times> os" where
  "vtysh_ReplaceECMPRoute its nexthops ms =
     (let desired = desired_routes nexthops in
      case remove_routes desired (its 0 (keys_of (vm_installed (fst ms)))) ms of
        (Some e, ms') \<Rightarrow> (Some e, ms')
      | (None, ms') \<Rightarrow> add_routes (its 1 (keys_of desired)) ms')"

definition vtysh_AddPBRRule :: "route_pbr \<Rightarrow> vtysh_manager \<times> os \<Rightarrow> string option \<times> vtysh_manager \<times> os" where
  "vtysh_AddPBRRule rule ms = (None, ms)"

definition vtysh_DelPBRRule :: "route_pbr \<Rightarrow> vtysh_manager \<times> os \<Rightarrow> string option \<times> vtysh_manager \<times> os" where
  "vtysh_DelPBRRule rule ms = (None, ms)"

definition InstalledRoutes :: "(string list \<Rightarrow> string list) \<Rightarrow> vtysh_manager \<Rightarrow> (string, bool) gomap" where
  "InstalledRoutes it m = foldl (\<lambda>cp k. AList.update k (the (map_of (vm_installed m) k)) cp) []
     (it (keys_of (vm_installed m)))"

definition vtysh_ops :: "(vtysh_manager \<times> os) route_ops" where
  "vtysh_ops = \<lparr>ro_Replace = vtysh_ReplaceECMPRoute, ro_AddPBR = vtysh_AddPBRRule,
     ro_DelPBR = vtysh_DelPBRRule\<rparr>"

section \<open>What the manager tracks\<close>

text \<open>Every stored value is \<^verbatim>\<open>true\<close>, so the set of installed routes is the set of keys.\<close>

definition installed_ok :: "vtysh_manager \<Rightarrow> bool" where
  "installed_ok m \<longleftrightarrow> map_ok (vm_installed m) \<and> (\<forall>k. map_of (vm_installed m) k \<noteq> Some False)"

definition installed_set :: "vtysh_manager \<Rightarrow> string set" where
  "installed_set m = dom (map_of (vm_installed m))"

text \<open>What the manager relies on of FRR: a command that succeeds configures or unconfigures its
  route and nothing else, one that fails changes nothing.\<close>

definition vtysh_law :: "(os \<Rightarrow> string set) \<Rightarrow> command_runner \<Rightarrow> bool" where
  "vtysh_law table run \<longleftrightarrow>
     (\<forall>key s ok out s'.
        (run [''-c'', ''configure terminal'', ''-c'', add_cmd key] s = ((ok, out), s') \<longrightarrow>
           table s' = (if ok then insert key (table s) else table s)) \<and>
        (run [''-c'', ''configure terminal'', ''-c'', del_cmd key] s = ((ok, out), s') \<longrightarrow>
           table s' = (if ok then table s - {key} else table s)))"

lemma installed_ok_update: "installed_ok m \<Longrightarrow> installed_ok (m\<lparr>vm_installed := AList.update k True (vm_installed m)\<rparr>)"
  by (simp add: installed_ok_def)

lemma installed_ok_delete: "installed_ok m \<Longrightarrow> installed_ok (m\<lparr>vm_installed := AList.delete k (vm_installed m)\<rparr>)"
  by (simp add: installed_ok_def)

lemma installed_set_simps [simp]:
  "installed_set (m\<lparr>vm_installed := AList.update k v (vm_installed m)\<rparr>) = insert k (installed_set m)"
  "installed_set (m\<lparr>vm_installed := AList.delete k (vm_installed m)\<rparr>) = installed_set m - {k}"
  by (auto simp: installed_set_def)

lemma runner_update [simp]: "runner (m\<lparr>vm_installed := x\<rparr>) = runner m"
  by (simp add: runner_def)

lemma is_installed_iff: "installed_ok m \<Longrightarrow> is_installed m k \<longleftrightarrow> k \<in> installed_set m"
proof (cases "map_of (vm_installed m) k")
  case (Some v)
  then show "installed_ok m \<Longrightarrow> is_installed m k \<longleftrightarrow> k \<in> installed_set m"
    by (cases v) (auto simp: is_installed_def installed_set_def installed_ok_def)
qed (auto simp: is_installed_def installed_set_def)

lemma vtyshConfigure_law:
  assumes "vtysh_law table (runner m)"
  shows "vtyshConfigure m (add_cmd key) s = (e, s') \<Longrightarrow>
      table s' = (if e = None then insert key (table s) else table s)"
    and "vtyshConfigure m (del_cmd key) s = (e, s') \<Longrightarrow>
      table s' = (if e = None then table s - {key} else table s)"
  using assms unfolding vtyshConfigure_def vtysh_law_def
  by (auto split: prod.splits if_splits) blast+

lemma vtyshConfigure_cmds:
  "vm_RunCmd m = None \<Longrightarrow>
     cmds (snd (vtyshConfigure m c s)) = cmds s @ [[''vtysh'', ''-c'', ''configure terminal'', ''-c'', c]]"
  by (simp add: vtyshConfigure_def runner_def exec_vtysh_def os_Exec_def split: prod.split)

definition vtysh_args :: "string \<Rightarrow> string list" where
  "vtysh_args c = [''vtysh'', ''-c'', ''configure terminal'', ''-c'', c]"

lemma remove_routes_spec:
  assumes "remove_routes d keys (m, s) = (e, m', s')" "installed_ok m"
  shows "installed_ok m' \<and> vm_RunCmd m' = vm_RunCmd m \<and>
    (e = None \<longrightarrow> installed_set m' = installed_set m - {k \<in> set keys. map_of d k = None}) \<and>
    installed_set m \<inter> dom (map_of d) \<subseteq> installed_set m' \<and> installed_set m' \<subseteq> installed_set m \<and>
    (vtysh_law table (runner m) \<and> table s = installed_set m \<longrightarrow> table s' = installed_set m') \<and>
    (e = None \<and> vm_RunCmd m = None \<longrightarrow>
      cmds s' = cmds s @ map (\<lambda>k. vtysh_args (del_cmd k)) (filter (\<lambda>k. map_of d k = None) keys))"
  using assms
proof (induction keys arbitrary: m s)
  case (Cons key keys)
  show ?case
  proof (cases "map_of d key = None")
    case True
    obtain e1 s1 where c: "vtyshConfigure m (del_cmd key) s = (e1, s1)" by (cases "vtyshConfigure m (del_cmd key) s")
    show ?thesis
    proof (cases e1)
      case None
      let ?m = "m\<lparr>vm_installed := AList.delete key (vm_installed m)\<rparr>"
      have r: "remove_routes d keys (?m, s1) = (e, m', s')"
        using Cons.prems(1) True c None by simp
      have t: "vtysh_law table (runner m) \<and> table s = installed_set m \<longrightarrow> table s1 = installed_set ?m"
        using vtyshConfigure_law(2) [OF _ c, of table] None by auto
      have l: "vm_RunCmd m = None \<longrightarrow> cmds s1 = cmds s @ [vtysh_args (del_cmd key)]"
        using vtyshConfigure_cmds [of m "del_cmd key" s] c by (simp add: vtysh_args_def)
      note IH = Cons.IH [OF r installed_ok_delete [OF Cons.prems(2)]]
      have "e = None \<longrightarrow> installed_set m' = installed_set m - {k \<in> set (key # keys). map_of d k = None}"
        using IH True by auto
      moreover have "installed_set m \<inter> dom (map_of d) \<subseteq> installed_set m'" "installed_set m' \<subseteq> installed_set m"
        using IH True by (auto simp: domIff)
      moreover have "e = None \<and> vm_RunCmd m = None \<longrightarrow> cmds s' =
          cmds s @ map (\<lambda>k. vtysh_args (del_cmd k)) (filter (\<lambda>k. map_of d k = None) (key # keys))"
        using IH True l by simp
      ultimately show ?thesis using IH t by simp
    next
      case (Some x)
      with Cons.prems True c vtyshConfigure_law(2) [OF _ c, of table] show ?thesis by auto
    qed
  next
    case False
    with Cons show ?thesis by auto
  qed
qed auto

lemma add_routes_spec:
  assumes "add_routes keys (m, s) = (e, m', s')" "installed_ok m" "distinct keys"
  shows "installed_ok m' \<and> vm_RunCmd m' = vm_RunCmd m \<and>
    (e = None \<longrightarrow> installed_set m' = installed_set m \<union> set keys) \<and>
    installed_set m \<subseteq> installed_set m' \<and> installed_set m' \<subseteq> installed_set m \<union> set keys \<and>
    (vtysh_law table (runner m) \<and> table s = installed_set m \<longrightarrow> table s' = installed_set m') \<and>
    (e = None \<and> vm_RunCmd m = None \<longrightarrow>
      cmds s' = cmds s @ map (\<lambda>k. vtysh_args (add_cmd k)) (filter (\<lambda>k. k \<notin> installed_set m) keys))"
  using assms
proof (induction keys arbitrary: m s)
  case (Cons key keys)
  show ?case
  proof (cases "is_installed m key")
    case False
    obtain e1 s1 where c: "vtyshConfigure m (add_cmd key) s = (e1, s1)" by (cases "vtyshConfigure m (add_cmd key) s")
    show ?thesis
    proof (cases e1)
      case None
      let ?m = "m\<lparr>vm_installed := AList.update key True (vm_installed m)\<rparr>"
      have r: "add_routes keys (?m, s1) = (e, m', s')"
        using Cons.prems(1) False c None by simp
      have t: "vtysh_law table (runner m) \<and> table s = installed_set m \<longrightarrow> table s1 = installed_set ?m"
        using vtyshConfigure_law(1) [OF _ c, of table] None by auto
      have l: "vm_RunCmd m = None \<longrightarrow> cmds s1 = cmds s @ [vtysh_args (add_cmd key)]"
        using vtyshConfigure_cmds [of m "add_cmd key" s] c by (simp add: vtysh_args_def)
      have f: "filter (\<lambda>k. k \<notin> installed_set ?m) keys = filter (\<lambda>k. k \<notin> installed_set m) keys"
        using Cons.prems(3) by (intro filter_cong) auto
      have "key \<notin> installed_set m" using False is_installed_iff [OF Cons.prems(2)] by simp
      with Cons.IH [OF r installed_ok_update [OF Cons.prems(2)]] Cons.prems(3) t l f show ?thesis
        by auto
    next
      case (Some x)
      with Cons.prems False c vtyshConfigure_law(1) [OF _ c, of table] show ?thesis by auto
    qed
  next
    case True
    with Cons is_installed_iff [OF Cons.prems(2), of key] show ?thesis by auto
  qed
qed auto

lemma desired_routes_keys: "set (keys_of (desired_routes nhs)) = nhKey ` set nhs" "map_ok (desired_routes nhs)"
proof -
  have "dom (map_of (foldl (\<lambda>d nh. AList.update (nhKey nh) nh d) d nhs)) = dom (map_of d) \<union> nhKey ` set nhs"
    for d :: "(string, nexthop) gomap" by (induction nhs arbitrary: d) auto
  then show "set (keys_of (desired_routes nhs)) = nhKey ` set nhs"
    by (simp add: set_keys_of desired_routes_def)
  have "map_ok d \<Longrightarrow> map_ok (foldl (\<lambda>d nh. AList.update (nhKey nh) nh d) d nhs)"
    for d :: "(string, nexthop) gomap" by (induction nhs arbitrary: d) simp_all
  then show "map_ok (desired_routes nhs)" by (simp add: desired_routes_def)
qed

lemma installed_NewVtysh:
  "installed_set (NewVtyshRouteManager nhs) = nhKey ` set nhs" "installed_ok (NewVtyshRouteManager nhs)"
proof -
  have "dom (map_of (foldl (\<lambda>m nh. AList.update (nhKey nh) True m) m nhs)) = dom (map_of m) \<union> nhKey ` set nhs"
    for m by (induction nhs arbitrary: m) auto
  then show "installed_set (NewVtyshRouteManager nhs) = nhKey ` set nhs"
    by (simp add: installed_set_def NewVtyshRouteManager_def)
  have "map_ok m \<and> (\<forall>k. map_of m k \<noteq> Some False) \<Longrightarrow>
      map_ok (foldl (\<lambda>m nh. AList.update (nhKey nh) True m) m nhs) \<and>
      (\<forall>k. map_of (foldl (\<lambda>m nh. AList.update (nhKey nh) True m) m nhs) k \<noteq> Some False)"
    for m by (induction nhs arbitrary: m) auto
  from this [of "[]"] show "installed_ok (NewVtyshRouteManager nhs)"
    by (simp add: installed_ok_def NewVtyshRouteManager_def)
qed

text \<open>The two phases together.\<close>

lemma vtysh_replace_spec:
  assumes "vtysh_ReplaceECMPRoute its nhs (m, s) = (e, m', s')" "installed_ok m" "good_orders its"
  shows "installed_ok m' \<and> vm_RunCmd m' = vm_RunCmd m \<and>
    (e = None \<longrightarrow> installed_set m' = nhKey ` set nhs) \<and>
    installed_set m \<inter> nhKey ` set nhs \<subseteq> installed_set m' \<and>
    installed_set m' \<subseteq> installed_set m \<union> nhKey ` set nhs \<and>
    (vtysh_law table (runner m) \<and> table s = installed_set m \<longrightarrow> table s' = installed_set m') \<and>
    (e = None \<and> vm_RunCmd m = None \<longrightarrow> (\<exists>dels adds.
       cmds s' = cmds s @ map (\<lambda>k. vtysh_args (del_cmd k)) dels @ map (\<lambda>k. vtysh_args (add_cmd k)) adds \<and>
       distinct dels \<and> set dels = installed_set m - nhKey ` set nhs \<and>
       distinct adds \<and> set adds = nhKey ` set nhs - installed_set m))"
proof -
  let ?d = "desired_routes nhs" and ?dels = "its 0 (keys_of (vm_installed m))"
    and ?adds = "its 1 (keys_of (desired_routes nhs))"
  have dom_d: "dom (map_of ?d) = nhKey ` set nhs" using desired_routes_keys(1) by (simp add: set_keys_of)
  have none: "map_of ?d k = None \<longleftrightarrow> k \<notin> nhKey ` set nhs" for k
    unfolding dom_d [symmetric] by (simp add: domIff)
  have dels: "set ?dels = installed_set m" "distinct ?dels"
    using assms(2,3) by (simp_all add: set_keys_of installed_set_def installed_ok_def map_ok_def)
  have adds: "set ?adds = nhKey ` set nhs" "distinct ?adds"
    using assms(3) desired_routes_keys [of nhs] by (simp_all add: map_ok_def)
  obtain e1 m1 s1 where r: "remove_routes ?d ?dels (m, s) = (e1, m1, s1)"
    by (cases "remove_routes ?d ?dels (m, s)")
  note R = remove_routes_spec [OF r assms(2), of table]
  show ?thesis
  proof (cases e1)
    case (Some x)
    then have "e = e1" "m' = m1" "s' = s1"
      using assms(1) r by (simp_all add: vtysh_ReplaceECMPRoute_def Let_def)
    with R Some show ?thesis unfolding dom_d by auto
  next
    case None
    then have a: "add_routes ?adds (m1, s1) = (e, m', s')"
      using assms(1) r by (simp add: vtysh_ReplaceECMPRoute_def Let_def)
    have i1: "installed_set m1 = installed_set m \<inter> nhKey ` set nhs"
      using R None dels(1) by (auto simp: none)
    from R have ok1: "installed_ok m1" and r1: "vm_RunCmd m1 = vm_RunCmd m" "runner m1 = runner m"
      by (simp_all add: runner_def)
    note A = add_routes_spec [OF a ok1 adds(2), of table]
    have log: "\<exists>dels adds.
       cmds s' = cmds s @ map (\<lambda>k. vtysh_args (del_cmd k)) dels @ map (\<lambda>k. vtysh_args (add_cmd k)) adds \<and>
       distinct dels \<and> set dels = installed_set m - nhKey ` set nhs \<and>
       distinct adds \<and> set adds = nhKey ` set nhs - installed_set m" if "e = None" "vm_RunCmd m = None"
    proof (intro exI conjI)
      show "cmds s' = cmds s @ map (\<lambda>k. vtysh_args (del_cmd k)) (filter (\<lambda>k. map_of ?d k = None) ?dels) @
          map (\<lambda>k. vtysh_args (add_cmd k)) (filter (\<lambda>k. k \<notin> installed_set m1) ?adds)"
        using A R None that r1 by simp
    qed (use dels adds i1 in \<open>auto simp: none\<close>)
    have law: "vtysh_law table (runner m) \<and> table s = installed_set m \<longrightarrow> table s' = installed_set m'"
      using A R r1 by simp
    have exact: "e = None \<longrightarrow> installed_set m' = nhKey ` set nhs"
      using A i1 adds(1) by blast
    have "installed_set m \<inter> nhKey ` set nhs \<subseteq> installed_set m'"
      "installed_set m' \<subseteq> installed_set m \<union> nhKey ` set nhs"
      using A i1 adds(1) by blast+
    moreover have "installed_ok m'" "vm_RunCmd m' = vm_RunCmd m"
      using A r1 by simp_all
    ultimately show ?thesis
      using law exact log by blast
  qed
qed

section \<open>A replacement by what is installed\<close>

lemma remove_routes_nop: "\<forall>k \<in> set keys. map_of d k \<noteq> None \<Longrightarrow> remove_routes d keys (m, s) = (None, m, s)"
  by (induction keys) auto

lemma add_routes_nop: "\<forall>k \<in> set keys. is_installed m k \<Longrightarrow> add_routes keys (m, s) = (None, m, s)"
  by (induction keys) auto

lemma replace_nop:
  assumes "installed_ok m" "installed_set m = nhKey ` set nhs" "good_orders its"
  shows "vtysh_ReplaceECMPRoute its nhs (m, s) = (None, m, s)"
proof -
  have "set (its 1 (keys_of (desired_routes nhs))) = installed_set m"
    "set (its 0 (keys_of (vm_installed m))) = dom (map_of (desired_routes nhs))"
    using assms desired_routes_keys(1) [of nhs] by (simp_all add: set_keys_of installed_set_def)
  then show ?thesis
    using is_installed_iff [OF assms(1)]
    by (simp add: vtysh_ReplaceECMPRoute_def Let_def remove_routes_nop add_routes_nop domIff)
qed

lemma add_all_rules_nop: "add_all_rules vtysh_ops ns c = (None, c)"
  by (induction ns arbitrary: c) (simp_all add: vtysh_ops_def vtysh_AddPBRRule_def)

lemma InstallInitialRoutes_nop:
  assumes "c_routes c = (m, s)" "installed_ok m" "installed_set m = wanted_routes c" "good_orders its"
  shows "InstallInitialRoutes vtysh_ops its c = (None, c)"
proof -
  have "ro_Replace vtysh_ops its (active_nexthops its c) (m, s) = (None, m, s)"
    using replace_nop [OF assms(2) _ assms(4), of "active_nexthops its c"] assms(3)
    by (simp add: vtysh_ops_def active_nexthops_keys [OF assms(4)])
  then show ?thesis
    using assms(1) by (simp add: InstallInitialRoutes_def updateECMP_def add_all_rules_nop)
qed

section \<open>The contract of the interface\<close>

text \<open>The routes are those of FRR, in a manager that tracks them; \<open>table\<close> reads FRR's default
  routes off the machine.\<close>

definition tracks :: "(os \<Rightarrow> string set) \<Rightarrow> vtysh_manager \<times> os \<Rightarrow> bool" where
  "tracks table ms \<longleftrightarrow> installed_ok (fst ms) \<and> vtysh_law table (runner (fst ms)) \<and>
     table (snd ms) = installed_set (fst ms)"

lemma vtysh_replace_tracks:
  assumes "tracks table ms" "good_orders its" "vtysh_ReplaceECMPRoute its nhs ms = (e, ms')"
  shows "tracks table ms' \<and> (e = None \<longrightarrow> table (snd ms') = nhKey ` set nhs) \<and>
    table (snd ms) \<inter> nhKey ` set nhs \<subseteq> table (snd ms') \<and> table (snd ms') \<subseteq> table (snd ms) \<union> nhKey ` set nhs"
proof -
  obtain m s m' s' where ms: "ms = (m, s)" "ms' = (m', s')" by fastforce
  have t: "installed_ok m" "vtysh_law table (runner m)" "table s = installed_set m"
    using assms(1) by (simp_all add: tracks_def ms)
  note S = vtysh_replace_spec [OF assms(3) [unfolded ms] t(1) assms(2), of table]
  then have "runner m' = runner m" "table s' = installed_set m'" using t by (simp_all add: runner_def)
  with S t show ?thesis by (simp add: tracks_def ms)
qed

interpretation frr: route_manager vtysh_ops "\<lambda>ms. table (snd ms)" "tracks table" for table
proof unfold_locales
  show "table (snd m') = nhKey ` set nhs"
    if "tracks table m" "good_orders its" "ro_Replace vtysh_ops its nhs m = (None, m')" for m its nhs m'
    using vtysh_replace_tracks [of table m its nhs None m'] that by (simp add: vtysh_ops_def)
  show "table (snd m) \<inter> nhKey ` set nhs \<subseteq> table (snd m') \<and> table (snd m') \<subseteq> table (snd m) \<union> nhKey ` set nhs"
    if "tracks table m" "good_orders its" "ro_Replace vtysh_ops its nhs m = (Some e, m')" for m its nhs e m'
    using vtysh_replace_tracks [of table m its nhs "Some e" m'] that by (simp add: vtysh_ops_def)
  show "tracks table (snd (ro_Replace vtysh_ops its nhs m))"
    if "tracks table m" "good_orders its" for m its nhs
    using vtysh_replace_tracks [OF that, of nhs "fst (vtysh_ReplaceECMPRoute its nhs m)"]
    by (simp add: vtysh_ops_def)
qed (simp_all add: vtysh_ops_def vtysh_AddPBRRule_def vtysh_DelPBRRule_def)

section \<open>Properties\<close>

text \<open>C7. Replacing the default routes heals any difference: when the call returns nil, the routes
  tracked and the routes FRR has are exactly the wanted next hops, whatever was installed before and
  in whatever order Go visits its maps; when it fails, what is tracked is still what FRR has, and no
  wanted route was removed and no unwanted one added.\<close>

theorem vtysh_replace_heals:
  assumes "vtysh_law table (runner m)" "table s = installed_set m" "installed_ok m" "good_orders its"
    and "vtysh_ReplaceECMPRoute its nhs (m, s) = (e, m', s')"
  shows "table s' = installed_set m' \<and> (e = None \<longrightarrow> table s' = nhKey ` set nhs) \<and>
    table s \<inter> nhKey ` set nhs \<subseteq> table s' \<and> table s' \<subseteq> table s \<union> nhKey ` set nhs"
proof -
  have "tracks table (m, s)" using assms(1-3) by (simp add: tracks_def)
  from vtysh_replace_tracks [OF this assms(4,5)] show ?thesis
    unfolding tracks_def fst_conv snd_conv by blast
qed

text \<open>A shell that keeps its routes in the log: the commands that succeeded, replayed.\<close>

definition replay :: "string set \<Rightarrow> os \<Rightarrow> string set" where
  "replay start s = foldl (\<lambda>t i.
     let c = last (cmds s ! i); ok = fst (answer s (take (Suc i) (cmds s))) in
     if \<not> ok then t
     else if starts_with ''no '' c then t - {drop (length (del_cmd [])) c}
     else insert (drop (length (add_cmd [])) c) t) start [0..<length (cmds s)]"

lemma replay_step:
  "replay start (s\<lparr>cmds := cmds s @ [c]\<rparr>) =
     (if \<not> fst (answer s (cmds s @ [c])) then replay start s
      else if starts_with ''no '' (last c) then replay start s - {drop (length (del_cmd [])) (last c)}
      else insert (drop (length (add_cmd [])) (last c)) (replay start s))"
proof -
  have "foldl (\<lambda>t i. let d = last ((cs @ [c]) ! i); ok = fst (f (take (Suc i) (cs @ [c]))) in
         if \<not> ok then t else if starts_with ''no '' d then t - {drop a d} else insert (drop b d) t) t [0..<n] =
      foldl (\<lambda>t i. let d = last (cs ! i); ok = fst (f (take (Suc i) cs)) in
         if \<not> ok then t else if starts_with ''no '' d then t - {drop a d} else insert (drop b d) t) t [0..<n]"
    if "n \<le> length cs" for cs n t a b and f :: "string list list \<Rightarrow> bool \<times> string"
    using that by (induction n arbitrary: t) (simp_all add: nth_append)
  from this [of "length (cmds s)" "cmds s" "answer s"] show ?thesis
    by (simp add: replay_def Let_def nth_append)
qed

lemma replay_law: "vtysh_law (replay start) exec_vtysh"
  unfolding vtysh_law_def exec_vtysh_def os_Exec_def
  by (auto simp: replay_step add_cmd_def del_cmd_def starts_with_def)

text \<open>Two uplinks, the second one gone: one command, which may fail.\<close>

definition sample_nexthop :: "string \<Rightarrow> nat \<Rightarrow> nexthop" where
  "sample_nexthop d n = \<lparr>nh_Gateway = Some [10, 0, 0, word_of_nat n], nh_Device = d, nh_Weight = 1\<rparr>"

definition sample_machine :: "bool \<Rightarrow> os" where
  "sample_machine ok = \<lparr>nodes = [], faults = (\<lambda>_. None), tick = 0, seen = [], cmds = [],
     answer = (\<lambda>_. (ok, []))\<rparr>"

theorem vtysh_replace_heals_witness:
  "\<exists>m' s'. vtysh_ReplaceECMPRoute (\<lambda>_. id) [sample_nexthop ''eth0'' 1]
       (NewVtyshRouteManager [], sample_machine True) = (None, m', s') \<and> replay {} s' = {''10.0.0.1 eth0''}"
proof -
  let ?m = "NewVtyshRouteManager []" and ?s = "sample_machine True" and ?n = "sample_nexthop ''eth0'' 1"
  obtain e m' s' where r: "vtysh_ReplaceECMPRoute (\<lambda>_. id) [?n] (?m, ?s) = (e, m', s')"
    by (metis prod_cases3)
  have law: "vtysh_law (replay {}) (runner ?m)" by (simp add: replay_law runner_def NewVtyshRouteManager_def)
  have t: "replay {} ?s = installed_set ?m" by (simp add: replay_def sample_machine_def installed_NewVtysh)
  have "e = fst (vtysh_ReplaceECMPRoute (\<lambda>_. id) [?n] (?m, ?s))" using r by simp
  also have "\<dots> = None"
    by (simp add: vtysh_ReplaceECMPRoute_def Let_def desired_routes_def NewVtyshRouteManager_def is_installed_def
        vtyshConfigure_def runner_def exec_vtysh_def os_Exec_def sample_machine_def)
  finally have "e = None" .
  moreover have "nhKey ` set [?n] = {''10.0.0.1 eth0''}" by (simp, code_simp)
  ultimately show ?thesis
    using vtysh_replace_heals [OF law t installed_NewVtysh(2) good_orders_id r] r by auto
qed

text \<open>C34. A successful replacement runs the fewest commands: one removal per tracked route that is no
  longer wanted, then one addition per wanted route that is not tracked. In particular the first
  call after start-up, with the routes of frr.conf wanted, runs none.\<close>

theorem vtysh_replace_minimal:
  assumes "vtysh_ReplaceECMPRoute its nhs (m, s) = (None, m', s')" "vm_RunCmd m = None" "installed_ok m"
    and "good_orders its"
  shows "\<exists>dels adds.
    cmds s' = cmds s @ map (\<lambda>k. vtysh_args (del_cmd k)) dels @ map (\<lambda>k. vtysh_args (add_cmd k)) adds \<and>
    distinct dels \<and> set dels = installed_set m - nhKey ` set nhs \<and>
    distinct adds \<and> set adds = nhKey ` set nhs - installed_set m"
  using vtysh_replace_spec [OF assms(1,3,4)] assms(2) by blast

theorem vtysh_replace_minimal_witness:
  "cmds (snd (snd (vtysh_ReplaceECMPRoute (\<lambda>_. id) [sample_nexthop ''eth1'' 2]
     (NewVtyshRouteManager [sample_nexthop ''eth1'' 2], sample_machine True)))) = []"
proof -
  let ?n = "sample_nexthop ''eth1'' 2"
  let ?m = "NewVtyshRouteManager [?n]" and ?s = "sample_machine True"
  obtain e m' s' where r: "vtysh_ReplaceECMPRoute (\<lambda>_. id) [?n] (?m, ?s) = (e, m', s')"
    by (metis prod_cases3)
  have "e = fst (vtysh_ReplaceECMPRoute (\<lambda>_. id) [?n] (?m, ?s))" using r by simp
  also have "\<dots> = None"
    by (simp add: vtysh_ReplaceECMPRoute_def Let_def desired_routes_def NewVtyshRouteManager_def is_installed_def)
  finally have "vtysh_ReplaceECMPRoute (\<lambda>_. id) [?n] (?m, ?s) = (None, m', s')" using r by simp
  moreover have run: "vm_RunCmd ?m = None" and i: "installed_set ?m = nhKey ` set [?n]" and c: "cmds ?s = []"
    by (simp_all only: installed_NewVtysh) (simp_all add: NewVtyshRouteManager_def sample_machine_def)
  ultimately obtain dels adds where "cmds s' = cmds ?s @ map (\<lambda>k. vtysh_args (del_cmd k)) dels @
      map (\<lambda>k. vtysh_args (add_cmd k)) adds" "set dels = {}" "set adds = {}"
    using vtysh_replace_minimal [of "\<lambda>_. id" "[?n]" ?m ?s m' s', OF _ run installed_NewVtysh(2) good_orders_id]
    unfolding i by auto
  then show ?thesis using r c by simp
qed

end
