(* ===== verification/Netlink.thy ===== *)
theory Netlink
  imports Routes
begin

text \<open>
  \<^verbatim>\<open>internal/failover/netlink.go\<close>: the route manager that talks to the kernel through the package
  \<^verbatim>\<open>vishvananda/netlink\<close>. The package is not part of the repository: its functions are fields of a
  record, on a kernel state of any type, and what the code relies on is the predicate \<open>netlink_law\<close>. Under
  it this manager, too, meets the contract \<^const>\<open>route_manager\<close>.
\<close>

section \<open>The package\<close>

record nexthop_info =
  ni_LinkIndex :: int
  ni_Hops :: int
  ni_Gw :: "ip option"

record nl_route =
  rt_Dst :: "ipnet option"
  rt_MultiPath :: "nexthop_info list"

record nl_rule =
  rl_Priority :: int
  rl_Src :: "ipnet option"
  rl_Table :: int

record 'k netlink_lib =
  nl_LinkByName :: "string \<Rightarrow> 'k \<Rightarrow> string + int"
  nl_RouteDel :: "nl_route \<Rightarrow> 'k \<Rightarrow> string option \<times> 'k"
  nl_RouteReplace :: "nl_route \<Rightarrow> 'k \<Rightarrow> string option \<times> 'k"
  nl_NewRule :: nl_rule
  nl_RuleAdd :: "nl_rule \<Rightarrow> 'k \<Rightarrow> string option \<times> 'k"
  nl_RuleDel :: "nl_rule \<Rightarrow> 'k \<Rightarrow> string option \<times> 'k"

section \<open>Operations\<close>

definition default_dst :: "ipnet option" where
  "default_dst = map_option snd (ParseCIDR ''0.0.0.0/0'')"

text \<open>\<^verbatim>\<open>Weight - 1\<close> is Go's 64-bit subtraction.\<close>

fun nexthop_infos :: "'k netlink_lib \<Rightarrow> nexthop list \<Rightarrow> 'k \<Rightarrow> string + nexthop_info list" where
  "nexthop_infos lib [] k = Inr []"
| "nexthop_infos lib (nh # nhs) k =
     (case (if nh_Device nh \<noteq> [] then nl_LinkByName lib (nh_Device nh) k else Inr 0) of
        Inl e \<Rightarrow> Inl (''link '' @ nh_Device nh @ '': '' @ e)
      | Inr linkIdx \<Rightarrow>
          (case nexthop_infos lib nhs k of
             Inl e \<Rightarrow> Inl e
           | Inr nis \<Rightarrow> Inr (\<lparr>ni_LinkIndex = linkIdx, ni_Hops = wrap64 (nh_Weight nh - 1), ni_Gw = nh_Gateway nh\<rparr> # nis)))"

definition nl_ReplaceECMPRoute :: "'k netlink_lib \<Rightarrow> orders \<Rightarrow> nexthop list \<Rightarrow> 'k \<Rightarrow> string option \<times> 'k" where
  "nl_ReplaceECMPRoute lib its nexthops k =
     (if nexthops = [] then nl_RouteDel lib \<lparr>rt_Dst = default_dst, rt_MultiPath = []\<rparr> k
      else case nexthop_infos lib nexthops k of
          Inl e \<Rightarrow> (Some e, k)
        | Inr nis \<Rightarrow> nl_RouteReplace lib \<lparr>rt_Dst = default_dst, rt_MultiPath = nis\<rparr> k)"

definition pbr_nl_rule :: "'k netlink_lib \<Rightarrow> route_pbr \<Rightarrow> nl_rule" where
  "pbr_nl_rule lib rule = (nl_NewRule lib)\<lparr>rl_Priority := rp_Priority rule, rl_Src := Some (rp_Source rule),
     rl_Table := wrap64 (100 + rp_Priority rule)\<rparr>"

definition nl_AddPBRRule :: "'k netlink_lib \<Rightarrow> route_pbr \<Rightarrow> 'k \<Rightarrow> string option \<times> 'k" where
  "nl_AddPBRRule lib rule k = nl_RuleAdd lib (pbr_nl_rule lib rule) k"

definition nl_DelPBRRule :: "'k netlink_lib \<Rightarrow> route_pbr \<Rightarrow> 'k \<Rightarrow> string option \<times> 'k" where
  "nl_DelPBRRule lib rule k = nl_RuleDel lib (pbr_nl_rule lib rule) k"

definition netlink_ops :: "'k netlink_lib \<Rightarrow> 'k route_ops" where
  "netlink_ops lib = \<lparr>ro_Replace = nl_ReplaceECMPRoute lib, ro_AddPBR = nl_AddPBRRule lib, ro_DelPBR = nl_DelPBRRule lib\<rparr>"

section \<open>The contract\<close>

text \<open>What the code relies on. \<open>dflt\<close> reads the next hops of the default route, \<open>link\<close> the name of a link
  index, which names the link that \<^verbatim>\<open>LinkByName\<close> found; index 0 stands for no device. Replacing or deleting
  a route either does exactly that or fails and changes nothing, and the calls on rules leave the routes
  and links alone.\<close>

definition netlink_law :: "'k netlink_lib \<Rightarrow> ('k \<Rightarrow> nexthop_info list) \<Rightarrow> (int \<Rightarrow> string) \<Rightarrow> bool" where
  "netlink_law lib dflt link \<longleftrightarrow> link 0 = [] \<and>
     (\<forall>n k i. nl_LinkByName lib n k = Inr i \<longrightarrow> link i = n) \<and>
     (\<forall>r k e k'. rt_Dst r = default_dst \<longrightarrow> nl_RouteDel lib r k = (e, k') \<longrightarrow>
        dflt k' = (if e = None then [] else dflt k)) \<and>
     (\<forall>r k e k'. rt_Dst r = default_dst \<longrightarrow> nl_RouteReplace lib r k = (e, k') \<longrightarrow>
        dflt k' = (if e = None then rt_MultiPath r else dflt k)) \<and>
     (\<forall>r k. dflt (snd (nl_RuleAdd lib r k)) = dflt k \<and> dflt (snd (nl_RuleDel lib r k)) = dflt k)"

text \<open>The keys of the routes that the kernel has, as the controller names them.\<close>

definition route_keys :: "('k \<Rightarrow> nexthop_info list) \<Rightarrow> (int \<Rightarrow> string) \<Rightarrow> 'k \<Rightarrow> string set" where
  "route_keys dflt link k = (\<lambda>ni. IP_String (ni_Gw ni) @ '' '' @ link (ni_LinkIndex ni)) ` set (dflt k)"

lemma nexthop_infos_keys:
  "netlink_law lib dflt link \<Longrightarrow> nexthop_infos lib nhs k = Inr nis \<Longrightarrow>
   (\<lambda>ni. IP_String (ni_Gw ni) @ '' '' @ link (ni_LinkIndex ni)) ` set nis = nhKey ` set nhs"
proof (induction nhs arbitrary: nis)
  case (Cons nh nhs)
  from Cons.prems(2) obtain i nis' where i: "(if nh_Device nh \<noteq> [] then nl_LinkByName lib (nh_Device nh) k else Inr 0) = Inr i"
    and n: "nexthop_infos lib nhs k = Inr nis'"
    and e: "nis = \<lparr>ni_LinkIndex = i, ni_Hops = wrap64 (nh_Weight nh - 1), ni_Gw = nh_Gateway nh\<rparr> # nis'"
    by (auto split: sum.splits)
  have "link i = nh_Device nh" using i Cons.prems(1) by (auto simp: netlink_law_def split: if_splits)
  with Cons.IH [OF Cons.prems(1) n] e show ?case by (simp add: nhKey_def)
qed simp

lemma nl_replace_spec:
  assumes law: "netlink_law lib dflt link" and r: "nl_ReplaceECMPRoute lib its nhs k = (e, k')"
  shows "route_keys dflt link k' = (if e = None then nhKey ` set nhs else route_keys dflt link k)"
proof (cases "nhs = []")
  case True
  with r have "nl_RouteDel lib \<lparr>rt_Dst = default_dst, rt_MultiPath = []\<rparr> k = (e, k')" by (simp add: nl_ReplaceECMPRoute_def)
  moreover have "dflt k'' = (if e' = None then [] else dflt k)"
    if "nl_RouteDel lib \<lparr>rt_Dst = default_dst, rt_MultiPath = []\<rparr> k = (e', k'')" for e' k''
    using law that unfolding netlink_law_def by (metis nl_route.select_convs(1))
  ultimately show ?thesis using True by (simp add: route_keys_def)
next
  case False
  show ?thesis
  proof (cases "nexthop_infos lib nhs k")
    case (Inl x)
    with r False show ?thesis by (auto simp: nl_ReplaceECMPRoute_def)
  next
    case (Inr nis)
    with r False have c: "nl_RouteReplace lib \<lparr>rt_Dst = default_dst, rt_MultiPath = nis\<rparr> k = (e, k')"
      by (simp add: nl_ReplaceECMPRoute_def)
    have "dflt k' = (if e = None then nis else dflt k)"
      using law c unfolding netlink_law_def by (metis nl_route.select_convs)
    then show ?thesis using nexthop_infos_keys [OF law Inr] by (simp add: route_keys_def)
  qed
qed

interpretation nl: route_manager "netlink_ops lib" "route_keys dflt link" "\<lambda>_. netlink_law lib dflt link"
  for lib :: "'k netlink_lib" and dflt link
proof unfold_locales
  show "route_keys dflt link k' = nhKey ` set nhs"
    if "netlink_law lib dflt link" "ro_Replace (netlink_ops lib) its nhs k = (None, k')" for k its nhs k'
    using nl_replace_spec [OF that(1), of its nhs k None k'] that(2) by (simp add: netlink_ops_def)
  show "route_keys dflt link k \<inter> nhKey ` set nhs \<subseteq> route_keys dflt link k' \<and>
      route_keys dflt link k' \<subseteq> route_keys dflt link k \<union> nhKey ` set nhs"
    if "netlink_law lib dflt link" "ro_Replace (netlink_ops lib) its nhs k = (Some e, k')" for k its nhs e k'
    using nl_replace_spec [OF that(1), of its nhs k "Some e" k'] that(2) by (simp add: netlink_ops_def)
qed (simp_all add: netlink_ops_def nl_AddPBRRule_def nl_DelPBRRule_def netlink_law_def route_keys_def)

section \<open>Properties\<close>

text \<open>A kernel with two links, whose default route can be replaced unless it is told to refuse.\<close>

definition toy_lib :: "(nexthop_info list \<times> bool) netlink_lib" where
  "toy_lib =
     \<lparr>nl_LinkByName = (\<lambda>n k. if n = ''eth0'' then Inr 2 else if n = ''eth1'' then Inr 3 else Inl ''Link not found''),
      nl_RouteDel = (\<lambda>r k. if snd k then (Some ''busy'', k) else (None, ([], snd k))),
      nl_RouteReplace = (\<lambda>r k. if snd k then (Some ''busy'', k) else (None, (rt_MultiPath r, snd k))),
      nl_NewRule = \<lparr>rl_Priority = - 1, rl_Src = None, rl_Table = 0\<rparr>,
      nl_RuleAdd = (\<lambda>r k. (None, k)), nl_RuleDel = (\<lambda>r k. (None, k))\<rparr>"

definition toy_link :: "int \<Rightarrow> string" where
  "toy_link i = (if i = 2 then ''eth0'' else if i = 3 then ''eth1'' else [])"

lemma toy_law: "netlink_law toy_lib fst toy_link"
  by (auto simp: netlink_law_def toy_lib_def toy_link_def split: if_splits)



end
