(* ===== verification/Monitor.thy ===== *)
theory Monitor
  imports Vtysh Validate Samples
begin

text \<open>
  The failover daemon, \<^verbatim>\<open>cmdMonitor\<close> in \<^verbatim>\<open>cmd/warp/main.go\<close>: one prober goroutine per
  uplink, which reports a change of status to the controller after it has released the prober's
  lock. Between the two, other goroutines run: the daemon is a step relation whose steps are the
  probes and the deliveries of callbacks, in any interleaving, with any ping results and any
  behaviour of \<^verbatim>\<open>vtysh\<close>.
\<close>

section \<open>Start-up\<close>

text \<open>\<^verbatim>\<open>time.Duration(n) * time.Second\<close>.\<close>

definition seconds :: "int \<Rightarrow> int" where
  "seconds n = wrap64 (n * 1000000000)"

definition probe_config_of :: "interface \<Rightarrow> probe_config" where
  "probe_config_of f =
     (let pc = \<lparr>pc_Name = if_Name f, pc_Target = if_Gateway f, pc_Interval = 0, pc_Timeout = 0, pc_Failures = 0\<rparr>
      in case if_HealthCheck f of
           None \<Rightarrow> pc
         | Some h \<Rightarrow> pc
             \<lparr>pc_Target := if hc_Target h \<noteq> [] then hc_Target h else if_Gateway f,
              pc_Interval := if hc_Interval h > 0 then seconds (hc_Interval h) else 0,
              pc_Timeout := if hc_Timeout h > 0 then seconds (hc_Timeout h) else 0,
              pc_Failures := if hc_Failures h > 0 then hc_Failures h else 0\<rparr>)"

definition initial_nexthop :: "interface \<Rightarrow> nexthop" where
  "initial_nexthop f = \<lparr>nh_Gateway = ParseIP (if_Gateway f), nh_Device = if_Device f, nh_Weight = 1\<rparr>"

definition monitored :: "site_config \<Rightarrow> interface list" where
  "monitored cfg = filter (\<lambda>f. \<not> (\<not> is_wan f \<or> if_Gateway f = [])) (Interfaces cfg)"

definition probeConfigs :: "site_config \<Rightarrow> probe_config list" where
  "probeConfigs cfg = map probe_config_of (monitored cfg)"

definition initialRoutes :: "site_config \<Rightarrow> nexthop list" where
  "initialRoutes cfg = map initial_nexthop (monitored cfg)"

text \<open>\<^verbatim>\<open>PingFunc\<close> of the daemon: the system's ping command, with the timeout in whole seconds
  and at least one.\<close>

definition system_ping :: "int \<Rightarrow> int \<Rightarrow> string \<Rightarrow> int \<Rightarrow> os \<Rightarrow> ping_result \<times> os" where
  "system_ping start finish target timeout s =
     (let secs = timeout div 1000000000;
          secs = (if secs < 1 then 1 else secs)
      in case os_Exec [''ping'', ''-c'', ''1'', ''-W'', itoa secs, target] s of
           ((ok, out), s') \<Rightarrow> (if \<not> ok then Inl out else Inr (finish - start), s'))"

datatype monitor_error = LoadFailed load_error | ValidationFailed "config_error list" | NothingToMonitor
  | InitialRoutesFailed string

text \<open>The daemon: the prober, the controller on top of the \<^verbatim>\<open>vtysh\<close> manager, and per uplink the
  callback that its goroutine has still to make.\<close>

record monitor =
  mo_prober :: prober
  mo_ctrl :: "(vtysh_manager \<times> os) controller"
  mo_pending :: "(string, status \<times> status) gomap"

definition start_monitor :: "orders \<Rightarrow> site_config \<Rightarrow> os \<Rightarrow> monitor_error + monitor" where
  "start_monitor its cfg s =
     (if length (probeConfigs cfg) = 0 then Inl NothingToMonitor
      else let routes = NewVtyshRouteManager (initialRoutes cfg);
               prober = NewProber\<lparr>pr_Notify := True\<rparr>;
               ctrl = NewController cfg (routes, s)
        in case InstallInitialRoutes vtysh_ops its ctrl of
             (Some e, _) \<Rightarrow> Inl (InitialRoutesFailed e)
           | (None, ctrl') \<Rightarrow>
               Inr \<lparr>mo_prober = Start (probeConfigs cfg) prober, mo_ctrl = ctrl', mo_pending = []\<rparr>)"

definition cmdMonitor :: "yaml_decoder \<Rightarrow> orders \<Rightarrow> string \<Rightarrow> os \<Rightarrow> monitor_error + monitor" where
  "cmdMonitor decode its path s =
     (case LoadFile decode path s of
        (Inl e, _) \<Rightarrow> Inl (LoadFailed e)
      | (Inr cfg, s') \<Rightarrow>
          (if length (Validate cfg) > 0 then Inl (ValidationFailed (Validate cfg))
           else start_monitor its cfg s'))"

section \<open>Steps\<close>

definition after_probe :: "monitor \<Rightarrow> prober \<Rightarrow> callback option \<Rightarrow> monitor" where
  "after_probe m p cb = m\<lparr>mo_prober := p,
     mo_pending := (case cb of None \<Rightarrow> mo_pending m | Some (n, old, new) \<Rightarrow> AList.update n (old, new) (mo_pending m))\<rparr>"

definition after_callback :: "orders \<Rightarrow> monitor \<Rightarrow> string \<Rightarrow> status \<times> status \<Rightarrow> monitor" where
  "after_callback its m n ch = m
     \<lparr>mo_ctrl := HandleStateChange vtysh_ops its n (fst ch) (snd ch) (mo_ctrl m),
      mo_pending := AList.delete n (mo_pending m)\<rparr>"

inductive mstep :: "probe_config list \<Rightarrow> monitor \<Rightarrow> monitor \<Rightarrow> bool" for cfgs where
  probe: "cfg \<in> set cfgs \<Longrightarrow> map_of (mo_pending m) (pc_Name cfg) = None \<Longrightarrow>
    doPing (probe_defaults cfg) now1 now2 r (mo_prober m) = Some (p, cb) \<Longrightarrow>
    mstep cfgs m (after_probe m p cb)"
| deliver: "map_of (mo_pending m) n = Some ch \<Longrightarrow> good_orders its \<Longrightarrow>
    mstep cfgs m (after_callback its m n ch)"

text \<open>Runs, with the number of their steps.\<close>

inductive mrun :: "probe_config list \<Rightarrow> nat \<Rightarrow> monitor \<Rightarrow> monitor \<Rightarrow> bool" for cfgs where
  stop: "mrun cfgs 0 m m"
| more: "mrun cfgs k m m' \<Longrightarrow> mstep cfgs m' m'' \<Longrightarrow> mrun cfgs (Suc k) m m''"

inductive_cases mstepE: "mstep cfgs m m'"

section \<open>The invariant\<close>

definition status_at :: "monitor \<Rightarrow> string \<Rightarrow> status" where
  "status_at m n = us_Status (the (map_of (pr_states (mo_prober m)) n))"

definition no_failure :: "monitor \<Rightarrow> bool" where
  "no_failure m \<longleftrightarrow> (\<forall>e \<in> set (c_log (mo_ctrl m)). \<forall>n. \<not> ecmp_failure n e)"

definition probe_ok :: "probe_config \<Rightarrow> nat \<Rightarrow> uplink_state \<Rightarrow> bool" where
  "probe_ok cfg k st \<longleftrightarrow> 0 \<le> us_ConsecutiveFails st \<and> us_ConsecutiveFails st \<le> int k \<and>
     (us_Status st = StatusDown \<longleftrightarrow> us_ConsecutiveFails st \<ge> pc_Failures (probe_defaults cfg))"

text \<open>What the controller must have seen of an uplink: its status before the callback on its way.\<close>

definition reported :: "monitor \<Rightarrow> string \<Rightarrow> status" where
  "reported m n = (case map_of (mo_pending m) n of None \<Rightarrow> status_at m n | Some (old, new) \<Rightarrow> old)"

definition pending_ok :: "monitor \<Rightarrow> bool" where
  "pending_ok m \<longleftrightarrow> (\<forall>n old new. map_of (mo_pending m) n = Some (old, new) \<longrightarrow>
     new = status_at m n \<and> old \<noteq> new \<and> (old = StatusDown \<longrightarrow> new = StatusHealthy))"

definition mon_inv :: "(os \<Rightarrow> string set) \<Rightarrow> site_config \<Rightarrow> nat \<Rightarrow> monitor \<Rightarrow> bool" where
  "mon_inv table cfg k m \<longleftrightarrow>
     tracks table (c_routes (mo_ctrl m)) \<and> c_uplinks (mo_ctrl m) = index_uplinks cfg \<and>
     pr_Notify (mo_prober m) \<and> pending_ok m \<and>
     (\<forall>c \<in> set (probeConfigs cfg). \<exists>st. map_of (pr_states (mo_prober m)) (pc_Name c) = Some st \<and> probe_ok c k st) \<and>
     dom (map_of (mo_pending m)) \<subseteq> pc_Name ` set (probeConfigs cfg) \<and>
     (no_failure m \<longrightarrow>
        table (snd (c_routes (mo_ctrl m))) = wanted_routes (mo_ctrl m) \<and>
        (\<forall>c \<in> set (probeConfigs cfg). is_active (mo_ctrl m) (pc_Name c) \<longleftrightarrow> reported m (pc_Name c) \<noteq> StatusDown))"

lemma pc_Name_simps [simp]: "pc_Name (probe_config_of f) = if_Name f" "pc_Name (probe_defaults c) = pc_Name c"
  by (simp_all add: probe_config_of_def probe_defaults_def Let_def split: option.split)

lemma names_monitored: "pc_Name ` set (probeConfigs cfg) = if_Name ` set (monitored cfg)"
  by (force simp: probeConfigs_def)

lemma index_uplinks_filter:
  "index_uplinks cfg = foldl (\<lambda>m f. AList.update (if_Name f) (uplink_of f) m) [] (monitored cfg)"
  "initially_active cfg = foldl (\<lambda>m f. AList.update (if_Name f) True m) [] (monitored cfg)"
proof -
  have "foldl (\<lambda>m f. if P f then g m f else m) m fs = foldl g m (filter P fs)" for P and g :: "'a \<Rightarrow> interface \<Rightarrow> 'a" and m fs
    by (induction fs arbitrary: m) simp_all
  then show "index_uplinks cfg = foldl (\<lambda>m f. AList.update (if_Name f) (uplink_of f) m) [] (monitored cfg)"
    "initially_active cfg = foldl (\<lambda>m f. AList.update (if_Name f) True m) [] (monitored cfg)"
    by (simp_all add: index_uplinks_def initially_active_def monitored_def)
qed

lemma index_uplinks_lookup:
  assumes "distinct (map if_Name (monitored cfg))"
  shows "map_of (index_uplinks cfg) n = Some i \<longleftrightarrow> (\<exists>f \<in> set (monitored cfg). if_Name f = n \<and> i = uplink_of f)"
proof -
  have "map_of (foldl (\<lambda>m f. AList.update (if_Name f) (uplink_of f) m) [] fs) n = Some i \<longleftrightarrow>
      (\<exists>f \<in> set fs. if_Name f = n \<and> i = uplink_of f)" if "distinct (map if_Name fs)" for fs
    using that
  proof (induction fs rule: rev_induct)
    case (snoc x xs)
    then have "if_Name f \<noteq> if_Name x" if "f \<in> set xs" for f
      using that by (auto simp: image_iff)
    with snoc show ?case by auto
  qed simp
  then show ?thesis using assms by (simp add: index_uplinks_filter)
qed

lemma initially_active_lookup: "map_of (initially_active cfg) n = Some b \<longleftrightarrow> b \<and> n \<in> if_Name ` set (monitored cfg)"
proof -
  have "map_of (foldl (\<lambda>m f. AList.update (if_Name f) True m) [] fs) n = Some b \<longleftrightarrow> b \<and> n \<in> if_Name ` set fs" for fs
    by (induction fs rule: rev_induct) auto
  then show ?thesis by (simp add: index_uplinks_filter)
qed

lemma uplink_nexthop_initial: "uplink_nexthop (uplink_of f) = initial_nexthop f"
  by (simp add: uplink_nexthop_def uplink_of_def initial_nexthop_def)

lemma wanted_NewController:
  assumes "distinct (map if_Name (monitored cfg))"
  shows "wanted_routes (NewController cfg r) = nhKey ` set (initialRoutes cfg)"
  unfolding wanted_routes_def is_active_def
  by (auto simp: NewController_def index_uplinks_lookup [OF assms] initially_active_lookup
      uplink_nexthop_initial [symmetric] initialRoutes_def)

lemma Start_states:
  assumes "distinct (map pc_Name cfgs)" "c \<in> set cfgs"
  shows "map_of (pr_states (Start cfgs p)) (pc_Name c) = Some (initial_state c)"
proof -
  have "map_of (foldl (\<lambda>m cfg. AList.update (pc_Name cfg) (initial_state cfg) m) m cfgs) (pc_Name c) =
      Some (initial_state c)" for m
    using assms
  proof (induction cfgs rule: rev_induct)
    case (snoc x xs)
    then have "pc_Name x \<noteq> pc_Name c" if "c \<in> set xs"
      using that by (auto simp: image_iff)
    with snoc show ?case by auto
  qed simp
  then show ?thesis by (simp add: Start_def)
qed

lemma valid_monitored_names:
  assumes "Validate cfg = []"
  shows "distinct (map if_Name (monitored cfg))" "distinct (map pc_Name (probeConfigs cfg))"
proof -
  have "distinct (map if_Name (Interfaces cfg))"
    using assms by (simp add: Validate_def valid_iff valid_interfaces_def)
  then show d: "distinct (map if_Name (monitored cfg))"
    unfolding monitored_def by (rule distinct_map_filter)
  have "map pc_Name (probeConfigs cfg) = map if_Name (monitored cfg)"
    by (simp add: probeConfigs_def comp_def)
  with d show "distinct (map pc_Name (probeConfigs cfg))" by simp
qed

lemma probe_ok_count:
  assumes "probe_ok c k st" "k < 2 ^ 63 - 1"
  shows "probe_ok c (Suc k) (count_probe (probe_defaults c) now1 now2 r st)"
    and "us_Status st = StatusDown \<Longrightarrow>
      us_Status (count_probe (probe_defaults c) now1 now2 r st) \<in> {StatusDown, StatusHealthy}"
proof -
  have t: "pc_Failures (probe_defaults c) > 0" by (simp add: probe_defaults_def)
  have "us_ConsecutiveFails st + 1 < 2 ^ 63" using assms by (simp add: probe_ok_def)
  then have w: "wrap64 (us_ConsecutiveFails st + 1) = us_ConsecutiveFails st + 1"
    using assms(1) by (intro wrap64_id) (simp add: int64_range_def probe_ok_def)
  show "probe_ok c (Suc k) (count_probe (probe_defaults c) now1 now2 r st)"
    using assms(1) t w
    by (cases r) (auto simp: probe_ok_def count_probe_def count_failure_def count_success_def Let_def)
  show "us_Status (count_probe (probe_defaults c) now1 now2 r st) \<in> {StatusDown, StatusHealthy}"
    if "us_Status st = StatusDown"
    using that assms(1) t w
    by (cases r) (auto simp: probe_ok_def count_probe_def count_failure_def count_success_def Let_def)
qed

lemma probe_ok_mono: "probe_ok c k st \<Longrightarrow> probe_ok c (Suc k) st"
  by (simp add: probe_ok_def)

lemma start_inv:
  assumes "Validate cfg = []" "good_orders its" "start_monitor its cfg s = Inr m"
    and "vtysh_law table exec_vtysh" "table s = nhKey ` set (initialRoutes cfg)"
  shows "mon_inv table cfg 0 m"
proof -
  let ?r = "(NewVtyshRouteManager (initialRoutes cfg), s)"
  obtain c where c: "InstallInitialRoutes vtysh_ops its (NewController cfg ?r) = (None, c)"
    and m: "m = \<lparr>mo_prober = Start (probeConfigs cfg) (NewProber\<lparr>pr_Notify := True\<rparr>), mo_ctrl = c, mo_pending = []\<rparr>"
    using assms(3) by (auto simp: start_monitor_def Let_def split: if_splits prod.splits option.splits)
  have "tracks table ?r"
    using assms(4,5) by (simp add: tracks_def installed_NewVtysh) (simp add: NewVtyshRouteManager_def runner_def)
  then have t: "tracks table (c_routes (NewController cfg ?r))" by (simp add: NewController_def)
  note I = frr.InstallInitialRoutes_ok [OF t assms(2) c]
  obtain c1 where u: "updateECMP vtysh_ops its (NewController cfg ?r) = (None, c1)"
    and a: "add_all_rules vtysh_ops (its 3 (keys_of (c_pbrRules c1))) c1 = (None, c)"
    using c by (auto simp: InstallInitialRoutes_def split: prod.splits option.splits)
  have "c_log c1 = []"
    using frr.updateECMP_ok [OF t assms(2) u] by (simp add: NewController_def) (metis controller.select_convs(5) controller.update_convs(1))
  with add_all_rules_frame [OF a] have "c_log c = []" by simp
  have act: "is_active c (pc_Name x)" if "x \<in> set (probeConfigs cfg)" for x
  proof -
    have "pc_Name x \<in> if_Name ` set (monitored cfg)" using that names_monitored by blast
    then show ?thesis using I by (simp add: is_active_def NewController_def initially_active_lookup)
  qed
  have st: "map_of (pr_states (mo_prober m)) (pc_Name x) = Some (initial_state x)"
    if "x \<in> set (probeConfigs cfg)" for x
    using Start_states [OF valid_monitored_names(2) [OF assms(1)] that] by (simp add: m)
  have "probe_ok x 0 (initial_state x)" for x
    by (simp add: probe_ok_def initial_state_def probe_defaults_def)
  with I act st show ?thesis
    unfolding mon_inv_def
    by (auto simp: m NewController_def pending_ok_def reported_def status_at_def initial_state_def Start_def)
qed

lemma after_probe_simps [simp]:
  "mo_ctrl (after_probe m p cb) = mo_ctrl m" "mo_prober (after_probe m p cb) = p"
  "no_failure (after_probe m p cb) = no_failure m"
  by (simp_all add: after_probe_def no_failure_def)

lemma probe_step_inv:
  assumes inv: "mon_inv table cfg k m" and v: "Validate cfg = []" and k: "k < 2 ^ 63 - 1"
    and c: "c \<in> set (probeConfigs cfg)" "map_of (mo_pending m) (pc_Name c) = None"
    and ping: "doPing (probe_defaults c) now1 now2 r (mo_prober m) = Some (p, cb)"
  shows "mon_inv table cfg (Suc k) (after_probe m p cb)"
proof -
  let ?n = "pc_Name c" and ?m = "after_probe m p cb"
  obtain st where st: "map_of (pr_states (mo_prober m)) ?n = Some st" "probe_ok c k st"
    using inv c(1) by (auto simp: mon_inv_def)
  let ?st = "count_probe (probe_defaults c) now1 now2 r st"
  note new = probe_ok_count [OF st(2) k, of now1 now2 r]
  have p: "pr_Notify p" "map_of (pr_states p) = (map_of (pr_states (mo_prober m)))(?n \<mapsto> ?st)"
    "cb = (if us_Status st \<noteq> us_Status ?st then Some (?n, us_Status st, us_Status ?st) else None)"
    using doPing_some [of "mo_prober m" "probe_defaults c" st now1 now2 r] st(1) ping inv
    by (auto simp: mon_inv_def)
  have at: "status_at ?m n = (if n = ?n then us_Status ?st else status_at m n)"
    "status_at m ?n = us_Status st" for n
    by (simp_all add: status_at_def p st(1))
  have pend: "map_of (mo_pending ?m) = (if us_Status st \<noteq> us_Status ?st
      then (map_of (mo_pending m))(?n \<mapsto> (us_Status st, us_Status ?st)) else map_of (mo_pending m))"
    by (simp add: after_probe_def p(3))
  have rep: "reported ?m n = reported m n" for n
    using c(2) at pend by (simp add: reported_def split: option.split)
  have "pending_ok ?m"
    unfolding pending_ok_def
  proof (intro allI impI)
    fix n old new assume *: "map_of (mo_pending ?m) n = Some (old, new)"
    show "new = status_at ?m n \<and> old \<noteq> new \<and> (old = StatusDown \<longrightarrow> new = StatusHealthy)"
    proof (cases "n = ?n")
      case True
      then have "us_Status st \<noteq> us_Status ?st" "old = us_Status st" "new = us_Status ?st"
        using * pend c(2) by (auto split: if_splits)
      with new(2) True at show ?thesis by auto
    next
      case False
      then have "map_of (mo_pending m) n = Some (old, new)"
        using * pend by (auto split: if_splits)
      with inv False at show ?thesis by (simp add: mon_inv_def pending_ok_def)
    qed
  qed
  moreover have "\<exists>st'. map_of (pr_states p) (pc_Name d) = Some st' \<and> probe_ok d (Suc k) st'"
    if "d \<in> set (probeConfigs cfg)" for d
  proof (cases "pc_Name d = ?n")
    case True
    with valid_monitored_names(2) [OF v] that c(1) have "d = c" by (auto simp: distinct_map inj_on_def)
    then show ?thesis using p(2) new(1) by simp
  next
    case False
    from inv that obtain s0 where "map_of (pr_states (mo_prober m)) (pc_Name d) = Some s0" "probe_ok d k s0"
      by (auto simp: mon_inv_def)
    with False p(2) probe_ok_mono show ?thesis by simp
  qed
  moreover have "dom (map_of (mo_pending ?m)) \<subseteq> pc_Name ` set (probeConfigs cfg)"
    using inv c(1) by (auto simp: pend mon_inv_def)
  ultimately show ?thesis
    using inv p(1) rep by (simp add: mon_inv_def)
qed

lemma after_callback_simps [simp]:
  "mo_prober (after_callback its m n ch) = mo_prober m"
  "mo_ctrl (after_callback its m n ch) = HandleStateChange vtysh_ops its n (fst ch) (snd ch) (mo_ctrl m)"
  "map_of (mo_pending (after_callback its m n ch)) = (map_of (mo_pending m))(n := None)"
  by (simp_all add: after_callback_def)

text \<open>One state change, from the controller's side: nothing, a switch with the routes in step, or a
  logged failure.\<close>

lemma handle_cases:
  assumes "tracks table (c_routes c)" "good_orders its"
  shows "let c' = HandleStateChange vtysh_ops its n old new c; b = (new = StatusHealthy) in
    tracks table (c_routes c') \<and> c_uplinks c' = c_uplinks c \<and> set (c_log c) \<subseteq> set (c_log c') \<and>
    (c' = c \<and> (new = StatusDown \<or> new = StatusHealthy \<longrightarrow> is_active c n = b) \<or>
     (new = StatusDown \<or> new = StatusHealthy) \<and> is_active c' = (is_active c)(n := b) \<and>
       table (snd (c_routes c')) = wanted_routes c' \<or>
     is_active c' = is_active c \<and> (\<exists>e \<in> set (c_log c'). ecmp_failure n e))"
proof -
  have ro: "ro_DelPBR vtysh_ops = ro_AddPBR vtysh_ops \<or> ro_DelPBR vtysh_ops = ro_DelPBR vtysh_ops"
    "ro_AddPBR vtysh_ops = ro_AddPBR vtysh_ops \<or> ro_AddPBR vtysh_ops = ro_DelPBR vtysh_ops" by simp_all
  have f: "ecmp_failure n (DeactivateFailed n e)" "ecmp_failure n (ActivateFailed n e)" for n e
    by (simp_all add: ecmp_failure_def)
  note D = frr.switch_cases [where b = False and rule_failed = RemoveRuleFailed and name = n
      and failed = DeactivateFailed, OF assms ro(1) f(1) refl]
  note A = frr.switch_cases [where b = True and rule_failed = AddRuleFailed and name = n
      and failed = ActivateFailed, OF assms ro(2) f(2) refl]
  show ?thesis
  proof (cases "new = StatusDown \<or> new = StatusHealthy")
    case False
    then have "HandleStateChange vtysh_ops its n old new c = c"
      by (cases new) (simp_all add: HandleStateChange_def)
    with assms(1) False show ?thesis by (simp add: Let_def)
  next
    case True
    then show ?thesis
    proof
      assume new: "new = StatusDown"
      have eq: "HandleStateChange vtysh_ops its n old new c =
          switch_uplink vtysh_ops its False (ro_DelPBR vtysh_ops) RemoveRuleFailed DeactivateFailed n c"
        by (simp add: HandleStateChange_def new handlers_switch)
      show ?thesis unfolding Let_def eq using D new by fastforce
    next
      assume new: "new = StatusHealthy"
      have eq: "HandleStateChange vtysh_ops its n old new c =
          switch_uplink vtysh_ops its True (ro_AddPBR vtysh_ops) AddRuleFailed ActivateFailed n c"
        by (simp add: HandleStateChange_def new handlers_switch)
      show ?thesis unfolding Let_def eq using A new by fastforce
    qed
  qed
qed

lemma deliver_step_inv:
  assumes inv: "mon_inv table cfg k m" and its: "good_orders its" and ch: "map_of (mo_pending m) n = Some ch"
  shows "mon_inv table cfg (Suc k) (after_callback its m n ch)"
proof -
  obtain old new where [simp]: "ch = (old, new)" by fastforce
  let ?m = "after_callback its m n ch" and ?c = "mo_ctrl m"
  let ?c' = "HandleStateChange vtysh_ops its n old new ?c"
  have t: "tracks table (c_routes ?c)" using inv by (simp add: mon_inv_def)
  note H = handle_cases [OF t its, of n old new, unfolded Let_def]
  have at: "status_at ?m = status_at m" by (simp add: status_at_def fun_eq_iff)
  have new: "new = status_at m n" "old \<noteq> new" "old = StatusDown \<longrightarrow> new = StatusHealthy"
    using inv ch by (simp_all add: mon_inv_def pending_ok_def)
  have pend: "pending_ok ?m"
    using inv at by (simp add: mon_inv_def pending_ok_def)
  have rep: "reported ?m x = (if x = n then new else reported m x)" for x
    using at new(1) by (simp add: reported_def split: option.split)
  have keep: "table (snd (c_routes ?c')) = wanted_routes ?c' \<and>
      (\<forall>c \<in> set (probeConfigs cfg). is_active ?c' (pc_Name c) \<longleftrightarrow> reported ?m (pc_Name c) \<noteq> StatusDown)"
    if nf: "no_failure ?m"
  proof -
    have "no_failure m" using nf H by (auto simp: no_failure_def)
    with inv have sync: "table (snd (c_routes ?c)) = wanted_routes ?c"
      and act: "\<forall>c \<in> set (probeConfigs cfg). is_active ?c (pc_Name c) \<longleftrightarrow> reported m (pc_Name c) \<noteq> StatusDown"
      by (simp_all add: mon_inv_def)
    have n: "n \<in> pc_Name ` set (probeConfigs cfg)" using inv ch by (auto simp: mon_inv_def)
    have "reported m n = old" using ch by (simp add: reported_def)
    with act n have an: "is_active ?c n \<longleftrightarrow> old \<noteq> StatusDown" by auto
    from nf have "\<not> (\<exists>e \<in> set (c_log ?c'). ecmp_failure n e)" by (auto simp: no_failure_def)
    with H consider "?c' = ?c" "new = StatusDown \<or> new = StatusHealthy \<longrightarrow> is_active ?c n = (new = StatusHealthy)"
      | "new = StatusDown \<or> new = StatusHealthy" "is_active ?c' = (is_active ?c)(n := (new = StatusHealthy))"
        "table (snd (c_routes ?c')) = wanted_routes ?c'" by blast
    then show ?thesis
    proof cases
      case 1
      have "is_active ?c n \<longleftrightarrow> new \<noteq> StatusDown" using 1(2) an new(3) by (cases new) auto
      with 1(1) sync act rep show ?thesis by auto
    next
      case 2
      then show ?thesis using act rep by auto
    qed
  qed
  have "tracks table (c_routes ?c')" "c_uplinks ?c' = index_uplinks cfg"
    using H inv by (simp_all add: mon_inv_def)
  moreover have "\<forall>c \<in> set (probeConfigs cfg).
      \<exists>st. map_of (pr_states (mo_prober m)) (pc_Name c) = Some st \<and> probe_ok c (Suc k) st"
    using inv probe_ok_mono unfolding mon_inv_def by blast
  moreover have "dom (map_of (mo_pending ?m)) \<subseteq> pc_Name ` set (probeConfigs cfg)"
    using inv by (auto simp: mon_inv_def)
  moreover have "pr_Notify (mo_prober m)" using inv by (simp add: mon_inv_def)
  ultimately show ?thesis
    using pend keep unfolding mon_inv_def by simp
qed

lemma run_inv:
  assumes "mrun (probeConfigs cfg) k m m'" "Validate cfg = []" "mon_inv table cfg 0 m" "k < 2 ^ 63"
  shows "mon_inv table cfg k m'"
  using assms
proof (induction rule: mrun.induct)
  case (more k m m' m'')
  then have inv: "mon_inv table cfg k m'" and k: "k < 2 ^ 63 - 1" by simp_all
  from \<open>mstep (probeConfigs cfg) m' m''\<close> show ?case
  proof cases
    case (probe c now1 now2 r p cb)
    with probe_step_inv [OF inv \<open>Validate cfg = []\<close> k] show ?thesis by blast
  next
    case (deliver n ch its)
    with deliver_step_inv [OF inv] show ?thesis by blast
  qed
qed simp

section \<open>Schedules\<close>

text \<open>A run given by its schedule, for the examples: a probe of an uplink and its result, or the
  delivery of an uplink's callback.\<close>

datatype event = Ping string ping_result | Callback string

fun play :: "probe_config list \<Rightarrow> event list \<Rightarrow> monitor \<Rightarrow> monitor option" where
  "play cfgs [] m = Some m"
| "play cfgs (Ping n r # es) m =
     (case find (\<lambda>c. pc_Name c = n) cfgs of
        None \<Rightarrow> None
      | Some c \<Rightarrow>
          if map_of (mo_pending m) n \<noteq> None then None
          else (case doPing (probe_defaults c) 0 0 r (mo_prober m) of
              None \<Rightarrow> None | Some (p, cb) \<Rightarrow> play cfgs es (after_probe m p cb)))"
| "play cfgs (Callback n # es) m =
     (case map_of (mo_pending m) n of
        None \<Rightarrow> None
      | Some ch \<Rightarrow> play cfgs es (after_callback (\<lambda>_. id) m n ch))"

lemma mrun_first: "mrun cfgs k m' m'' \<Longrightarrow> mstep cfgs m m' \<Longrightarrow> mrun cfgs (Suc k) m m''"
  by (induction rule: mrun.induct) (auto intro: mrun.intros)

lemma play_mrun: "play cfgs es m = Some m' \<Longrightarrow> mrun cfgs (length es) m m'"
proof (induction cfgs es m rule: play.induct)
  case (2 cfgs n r es m)
  from "2.prems" obtain c where c: "find (\<lambda>c. pc_Name c = n) cfgs = Some c"
    by (cases "find (\<lambda>c. pc_Name c = n) cfgs") simp_all
  with "2.prems" have n: "map_of (mo_pending m) n = None"
    by (cases "map_of (mo_pending m) n") simp_all
  with c "2.prems" obtain p cb where p: "doPing (probe_defaults c) 0 0 r (mo_prober m) = Some (p, cb)"
    by (auto split: option.splits)
  have "mrun cfgs (length es) (after_probe m p cb) m'"
    by (rule "2.IH" [OF c _ p refl]) (use "2.prems" c n p in auto)
  moreover have "c \<in> set cfgs" "pc_Name c = n" using c by (auto simp: find_Some_iff)
  ultimately show ?case using n p by (auto intro!: mrun_first mstep.probe)
next
  case (3 cfgs n es m)
  from "3.prems" obtain ch where ch: "map_of (mo_pending m) n = Some ch"
    by (cases "map_of (mo_pending m) n") simp_all
  with "3.IH" [OF ch] "3.prems" have "mrun cfgs (length es) (after_callback (\<lambda>_. id) m n ch) m'" by simp
  then show ?case using ch by (auto intro!: mrun_first mstep.deliver simp: good_orders_id)
qed (auto intro: mrun.stop)

text \<open>Two uplinks; the second answers, the first does not and is declared down.\<close>

definition outage :: "event list" where
  "outage = [Ping ''wan1'' (Inl ''timeout''), Callback ''wan1'', Ping ''wan2'' (Inr 7), Ping ''wan1'' (Inl ''timeout''),
     Callback ''wan2'', Ping ''wan1'' (Inl ''timeout''), Callback ''wan1'']"

definition outage_run :: "bool \<Rightarrow> monitor option" where
  "outage_run ok = (case start_monitor (\<lambda>_. id) dual_wan_site (sample_machine ok) of
     Inl _ \<Rightarrow> None | Inr m \<Rightarrow> play (probeConfigs dual_wan_site) outage m)"

definition dual_wan_routes :: "string set" where
  "dual_wan_routes = {''10.0.0.1 eth0'', ''203.0.113.1 eth1''}"

lemma dual_wan_valid: "Validate dual_wan_site = []"
  by code_simp

lemma dual_wan_initial: "replay dual_wan_routes (sample_machine ok) = nhKey ` set (initialRoutes dual_wan_site)"
proof -
  have "map nhKey (initialRoutes dual_wan_site) = [''10.0.0.1 eth0'', ''203.0.113.1 eth1'']"
    by code_simp
  then have "set (map nhKey (initialRoutes dual_wan_site)) = dual_wan_routes"
    by (simp only: dual_wan_routes_def) simp
  then show ?thesis by (simp add: replay_def sample_machine_def)
qed

lemma outage_run_mrun:
  assumes "outage_run ok = Some m'"
  shows "\<exists>m. start_monitor (\<lambda>_. id) dual_wan_site (sample_machine ok) = Inr m \<and>
    mrun (probeConfigs dual_wan_site) 7 m m'"
proof -
  obtain m where m: "start_monitor (\<lambda>_. id) dual_wan_site (sample_machine ok) = Inr m"
      "play (probeConfigs dual_wan_site) outage m = Some m'"
    using assms by (auto simp: outage_run_def split: sum.splits)
  have "length outage = 7" by (simp add: outage_def)
  with play_mrun [OF m(2)] m(1) show ?thesis by simp
qed

section \<open>Properties\<close>

text \<open>C4. However the probes and callbacks of the uplinks interleave, whatever the pings answer and
  whatever the shell does: as long as no route update has failed, in every state without a callback
  under way FRR's default routes are exactly those of the uplinks that are not down.\<close>

theorem monitor_routes_follow_health:
  assumes "Validate cfg = []" "good_orders its" "start_monitor its cfg s = Inr m"
    and "vtysh_law table exec_vtysh" "table s = nhKey ` set (initialRoutes cfg)"
    and "mrun (probeConfigs cfg) k m m'" "k < 2 ^ 63" "no_failure m'" "mo_pending m' = []"
  shows "table (snd (c_routes (mo_ctrl m'))) =
    {nhKey (initial_nexthop f) | f. f \<in> set (monitored cfg) \<and> status_at m' (if_Name f) \<noteq> StatusDown}"
proof -
  have inv: "mon_inv table cfg k m'"
    by (rule run_inv [OF assms(6,1) start_inv [OF assms(1-5)] assms(7)])
  then have act: "is_active (mo_ctrl m') (if_Name f) \<longleftrightarrow> status_at m' (if_Name f) \<noteq> StatusDown"
    if "f \<in> set (monitored cfg)" for f
    using assms(8,9) that by (auto simp: mon_inv_def reported_def probeConfigs_def)
  have "table (snd (c_routes (mo_ctrl m'))) = wanted_routes (mo_ctrl m')"
    using inv assms(8) by (simp add: mon_inv_def)
  also have "\<dots> = {nhKey (initial_nexthop f) | f. f \<in> set (monitored cfg) \<and> is_active (mo_ctrl m') (if_Name f)}"
    using inv index_uplinks_lookup [OF valid_monitored_names(1) [OF assms(1)]]
    unfolding wanted_routes_def mon_inv_def uplink_nexthop_initial [symmetric] by auto
  finally show ?thesis using act by blast
qed

theorem monitor_routes_follow_health_witness:
  "\<exists>m'. outage_run True = Some m' \<and>
     replay dual_wan_routes (snd (c_routes (mo_ctrl m'))) = {''203.0.113.1 eth1''}"
proof -
  have r: "map_option (\<lambda>m. (status_at m ''wan1'', status_at m ''wan2'', mo_pending m, c_log (mo_ctrl m))) (outage_run True) =
      Some (StatusDown, StatusHealthy, [], [])"
    by code_simp
  then obtain m' where m': "outage_run True = Some m'" "status_at m' ''wan1'' = StatusDown"
      "status_at m' ''wan2'' = StatusHealthy" "mo_pending m' = []" "c_log (mo_ctrl m') = []"
    by (cases "outage_run True") simp_all
  then obtain m where m: "start_monitor (\<lambda>_. id) dual_wan_site (sample_machine True) = Inr m"
      "mrun (probeConfigs dual_wan_site) 7 m m'"
    using outage_run_mrun by blast
  have "replay dual_wan_routes (snd (c_routes (mo_ctrl m'))) =
    {nhKey (initial_nexthop f) | f. f \<in> set (monitored dual_wan_site) \<and> status_at m' (if_Name f) \<noteq> StatusDown}"
    by (rule monitor_routes_follow_health [OF dual_wan_valid good_orders_id m(1) replay_law dual_wan_initial m(2)])
      (simp_all add: m' no_failure_def)
  also have "monitored dual_wan_site = [wan1_iface, wan2_iface]" by code_simp
  also have "{nhKey (initial_nexthop f) | f. f \<in> set [wan1_iface, wan2_iface] \<and> status_at m' (if_Name f) \<noteq> StatusDown}
      = {nhKey (initial_nexthop wan2_iface)}"
    using m' by (auto simp: sample_defs)
  also have "nhKey (initial_nexthop wan2_iface) = ''203.0.113.1 eth1''" by code_simp
  finally show ?thesis using m'(1) by blast
qed

text \<open>C25. The daemon never panics: in every reachable state a probe finds the state of its uplink.\<close>

theorem monitor_never_panics:
  assumes "Validate cfg = []" "good_orders its" "start_monitor its cfg s = Inr m"
    and "vtysh_law table exec_vtysh" "table s = nhKey ` set (initialRoutes cfg)"
    and "mrun (probeConfigs cfg) k m m'" "k < 2 ^ 63" "c \<in> set (probeConfigs cfg)"
  shows "doPing (probe_defaults c) now1 now2 r (mo_prober m') \<noteq> None"
proof -
  have "mon_inv table cfg k m'"
    by (rule run_inv [OF assms(6,1) start_inv [OF assms(1-5)] assms(7)])
  with assms(8) show ?thesis by (auto simp: mon_inv_def doPing_def Let_def)
qed

theorem monitor_never_panics_witness:
  "\<exists>m'. outage_run True = Some m' \<and>
     doPing (probe_defaults (probe_config_of wan1_iface)) 1 2 (Inr 5) (mo_prober m') \<noteq> None"
proof -
  have "map_option (\<lambda>m. ()) (outage_run True) = Some ()" by code_simp
  then obtain m' where m': "outage_run True = Some m'" by (cases "outage_run True") simp_all
  with outage_run_mrun obtain m where m: "start_monitor (\<lambda>_. id) dual_wan_site (sample_machine True) = Inr m"
      "mrun (probeConfigs dual_wan_site) 7 m m'" by blast
  have "monitored dual_wan_site = [wan1_iface, wan2_iface]" by code_simp
  then have "probe_config_of wan1_iface \<in> set (probeConfigs dual_wan_site)"
    by (simp add: probeConfigs_def)
  with m' show ?thesis
    using monitor_never_panics [OF dual_wan_valid good_orders_id m(1) replay_law dual_wan_initial m(2)] by auto
qed

text \<open>An uplink that is down but still routed, with nothing under way that could remove its route.\<close>

definition stuck :: "string \<Rightarrow> monitor \<Rightarrow> bool" where
  "stuck n m \<longleftrightarrow> status_at m n = StatusDown \<and> is_active (mo_ctrl m) n \<and> map_of (mo_pending m) n = None"



end
