(* ===== verification/Startup.thy ===== *)
theory Startup
  imports Monitor Frr
begin

text \<open>
  What the daemon of \<^verbatim>\<open>cmd/warp/main.go\<close> starts from: the next hops it takes to be installed are
  the default routes that an apply has put into FRR's configuration, so installing them again is
  no command at all.
\<close>

section \<open>Starting\<close>

lemma start_monitor_ok:
  assumes "Validate cfg = []" "good_orders its" "monitored cfg \<noteq> []"
  shows "start_monitor its cfg s = Inr \<lparr>mo_prober = Start (probeConfigs cfg) (NewProber\<lparr>pr_Notify := True\<rparr>),
    mo_ctrl = NewController cfg (NewVtyshRouteManager (initialRoutes cfg), s), mo_pending = []\<rparr>"
proof -
  let ?m = "NewVtyshRouteManager (initialRoutes cfg)"
  have "InstallInitialRoutes vtysh_ops its (NewController cfg (?m, s)) = (None, NewController cfg (?m, s))"
    by (rule InstallInitialRoutes_nop [where m = ?m and s = s])
      (simp_all add: installed_NewVtysh wanted_NewController [OF valid_monitored_names(1) [OF assms(1)]] assms(2),
       simp add: NewController_def)
  then show ?thesis using assms(3) by (simp add: start_monitor_def probeConfigs_def Let_def)
qed

section \<open>The routes of the rendered file\<close>

lemma monitored_uplinks: "monitored cfg = filter is_uplink (Interfaces cfg)"
  by (auto simp: monitored_def is_uplink_def intro!: filter_cong)

definition ipv4_gateways :: "site_config \<Rightarrow> bool" where
  "ipv4_gateways c \<longleftrightarrow> (\<forall>f \<in> set (Interfaces c). CHR '':'' \<notin> set (if_Gateway f))"

lemma route_line_initial:
  assumes "Validate cfg = []" "ipv4_gateways cfg" "f \<in> set (monitored cfg)"
  shows "route_line f = add_cmd (nhKey (initial_nexthop f))"
proof -
  have f: "f \<in> set (Interfaces cfg)" "if_Gateway f \<noteq> []"
    using assms(3) by (auto simp: monitored_uplinks is_uplink_def)
  moreover have "valid_interface f" using assms(1) f(1) by (simp add: Validate_def valid_iff valid_interfaces_def)
  ultimately obtain x where "ParseIP (if_Gateway f) = Some x" by (auto simp: valid_interface_def)
  from IP_String_ParseIP [OF this] assms(2) f(1) show ?thesis
    by (simp add: ipv4_gateways_def route_line_def add_cmd_def nhKey_def initial_nexthop_def)
qed

section \<open>The times of a probe\<close>

lemma seconds_exact: "\<lbrakk>0 < n; n \<le> 9223372036\<rbrakk> \<Longrightarrow> seconds n = n * 1000000000"
  unfolding seconds_def by (rule wrap64_id) (simp add: int64_range_def)

section \<open>Properties\<close>

text \<open>C13. The daemon takes over what an apply configured: with a valid configuration that has an uplink it
  starts, whatever the machine answers, without running a command, and the routes it then believes
  installed are exactly those of the rendered frr.conf.\<close>

theorem daemon_adopts_frr_routes:
  assumes "Validate cfg = []" "good_orders its" "\<exists>f \<in> set (Interfaces cfg). is_uplink f"
    "frr_one_line cfg" "ipv4_gateways cfg"
  shows "\<exists>m out. start_monitor its cfg s = Inr m \<and> frr_Render cfg = Inr out \<and> snd (c_routes (mo_ctrl m)) = s \<and>
    add_cmd ` installed_set (fst (c_routes (mo_ctrl m))) = set (filter (starts_with ''ip route '') (lines_of out))"
proof -
  have up: "monitored cfg \<noteq> []" using assms(3) by (auto simp: monitored_uplinks filter_empty_conv)
  have dev: "\<forall>f \<in> set (Interfaces cfg). if_Device f \<noteq> []"
    using assms(1) by (simp add: Validate_def valid_iff valid_interfaces_def valid_interface_def)
  obtain out where out: "frr_Render cfg = Inr out" by (simp add: frr_Render_def)
  have "set (filter (starts_with ''ip route '') (lines_of out)) = route_line ` set (monitored cfg)"
    using frr_Render_routes [OF assms(4) dev] by (simp add: out monitored_uplinks)
  also have "\<dots> = add_cmd ` nhKey ` set (initialRoutes cfg)"
    using route_line_initial [OF assms(1,5)] by (force simp: initialRoutes_def)
  finally show ?thesis
    using start_monitor_ok [OF assms(1,2) up, of s] out by (simp add: NewController_def installed_NewVtysh)
qed

theorem daemon_adopts_frr_routes_witness:
  "\<exists>m. start_monitor (\<lambda>_. id) dual_wan_site (sample_machine True) = Inr m \<and>
     add_cmd ` installed_set (fst (c_routes (mo_ctrl m))) = {''ip route 0.0.0.0/0 10.0.0.1 eth0'', ''ip route 0.0.0.0/0 203.0.113.1 eth1''}"
proof -
  have h: "\<exists>f \<in> set (Interfaces dual_wan_site). is_uplink f" "frr_one_line dual_wan_site" "ipv4_gateways dual_wan_site"
    by (simp_all add: frr_one_line_def ipv4_gateways_def sample_defs is_uplink_def role_is_def)
  have "\<forall>f \<in> set (Interfaces dual_wan_site). if_Device f \<noteq> []" by (simp add: sample_defs)
  from frr_Render_routes [OF h(2) this]
  have routes: "filter (starts_with ''ip route '') (lines_of (projr (frr_Render dual_wan_site))) =
      [''ip route 0.0.0.0/0 10.0.0.1 eth0'', ''ip route 0.0.0.0/0 203.0.113.1 eth1'']"
    by (simp add: sample_defs is_uplink_def role_is_def route_line_def)
  obtain m out where m: "start_monitor (\<lambda>_. id) dual_wan_site (sample_machine True) = Inr m" "frr_Render dual_wan_site = Inr out"
      "add_cmd ` installed_set (fst (c_routes (mo_ctrl m))) = set (filter (starts_with ''ip route '') (lines_of out))"
    using daemon_adopts_frr_routes [OF dual_wan_valid good_orders_id h, of "sample_machine True"] by blast
  with routes show ?thesis by (simp del: set_filter)
qed



end
