(* ===== verification/Vlan.thy ===== *)
theory Vlan
  imports Config GoOS
begin

text \<open>
  VLAN provisioning in \<^verbatim>\<open>internal/apply/apply.go\<close>: the \<^verbatim>\<open>ip\<close> commands that bring the
  kernel's VLAN devices in line with the configuration. The commands are logged by the machine,
  which answers them arbitrarily.
\<close>

section \<open>Operations\<close>

definition ParentDevice :: "string \<Rightarrow> string" where
  "ParentDevice device =
     (case last_index (CHR ''.'') device of
        Some idx \<Rightarrow> if idx > 0 then take idx device else []
      | None \<Rightarrow> [])"

text \<open>One line of \<^verbatim>\<open>ip -o link\<close>: the device, if it is a subinterface of the parent.\<close>

definition vlan_of_line :: "string \<Rightarrow> string \<Rightarrow> string option" where
  "vlan_of_line parent line =
     (let fs = str_fields line in
      if length fs < 2 then None
      else let parts = split_first (CHR ''@'') (trim_suffix_char (CHR '':'') (fs ! 1))
        in if length parts = 2 \<and> parts ! 1 = parent then Some (parts ! 0) else None)"

definition vlans_of_output :: "string \<Rightarrow> string \<Rightarrow> string list" where
  "vlans_of_output parent out = List.map_filter (vlan_of_line parent) (split_char newline out)"

definition listVLANSubinterfaces :: "string \<Rightarrow> os \<Rightarrow> string list option \<times> os" where
  "listVLANSubinterfaces parent s =
     (case os_Exec [''ip'', ''-o'', ''link'', ''show'', ''type'', ''vlan''] s of
        ((ok, out), s') \<Rightarrow> (if \<not> ok then None else Some (vlans_of_output parent out), s'))"

definition desired_vlans :: "interface list \<Rightarrow> (string, interface) gomap" where
  "desired_vlans fs = foldl (\<lambda>m f. if if_VLAN f > 0 then AList.update (if_Device f) f m else m) [] fs"

definition parent_devices :: "string list \<Rightarrow> (string, bool) gomap" where
  "parent_devices devices =
     foldl (\<lambda>m d. if ParentDevice d \<noteq> [] then AList.update (ParentDevice d) True m else m) [] devices"

fun delete_stale :: "(string, interface) gomap \<Rightarrow> string list \<Rightarrow> os \<Rightarrow> os" where
  "delete_stale desired [] s = s"
| "delete_stale desired (existing # rest) s =
     delete_stale desired rest
       (if map_of desired existing = None then snd (os_Exec [''ip'', ''link'', ''delete'', existing] s) else s)"

fun remove_stale :: "(string, interface) gomap \<Rightarrow> string list \<Rightarrow> os \<Rightarrow> os" where
  "remove_stale desired [] s = s"
| "remove_stale desired (parent # parents) s =
     (case listVLANSubinterfaces parent s of
        (None, s') \<Rightarrow> remove_stale desired parents s'
      | (Some existing, s') \<Rightarrow> remove_stale desired parents (delete_stale desired existing s'))"

datatype vlan_error =
    NoParent string string
  | CreateFailed int string string
  | BringUpFailed string string
  | AssignFailed string string string

definition create_vlan :: "string \<Rightarrow> interface \<Rightarrow> os \<Rightarrow> vlan_error option \<times> os" where
  "create_vlan parent f s =
     (case os_Exec [''ip'', ''link'', ''add'', ''link'', parent, ''name'', if_Device f, ''type'', ''vlan'',
         ''id'', itoa (if_VLAN f)] s of
        ((False, out), s1) \<Rightarrow> (Some (CreateFailed (if_VLAN f) parent out), s1)
      | ((True, _), s1) \<Rightarrow>
          (case os_Exec [''ip'', ''link'', ''set'', if_Device f, ''up''] s1 of
             ((False, out), s2) \<Rightarrow> (Some (BringUpFailed (if_Device f) out), s2)
           | ((True, _), s2) \<Rightarrow> (None, s2)))"

definition assign_address :: "bool \<Rightarrow> interface \<Rightarrow> os \<Rightarrow> vlan_error option \<times> os" where
  "assign_address exist f s =
     (if if_Address f \<noteq> [] \<and> if_Address f \<noteq> ''dhcp'' then
        let s1 = (if exist then snd (os_Exec [''ip'', ''addr'', ''flush'', ''dev'', if_Device f] s) else s)
        in case os_Exec [''ip'', ''addr'', ''add'', if_Address f, ''dev'', if_Device f] s1 of
             ((ok, out), s2) \<Rightarrow>
               if \<not> ok \<and> \<not> str_contains out ''File exists''
               then (Some (AssignFailed (if_Address f) (if_Device f) out), s2) else (None, s2)
      else (None, s))"

definition provision_vlan :: "interface \<Rightarrow> os \<Rightarrow> vlan_error option \<times> os" where
  "provision_vlan f s =
     (let parent = ParentDevice (if_Device f) in
      if parent = [] then (Some (NoParent (if_Name f) (if_Device f)), s)
      else case os_Exec [''ip'', ''link'', ''show'', if_Device f] s of
          ((exist, _), s1) \<Rightarrow>
            (case (if \<not> exist then create_vlan parent f s1 else (None, s1)) of
               (Some e, s2) \<Rightarrow> (Some e, s2)
             | (None, s2) \<Rightarrow> assign_address exist f s2))"

fun provision_all :: "interface list \<Rightarrow> os \<Rightarrow> vlan_error option \<times> os" where
  "provision_all [] s = (None, s)"
| "provision_all (f # fs) s =
     (if if_VLAN f \<le> 0 then provision_all fs s
      else case provision_vlan f s of
          (Some e, s') \<Rightarrow> (Some e, s')
        | (None, s') \<Rightarrow> provision_all fs s')"

text \<open>\<open>its 0\<close> is the order over the wanted devices, \<open>its 1\<close> the order over their parents.\<close>

definition ProvisionVLANs :: "(nat \<Rightarrow> string list \<Rightarrow> string list) \<Rightarrow> site_config \<Rightarrow> os \<Rightarrow> vlan_error option \<times> os" where
  "ProvisionVLANs its cfg s =
     (let desired = desired_vlans (Interfaces cfg);
          parents = parent_devices (its 0 (keys_of desired))
      in provision_all (Interfaces cfg) (remove_stale desired (its 1 (keys_of parents)) s))"

section \<open>What the commands may do\<close>

text \<open>Only the command log grows.\<close>

definition only_runs :: "os \<Rightarrow> os \<Rightarrow> string list list \<Rightarrow> bool" where
  "only_runs s s' new \<longleftrightarrow> s' = s\<lparr>cmds := cmds s @ new\<rparr>"

lemma only_runs_refl [simp]: "only_runs s s []"
  by (simp add: only_runs_def)

lemma only_runs_trans: "only_runs s s' xs \<Longrightarrow> only_runs s' s'' ys \<Longrightarrow> only_runs s s'' (xs @ ys)"
  by (simp add: only_runs_def)

lemma only_runs_Exec: "os_Exec c s = (r, s') \<Longrightarrow> only_runs s s' [c]"
  by (auto simp: os_Exec_def only_runs_def)

definition delete_cmd :: "string \<Rightarrow> string list" where
  "delete_cmd d = [''ip'', ''link'', ''delete'', d]"

definition list_cmd :: "string list" where
  "list_cmd = [''ip'', ''-o'', ''link'', ''show'', ''type'', ''vlan'']"

lemma delete_stale_runs:
  "only_runs s (delete_stale desired existing s)
     (map delete_cmd (filter (\<lambda>d. map_of desired d = None) existing))"
proof (induction existing arbitrary: s)
  case (Cons d ds)
  have "only_runs s (snd (os_Exec [''ip'', ''link'', ''delete'', d] s)) [delete_cmd d]"
    by (rule only_runs_Exec [of _ _ "fst (os_Exec (delete_cmd d) s)"]) (simp add: delete_cmd_def)
  from only_runs_trans [OF this Cons] Cons show ?case by simp
qed simp

lemma remove_stale_runs:
  "\<exists>new. only_runs s (remove_stale desired parents s) new \<and>
     (\<forall>c \<in> set new. c = list_cmd \<or> (\<exists>d p out. c = delete_cmd d \<and> map_of desired d = None \<and>
        p \<in> set parents \<and> d \<in> set (vlans_of_output p out)))"
proof (induction parents arbitrary: s)
  case (Cons p ps)
  obtain ok out s1 where x: "os_Exec list_cmd s = ((ok, out), s1)" by (metis prod.exhaust)
  note x1 = only_runs_Exec [OF x]
  have l: "listVLANSubinterfaces p s = (if \<not> ok then None else Some (vlans_of_output p out), s1)"
    using x by (simp add: listVLANSubinterfaces_def list_cmd_def)
  define s2 where "s2 = (if ok then delete_stale desired (vlans_of_output p out) s1 else s1)"
  define ds where "ds = (if ok then filter (\<lambda>d. map_of desired d = None) (vlans_of_output p out) else [])"
  have x2: "only_runs s1 s2 (map delete_cmd ds)"
    by (auto simp: s2_def ds_def delete_stale_runs)
  from Cons [of s2] obtain new where new: "only_runs s2 (remove_stale desired ps s2) new"
    "\<forall>c \<in> set new. c = list_cmd \<or> (\<exists>d p out. c = delete_cmd d \<and> map_of desired d = None \<and>
        p \<in> set ps \<and> d \<in> set (vlans_of_output p out))" by blast
  have "remove_stale desired (p # ps) s = remove_stale desired ps s2"
    using l by (simp add: s2_def)
  with only_runs_trans [OF x1 only_runs_trans [OF x2 new(1)]]
  have "only_runs s (remove_stale desired (p # ps) s) ([list_cmd] @ map delete_cmd ds @ new)" by simp
  moreover have "\<forall>c \<in> set ([list_cmd] @ map delete_cmd ds @ new). c = list_cmd \<or>
      (\<exists>d q out. c = delete_cmd d \<and> map_of desired d = None \<and> q \<in> set (p # ps) \<and> d \<in> set (vlans_of_output q out))"
    using new(2) by (auto simp: ds_def split: if_splits)
  ultimately show ?case by blast
qed (rule exI [of _ "[]"], simp)

text \<open>A command of the second phase: it names the device of a configured VLAN.\<close>

definition provision_cmds :: "interface \<Rightarrow> string list set" where
  "provision_cmds f =
     {[''ip'', ''link'', ''show'', if_Device f],
      [''ip'', ''link'', ''add'', ''link'', ParentDevice (if_Device f), ''name'', if_Device f, ''type'', ''vlan'',
       ''id'', itoa (if_VLAN f)],
      [''ip'', ''link'', ''set'', if_Device f, ''up''],
      [''ip'', ''addr'', ''flush'', ''dev'', if_Device f],
      [''ip'', ''addr'', ''add'', if_Address f, ''dev'', if_Device f]}"

lemma create_vlan_runs:
  "\<exists>new. only_runs s (snd (create_vlan (ParentDevice (if_Device f)) f s)) new \<and> set new \<subseteq> provision_cmds f"
proof -
  let ?a = "[''ip'', ''link'', ''add'', ''link'', ParentDevice (if_Device f), ''name'', if_Device f, ''type'',
    ''vlan'', ''id'', itoa (if_VLAN f)]" and ?u = "[''ip'', ''link'', ''set'', if_Device f, ''up'']"
  obtain ok out s1 where a: "os_Exec ?a s = ((ok, out), s1)" by (metis prod.exhaust)
  obtain ok2 out2 s2 where u: "os_Exec ?u s1 = ((ok2, out2), s2)" by (metis prod.exhaust)
  show ?thesis
  proof (cases ok)
    case True
    then have "snd (create_vlan (ParentDevice (if_Device f)) f s) = s2"
      using a u by (simp add: create_vlan_def split: bool.split)
    with only_runs_trans [OF only_runs_Exec [OF a] only_runs_Exec [OF u]] show ?thesis
      by (intro exI [of _ "[?a, ?u]"]) (simp add: provision_cmds_def)
  next
    case False
    then have "snd (create_vlan (ParentDevice (if_Device f)) f s) = s1"
      using a by (simp add: create_vlan_def)
    with only_runs_Exec [OF a] show ?thesis
      by (intro exI [of _ "[?a]"]) (simp add: provision_cmds_def)
  qed
qed

lemma assign_address_runs:
  "\<exists>new. only_runs s (snd (assign_address b f s)) new \<and> set new \<subseteq> provision_cmds f"
proof (cases "if_Address f \<noteq> [] \<and> if_Address f \<noteq> ''dhcp''")
  case True
  let ?fl = "[''ip'', ''addr'', ''flush'', ''dev'', if_Device f]"
    and ?a = "[''ip'', ''addr'', ''add'', if_Address f, ''dev'', if_Device f]"
  define s1 where "s1 = (if b then snd (os_Exec ?fl s) else s)"
  have f: "only_runs s s1 (if b then [?fl] else [])"
    by (simp add: s1_def) (rule impI, rule only_runs_Exec [of _ _ "fst (os_Exec ?fl s)"], simp)
  obtain ok out s2 where a: "os_Exec ?a s1 = ((ok, out), s2)" by (metis prod.exhaust)
  have "snd (assign_address b f s) = s2"
    using True a by (simp add: assign_address_def s1_def Let_def)
  with only_runs_trans [OF f only_runs_Exec [OF a]] show ?thesis
    by (intro exI [of _ "(if b then [?fl] else []) @ [?a]"]) (auto simp: provision_cmds_def)
next
  case False
  then show ?thesis by (intro exI [of _ "[]"]) (auto simp: assign_address_def)
qed

lemma provision_vlan_runs:
  "\<exists>new. only_runs s (snd (provision_vlan f s)) new \<and> set new \<subseteq> provision_cmds f"
proof (cases "ParentDevice (if_Device f) = []")
  case True
  then show ?thesis by (intro exI [of _ "[]"]) (simp add: provision_vlan_def Let_def)
next
  case False
  let ?sh = "[''ip'', ''link'', ''show'', if_Device f]"
  obtain ok out s1 where x: "os_Exec ?sh s = ((ok, out), s1)" by (metis prod.exhaust)
  obtain e s2 where c: "(if \<not> ok then create_vlan (ParentDevice (if_Device f)) f s1 else (None, s1)) = (e, s2)"
    by (metis prod.exhaust)
  have "\<exists>new. only_runs s1 s2 new \<and> set new \<subseteq> provision_cmds f"
    using create_vlan_runs [of s1 f] c by (cases ok) (auto intro: exI [of _ "[]"])
  then obtain n2 where n2: "only_runs s1 s2 n2" "set n2 \<subseteq> provision_cmds f" by blast
  obtain n3 where n3: "only_runs s2 (snd (assign_address ok f s2)) n3" "set n3 \<subseteq> provision_cmds f"
    using assign_address_runs by blast
  have "snd (provision_vlan f s) = (if e = None then snd (assign_address ok f s2) else s2)"
    using False x c by (auto simp: provision_vlan_def Let_def split: option.split)
  moreover have "?sh \<in> provision_cmds f" by (simp add: provision_cmds_def)
  moreover note only_runs_trans [OF only_runs_Exec [OF x] n2(1)]
    only_runs_trans [OF only_runs_Exec [OF x] only_runs_trans [OF n2(1) n3(1)]]
  ultimately show ?thesis
    using n2(2) n3(2) by (intro exI [of _ "[?sh] @ n2 @ (if e = None then n3 else [])"]) auto
qed

lemma provision_all_runs:
  "\<exists>new. only_runs s (snd (provision_all fs s)) new \<and>
     set new \<subseteq> (\<Union>f \<in> {f \<in> set fs. if_VLAN f > 0}. provision_cmds f)"
proof (induction fs arbitrary: s)
  case (Cons f fs)
  show ?case
  proof (cases "if_VLAN f \<le> 0")
    case True
    then have "{g \<in> set (f # fs). if_VLAN g > 0} = {g \<in> set fs. if_VLAN g > 0}" by auto
    with Cons [of s] True show ?thesis by simp
  next
    case False
    obtain e s1 where p: "provision_vlan f s = (e, s1)" by fastforce
    with provision_vlan_runs [of s f] obtain n1 where n1: "only_runs s s1 n1" "set n1 \<subseteq> provision_cmds f" by auto
    show ?thesis
    proof (cases e)
      case None
      from Cons [of s1] obtain n2 where "only_runs s1 (snd (provision_all fs s1)) n2"
        "set n2 \<subseteq> (\<Union>f \<in> {f \<in> set fs. if_VLAN f > 0}. provision_cmds f)" by blast
      with only_runs_trans [OF n1(1)] n1(2) False p None show ?thesis
        by (intro exI [of _ "n1 @ n2"]) auto
    next
      case (Some x)
      with n1 False p show ?thesis by (intro exI [of _ n1]) auto
    qed
  qed
qed (rule exI [of _ "[]"], simp)

text \<open>What a command that ran must have answered.\<close>

definition ran :: "os \<Rightarrow> os \<Rightarrow> string list \<Rightarrow> bool \<times> string \<Rightarrow> bool" where
  "ran s s' c r \<longleftrightarrow> (\<exists>n. length (cmds s) \<le> n \<and> n < length (cmds s') \<and> cmds s' ! n = c \<and>
     answer s (take (Suc n) (cmds s')) = r)"

lemma ran_Exec: "os_Exec c s = (r, s') \<Longrightarrow> ran s s' c r"
  by (auto simp: os_Exec_def ran_def)

lemma ran_earlier: "only_runs s s1 new \<Longrightarrow> ran s1 s' c r \<Longrightarrow> ran s s' c r"
proof -
  assume s1: "only_runs s s1 new" and "ran s1 s' c r"
  then obtain n where "length (cmds s1) \<le> n" "n < length (cmds s')" "cmds s' ! n = c"
      "answer s1 (take (Suc n) (cmds s')) = r"
    unfolding ran_def by blast
  with s1 show ?thesis
    unfolding ran_def by (intro exI [of _ n]) (simp add: only_runs_def)
qed

lemma ran_later: "ran s s1 c r \<Longrightarrow> only_runs s1 s' new \<Longrightarrow> ran s s' c r"
  unfolding ran_def only_runs_def by (elim exE conjE) (rule exI, auto simp: nth_append)

definition vlan_ready :: "os \<Rightarrow> os \<Rightarrow> interface \<Rightarrow> bool" where
  "vlan_ready s s' f \<longleftrightarrow>
     ((\<exists>out. ran s s' [''ip'', ''link'', ''show'', if_Device f] (True, out)) \<or>
      (\<exists>out. ran s s' [''ip'', ''link'', ''add'', ''link'', ParentDevice (if_Device f), ''name'', if_Device f,
         ''type'', ''vlan'', ''id'', itoa (if_VLAN f)] (True, out)) \<and>
      (\<exists>out. ran s s' [''ip'', ''link'', ''set'', if_Device f, ''up''] (True, out))) \<and>
     (if_Address f \<noteq> [] \<and> if_Address f \<noteq> ''dhcp'' \<longrightarrow>
      (\<exists>ok out. ran s s' [''ip'', ''addr'', ''add'', if_Address f, ''dev'', if_Device f] (ok, out) \<and>
         (ok \<or> str_contains out ''File exists'')))"

lemma vlan_ready_earlier: "only_runs s s1 new \<Longrightarrow> vlan_ready s1 s' f \<Longrightarrow> vlan_ready s s' f"
  unfolding vlan_ready_def by (meson ran_earlier)

lemma vlan_ready_later: "vlan_ready s s1 f \<Longrightarrow> only_runs s1 s' new \<Longrightarrow> vlan_ready s s' f"
  unfolding vlan_ready_def by (meson ran_later)

lemma create_vlan_ran:
  assumes "create_vlan parent f s = (None, s')"
  shows "(\<exists>out. ran s s' [''ip'', ''link'', ''add'', ''link'', parent, ''name'', if_Device f, ''type'', ''vlan'', ''id'',
      itoa (if_VLAN f)] (True, out)) \<and> (\<exists>out. ran s s' [''ip'', ''link'', ''set'', if_Device f, ''up''] (True, out))"
proof -
  let ?add = "[''ip'', ''link'', ''add'', ''link'', parent, ''name'', if_Device f, ''type'', ''vlan'', ''id'', itoa (if_VLAN f)]"
  let ?up = "[''ip'', ''link'', ''set'', if_Device f, ''up'']"
  obtain ok1 out1 t1 where c1: "os_Exec ?add s = ((ok1, out1), t1)" by (metis prod.exhaust)
  obtain ok2 out2 t2 where c2: "os_Exec ?up t1 = ((ok2, out2), t2)" by (metis prod.exhaust)
  have "ok1" "ok2" "t2 = s'" using assms c1 c2 by (auto simp: create_vlan_def split: bool.splits)
  then have "ran s s' ?add (True, out1)" "ran s s' ?up (True, out2)"
    using ran_later [OF ran_Exec [OF c1] only_runs_Exec [OF c2]]
      ran_earlier [OF only_runs_Exec [OF c1] ran_Exec [OF c2]] by auto
  then show ?thesis by blast
qed

lemma assign_address_ran:
  assumes "assign_address ok f s = (None, s')" "if_Address f \<noteq> []" "if_Address f \<noteq> ''dhcp''"
  shows "\<exists>ok out. ran s s' [''ip'', ''addr'', ''add'', if_Address f, ''dev'', if_Device f] (ok, out) \<and>
      (ok \<or> str_contains out ''File exists'')"
proof -
  let ?fl = "[''ip'', ''addr'', ''flush'', ''dev'', if_Device f]"
  define t1 where "t1 = (if ok then snd (os_Exec ?fl s) else s)"
  have f: "only_runs s t1 (if ok then [?fl] else [])"
    by (simp add: t1_def) (rule impI, rule only_runs_Exec [of _ _ "fst (os_Exec ?fl s)"], simp)
  obtain ok3 out3 t2 where a3: "os_Exec [''ip'', ''addr'', ''add'', if_Address f, ''dev'', if_Device f] t1 =
      ((ok3, out3), t2)" by (metis prod.exhaust)
  have "t2 = s'" "ok3 \<or> str_contains out3 ''File exists''"
    using assms a3 by (auto simp: assign_address_def Let_def t1_def split: if_splits)
  with ran_earlier [OF f ran_Exec [OF a3]] show ?thesis by blast
qed

lemma provision_vlan_ready:
  assumes "provision_vlan f s = (None, s')"
  shows "vlan_ready s s' f"
proof -
  let ?sh = "[''ip'', ''link'', ''show'', if_Device f]"
  have par: "ParentDevice (if_Device f) \<noteq> []"
    using assms by (auto simp: provision_vlan_def Let_def split: if_splits)
  obtain ok out s1 where x: "os_Exec ?sh s = ((ok, out), s1)" by (metis prod.exhaust)
  obtain e s2 where c: "(if \<not> ok then create_vlan (ParentDevice (if_Device f)) f s1 else (None, s1)) = (e, s2)"
    by (metis prod.exhaust)
  with assms x par have e: "e = None" and a: "assign_address ok f s2 = (None, s')"
    by (auto simp: provision_vlan_def Let_def split: option.splits)
  obtain n3 where n3: "only_runs s2 s' n3"
    using assign_address_runs [of s2 ok f] a by auto
  note after = ran_earlier [OF only_runs_Exec [OF x]]
  have link: "(\<exists>out. ran s s2 ?sh (True, out)) \<or> (\<exists>out. ran s s2 [''ip'', ''link'', ''add'', ''link'', ParentDevice (if_Device f),
      ''name'', if_Device f, ''type'', ''vlan'', ''id'', itoa (if_VLAN f)] (True, out)) \<and>
      (\<exists>out. ran s s2 [''ip'', ''link'', ''set'', if_Device f, ''up''] (True, out))"
  proof (cases ok)
    case True
    with c ran_Exec [OF x] show ?thesis by auto
  next
    case False
    with c e create_vlan_ran [of "ParentDevice (if_Device f)" f s1 s2] have r: "(\<exists>out. ran s1 s2 [''ip'', ''link'', ''add'', ''link'', ParentDevice (if_Device f), ''name'', if_Device f, ''type'',
        ''vlan'', ''id'', itoa (if_VLAN f)] (True, out)) \<and> (\<exists>out. ran s1 s2 [''ip'', ''link'', ''set'', if_Device f, ''up''] (True, out))"
      by simp
    show ?thesis by (rule disjI2, use r after in blast)
  qed
  have "\<exists>new. only_runs s s2 new"
  proof (cases ok)
    case True
    with c only_runs_Exec [OF x] show ?thesis by auto
  next
    case False
    with c create_vlan_runs [of s1 f] only_runs_trans [OF only_runs_Exec [OF x]] show ?thesis by auto
  qed
  then obtain n12 where n12: "only_runs s s2 n12" by blast
  note addr = assign_address_ran [OF a]
  show ?thesis
    unfolding vlan_ready_def
    using link addr ran_later [OF _ n3] ran_earlier [OF n12] by meson
qed

lemma provision_all_ready:
  "provision_all fs s = (None, s') \<Longrightarrow> f \<in> set fs \<Longrightarrow> if_VLAN f > 0 \<Longrightarrow>
     ParentDevice (if_Device f) \<noteq> [] \<and> vlan_ready s s' f"
proof (induction fs arbitrary: s)
  case (Cons g fs)
  show ?case
  proof (cases "if_VLAN g \<le> 0")
    case True
    with Cons show ?thesis by auto
  next
    case False
    with Cons.prems(1) obtain s1 where g: "provision_vlan g s = (None, s1)" "provision_all fs s1 = (None, s')"
      by (auto split: prod.splits option.splits)
    obtain n1 where n1: "only_runs s s1 n1" using provision_vlan_runs [of s g] g(1) by auto
    obtain n2 where n2: "only_runs s1 s' n2" using provision_all_runs [of s1 fs] g(2) by auto
    show ?thesis
    proof (cases "f = g")
      case True
      have "ParentDevice (if_Device g) \<noteq> []"
        using g(1) by (auto simp: provision_vlan_def Let_def split: if_splits)
      with vlan_ready_later [OF provision_vlan_ready [OF g(1)] n2] True show ?thesis by simp
    next
      case False
      with Cons.IH [OF g(2)] Cons.prems vlan_ready_earlier [OF n1] show ?thesis by auto
    qed
  qed
qed simp

section \<open>Reading the kernel's list\<close>

lemma split_first_at: "d \<notin> set a \<Longrightarrow> split_first d (a @ d # b) = [a, b]"
  by (induction a) (auto simp: split_first_def)

lemma split_char_words:
  "\<forall>w \<in> set ws. d \<notin> set w \<Longrightarrow> d \<notin> set a \<Longrightarrow>
     split_char d (a @ concat (map (\<lambda>w. d # w) ws)) = a # ws"
  by (induction ws arbitrary: a) (simp_all add: split_char_none split_char_append)

text \<open>A line of \<^verbatim>\<open>ip -o link show type vlan\<close>: index, device and parent, and the rest.\<close>

record vlan_link =
  vl_index :: nat
  vl_device :: string
  vl_parent :: string
  vl_rest :: string

definition vlan_line :: "vlan_link \<Rightarrow> string" where
  "vlan_line l = nat_text (vl_index l) @ '': '' @ vl_device l @ ''@'' @ vl_parent l @ '': '' @ vl_rest l"

definition vlan_link_ok :: "vlan_link \<Rightarrow> bool" where
  "vlan_link_ok l \<longleftrightarrow> (\<forall>c \<in> set (vl_device l) \<union> set (vl_parent l). \<not> is_space c \<and> c \<noteq> CHR ''@'') \<and>
     one_line (vl_rest l)"

lemma vlan_of_vlan_line:
  assumes "vlan_link_ok l"
  shows "vlan_of_line parent (vlan_line l) = (if vl_parent l = parent then Some (vl_device l) else None)"
proof -
  let ?g = "\<lambda>c. if is_space c then CHR '' '' else c"
  let ?w = "vl_device l @ ''@'' @ vl_parent l @ '':''"
  have sp: "CHR '' '' \<notin> set (vl_device l)" "CHR '' '' \<notin> set (vl_parent l)"
    "map ?g (vl_device l) = vl_device l" "map ?g (vl_parent l) = vl_parent l"
    using assms by (auto simp: vlan_link_ok_def is_space_def map_idI)
  have dg: "map ?g (nat_text n) = nat_text n" for n
    by (rule map_idI) (auto simp: is_space_def dest!: nat_text_digits, auto simp: is_digit_def)
  have m: "map ?g (vlan_line l) = (nat_text (vl_index l) @ '':'') @ CHR '' '' # ?w @ CHR '' '' # map ?g (vl_rest l)"
    by (simp add: vlan_line_def dg sp) (simp add: is_space_def)
  have "split_char (CHR '' '') (map ?g (vlan_line l)) =
      (nat_text (vl_index l) @ '':'') # ?w # split_char (CHR '' '') (map ?g (vl_rest l))"
  proof -
    have w: "CHR '' '' \<notin> set (nat_text (vl_index l) @ '':'')" "CHR '' '' \<notin> set ?w" using sp by simp_all
    show ?thesis unfolding m split_char_append [OF w(1)] split_char_append [OF w(2)] ..
  qed
  then have f: "str_fields (vlan_line l) = (nat_text (vl_index l) @ '':'') # ?w #
      filter (\<lambda>w. w \<noteq> []) (split_char (CHR '' '') (map ?g (vl_rest l)))"
    by (simp add: str_fields_def)
  have "trim_suffix_char (CHR '':'') ?w = vl_device l @ CHR ''@'' # vl_parent l"
    by (simp add: trim_suffix_char_def butlast_append)
  moreover have "CHR ''@'' \<notin> set (vl_device l)" using assms by (auto simp: vlan_link_ok_def)
  ultimately show ?thesis
    by (simp add: vlan_of_line_def f Let_def split_first_at)
qed

text \<open>One configured VLAN, and a kernel that has it and another one on the same parent.\<close>

definition answering_machine :: "(string list list \<Rightarrow> bool \<times> string) \<Rightarrow> os" where
  "answering_machine f = \<lparr>nodes = [], faults = (\<lambda>_. None), tick = 0, seen = [], cmds = [], answer = f\<rparr>"

definition sample_ip :: "string list list \<Rightarrow> bool \<times> string" where
  "sample_ip cs =
     (if last cs = list_cmd then
        (True, text_of [''7: eth2.100@eth2: <BROADCAST> mtu 1500'', ''8: eth2.200@eth2: <BROADCAST> mtu 1500''])
      else (True, []))"

definition vlan_site :: site_config where
  "vlan_site = \<lparr>Hostname = ''v'', Interfaces =
     [\<lparr>if_Name = ''guest'', if_Role = ''lan'', if_Device = ''eth2.100'', if_Address = ''192.168.100.1/24'',
       if_Gateway = [], if_VLAN = 100, if_HealthCheck = None\<rparr>],
     DHCP = None, DNS = None, Firewall = None, ECMP = None, PBR = [], SysctlCfg = None\<rparr>"

section \<open>Properties\<close>

lemma dom_desired_vlans: "dom (map_of (desired_vlans fs)) = if_Device ` {f \<in> set fs. if_VLAN f > 0}"
proof -
  have "dom (map_of (foldl (\<lambda>m f. if if_VLAN f > 0 then AList.update (if_Device f) f m else m) m fs)) =
      dom (map_of m) \<union> if_Device ` {f \<in> set fs. if_VLAN f > 0}" for m :: "(string, interface) gomap"
    by (induction fs arbitrary: m) auto
  then show ?thesis by (simp add: desired_vlans_def)
qed

lemma dom_parent_devices: "dom (map_of (parent_devices ds)) \<subseteq> ParentDevice ` set ds"
proof -
  have "dom (map_of (foldl (\<lambda>m d. if ParentDevice d \<noteq> [] then AList.update (ParentDevice d) True m else m) m ds))
      \<subseteq> dom (map_of m) \<union> ParentDevice ` set ds" for m :: "(string, bool) gomap"
  proof (induction ds arbitrary: m)
    case (Cons d ds)
    from Cons [of m] Cons [of "AList.update (ParentDevice d) True m"] show ?case by auto
  qed simp
  from this [of "[]"] show ?thesis by (simp add: parent_devices_def)
qed

text \<open>A parent that the removal visits is the parent of a configured VLAN.\<close>

lemma visited_parents:
  assumes "\<And>n. some_order (its n)" "p \<in> set (its 1 (keys_of (parent_devices (its 0 (keys_of (desired_vlans fs))))))"
  obtains f where "f \<in> set fs" "if_VLAN f > 0" "p = ParentDevice (if_Device f)"
proof -
  have "p \<in> dom (map_of (parent_devices (its 0 (keys_of (desired_vlans fs)))))"
    using assms by (simp add: set_keys_of)
  then have "p \<in> ParentDevice ` dom (map_of (desired_vlans fs))"
    using dom_parent_devices [of "its 0 (keys_of (desired_vlans fs))"] assms(1) by (simp add: set_keys_of) blast
  with that show thesis unfolding dom_desired_vlans by blast
qed



text \<open>C27. When provisioning reports success, every configured VLAN has a parent device, exists (the
  kernel showed it, or it was added and brought up) and, if its address is static, was assigned it
  or already had it.\<close>

theorem vlan_success:
  assumes "fst (ProvisionVLANs its cfg s) = None" "f \<in> set (Interfaces cfg)" "if_VLAN f > 0"
  shows "ParentDevice (if_Device f) \<noteq> [] \<and> vlan_ready s (snd (ProvisionVLANs its cfg s)) f"
proof -
  let ?d = "desired_vlans (Interfaces cfg)"
  let ?ps = "its 1 (keys_of (parent_devices (its 0 (keys_of ?d))))"
  obtain n where n: "only_runs s (remove_stale ?d ?ps s) n" using remove_stale_runs by blast
  have "provision_all (Interfaces cfg) (remove_stale ?d ?ps s) = (None, snd (ProvisionVLANs its cfg s))"
    using assms(1) by (simp add: ProvisionVLANs_def Let_def prod_eq_iff)
  from provision_all_ready [OF this assms(2,3)] vlan_ready_earlier [OF n] show ?thesis by blast
qed

theorem vlan_success_witness:
  "vlan_ready (answering_machine sample_ip) (snd (ProvisionVLANs (\<lambda>_. id) vlan_site (answering_machine sample_ip)))
     (hd (Interfaces vlan_site))"
proof -
  have "fst (ProvisionVLANs (\<lambda>_. id) vlan_site (answering_machine sample_ip)) = None" by code_simp
  from vlan_success [OF this, of "hd (Interfaces vlan_site)"] show ?thesis by (simp add: vlan_site_def)
qed

text \<open>Without a VLAN in the configuration nothing runs: VLAN devices of earlier configurations
  stay.\<close>

theorem vlan_none_keeps_stale:
  assumes "\<forall>f \<in> set (Interfaces cfg). if_VLAN f \<le> 0" "\<And>n. some_order (its n)"
  shows "ProvisionVLANs its cfg s = (None, s)"
proof -
  have d: "foldl (\<lambda>m f. if if_VLAN f > 0 then AList.update (if_Device f) f m else m) [] fs = []"
    "provision_all fs s = (None, s)" if "\<forall>f \<in> set fs. if_VLAN f \<le> 0" for fs
    using that by (induction fs) auto
  have e: "its n [] = []" for n using assms(2) [of n] by (simp add: some_order_def) (metis mset_zero_iff mset.simps(1))
  show ?thesis
    by (simp add: ProvisionVLANs_def desired_vlans_def d(1) [OF assms(1)] parent_devices_def e d(2) [OF assms(1)])
qed

theorem vlan_none_keeps_stale_witness:
  "ProvisionVLANs (\<lambda>_. id) (vlan_site\<lparr>Interfaces := []\<rparr>) (answering_machine sample_ip) =
     (None, answering_machine sample_ip)"
  by (rule vlan_none_keeps_stale) (simp_all add: some_order_def)

text \<open>C28. The device list is read back from the kernel's text exactly: for every listing, the
  subinterfaces found for a parent are the devices listed with that parent, in order.\<close>

theorem vlan_listing:
  assumes "\<forall>l \<in> set links. vlan_link_ok l"
  shows "vlans_of_output parent (text_of (map vlan_line links)) =
    map vl_device (filter (\<lambda>l. vl_parent l = parent) links)"
proof -
  have "one_line (vlan_line l)" if "vlan_link_ok l" for l
    using that by (auto simp: vlan_line_def vlan_link_ok_def one_line_def is_space_def)
  then have "split_char newline (text_of (map vlan_line links)) = map vlan_line links @ [[]]"
    using lines_of_text_of [of "map vlan_line links"] assms by (simp add: lines_of_def)
  moreover have "vlan_of_line parent [] = None" by (simp add: vlan_of_line_def str_fields_def Let_def)
  moreover have "List.map_filter (vlan_of_line parent) (map vlan_line ls) =
      map vl_device (filter (\<lambda>l. vl_parent l = parent) ls)" if "set ls \<subseteq> set links" for ls
    using that assms
    by (induction ls) (auto simp: map_filter_simps vlan_of_vlan_line)
  ultimately show ?thesis
    by (simp add: vlans_of_output_def map_filter_def)
qed

theorem vlan_listing_witness:
  "vlans_of_output ''eth2'' (text_of (map vlan_line
     [\<lparr>vl_index = 7, vl_device = ''eth2.100'', vl_parent = ''eth2'', vl_rest = ''mtu 1500''\<rparr>,
      \<lparr>vl_index = 8, vl_device = ''eth3.5'', vl_parent = ''eth3'', vl_rest = ''mtu 1500''\<rparr>])) = [''eth2.100'']"
  by (subst vlan_listing) (simp_all add: vlan_link_ok_def is_space_def)

text \<open>The parent of a dotted device is what stands before its last dot, if that is not empty.\<close>

theorem parent_device_spec:
  "ParentDevice d = p \<longleftrightarrow>
     (p \<noteq> [] \<and> (\<exists>v. d = p @ CHR ''.'' # v \<and> CHR ''.'' \<notin> set v)) \<or>
     (p = [] \<and> (\<forall>q v. d = q @ CHR ''.'' # v \<and> CHR ''.'' \<notin> set v \<longrightarrow> q = []))"
proof (cases "last_index (CHR ''.'') d")
  case None
  then have "CHR ''.'' \<notin> set d" by (simp add: last_index_None_iff)
  then have "d \<noteq> q @ CHR ''.'' # v" for q v by auto
  with None show ?thesis by (auto simp: ParentDevice_def)
next
  case (Some i)
  then have i: "i < length d" "d ! i = CHR ''.''" "CHR ''.'' \<notin> set (drop (Suc i) d)"
    using last_index_Some by blast+
  then have d: "d = take i d @ CHR ''.'' # drop (Suc i) d" by (metis id_take_nth_drop)
  have uniq: "q = take i d" if "d = q @ CHR ''.'' # v" "CHR ''.'' \<notin> set v" for q v
    using last_index_append [OF that(2), of q] Some that(1) by simp
  have "ParentDevice d = take i d"
    using Some by (auto simp: ParentDevice_def)
  with d i(3) uniq show ?thesis by (metis)
qed

end
