(* ===== verification/Apply.thy ===== *)
theory Apply
  imports Vlan Frr Sysctl Unbound Nftables Kea
begin

text \<open>
  \<^verbatim>\<open>internal/apply/apply.go\<close>: the pipeline that renders, writes and reloads, with its
  backups, and the atomic write. All statements hold for every schedule of failing calls and every
  answer of the external commands, unless they say otherwise; those about all trees \<open>during\<close> an
  operation cover a crash at any point of it.
\<close>

section \<open>Atomic write\<close>

datatype write_error =
    CreateDirectory string errno
  | CreateTemp errno
  | WriteTemp errno
  | SyncTemp errno
  | CloseTemp errno
  | ChmodTemp errno
  | RenameTemp string string errno

text \<open>The random part of the temporary file's name is a function of the machine.\<close>

definition temp_path :: "(os \<Rightarrow> string) \<Rightarrow> string \<Rightarrow> os \<Rightarrow> string" where
  "temp_path pick dir s = path_join dir (''.warp-'' @ pick s @ ''.tmp'')"

definition atomicWrite :: "(os \<Rightarrow> string) \<Rightarrow> string \<Rightarrow> bytes \<Rightarrow> os \<Rightarrow> write_error option \<times> os" where
  "atomicWrite pick path content s =
     (let dir = path_dir path in
      case os_MkdirAll dir s of (Some e, s1) \<Rightarrow> (Some (CreateDirectory dir e), s1)
      | (None, s1) \<Rightarrow>
     (let tmp = temp_path pick dir s1 in
      case os_CreateTemp tmp s1 of (Some e, s2) \<Rightarrow> (Some (CreateTemp e), s2)
      | (None, s2) \<Rightarrow>
     (case os_WriteString tmp content s2 of
        (Some e, s3) \<Rightarrow> (let s4 = snd (os_Quiet s3) in (Some (WriteTemp e), snd (os_Remove tmp s4)))
      | (None, s3) \<Rightarrow>
     (case os_Quiet s3 of
        (Some e, s4) \<Rightarrow> (let s5 = snd (os_Quiet s4) in (Some (SyncTemp e), snd (os_Remove tmp s5)))
      | (None, s4) \<Rightarrow>
     (case os_Quiet s4 of
        (Some e, s5) \<Rightarrow> (Some (CloseTemp e), snd (os_Remove tmp s5))
      | (None, s5) \<Rightarrow>
     (case os_Quiet s5 of
        (Some e, s6) \<Rightarrow> (Some (ChmodTemp e), snd (os_Remove tmp s6))
      | (None, s6) \<Rightarrow>
     (case os_Rename tmp path s6 of
        (Some e, s7) \<Rightarrow> (Some (RenameTemp tmp path e), snd (os_Remove tmp s7))
      | (None, s7) \<Rightarrow> (None, s7))))))))"

section \<open>Backups\<close>

definition backup_path :: "string \<Rightarrow> string" where
  "backup_path path = path @ ''.warp-backup''"

text \<open>\<^const>\<open>None\<close> is the empty path of a missing file.\<close>

definition backupFile :: "string \<Rightarrow> os \<Rightarrow> (errno + string option) \<times> os" where
  "backupFile path s =
     (case os_ReadFile path s of
        (Inl e, s1) \<Rightarrow> (if e = ENOENT then Inr None else Inl e, s1)
      | (Inr data, s1) \<Rightarrow>
          (case os_WriteFile (backup_path path) data s1 of
             (Some e, s2) \<Rightarrow> (Inl e, s2)
           | (None, s2) \<Rightarrow> (Inr (Some (backup_path path)), s2)))"

fun restore_loop :: "(string, string) gomap \<Rightarrow> string list \<Rightarrow> os \<Rightarrow> os" where
  "restore_loop backups [] s = s"
| "restore_loop backups (configPath # rest) s =
     (let backupPath = the (map_of backups configPath) in
      case os_ReadFile backupPath s of
        (Inl _, s1) \<Rightarrow> restore_loop backups rest s1
      | (Inr data, s1) \<Rightarrow>
          restore_loop backups rest (snd (os_Remove backupPath (snd (os_WriteFile configPath data s1)))))"

definition restoreBackups :: "(string list \<Rightarrow> string list) \<Rightarrow> (string, string) gomap \<Rightarrow> os \<Rightarrow> os" where
  "restoreBackups it backups s = restore_loop backups (it (keys_of backups)) s"

section \<open>The pipeline\<close>

type_synonym reloader = "string \<Rightarrow> os \<Rightarrow> string option \<times> os"

definition systemd_Reload :: reloader where
  "systemd_Reload service s =
     (case os_Exec [''systemctl'', ''reload-or-restart'', service] s of
        ((ok, out), s') \<Rightarrow> (if ok then None else Some out, s'))"

record step =
  st_Name :: string
  st_ConfigPath :: string
  st_Render :: "site_config \<Rightarrow> string + string"
  st_Service :: string

record pipeline =
  pl_Steps :: "step list"
  pl_Reloader :: "reloader option"

definition FRRConfPath :: string where "FRRConfPath = ''/etc/frr/frr.conf''"
definition NFTConfPath :: string where "NFTConfPath = ''/etc/nftables.conf''"
definition KeaConfPath :: string where "KeaConfPath = ''/etc/kea/kea-dhcp4.conf''"
definition UnboundConfPath :: string where
  "UnboundConfPath = ''/etc/unbound/unbound.conf.d/warp-router.conf''"
definition SysctlConfPath :: string where "SysctlConfPath = ''/etc/sysctl.d/90-warp-router.conf''"

definition NewPipeline :: "reloader option \<Rightarrow> pipeline" where
  "NewPipeline reloader =
     \<lparr>pl_Steps =
        [\<lparr>st_Name = ''sysctl'', st_ConfigPath = SysctlConfPath, st_Render = sysctl_Render, st_Service = []\<rparr>,
         \<lparr>st_Name = ''frr'', st_ConfigPath = FRRConfPath, st_Render = frr_Render, st_Service = ''frr''\<rparr>,
         \<lparr>st_Name = ''nftables'', st_ConfigPath = NFTConfPath, st_Render = nft_Render, st_Service = ''nftables''\<rparr>,
         \<lparr>st_Name = ''kea'', st_ConfigPath = KeaConfPath, st_Render = kea_Render,
          st_Service = ''kea-dhcp4-server''\<rparr>,
         \<lparr>st_Name = ''unbound'', st_ConfigPath = UnboundConfPath, st_Render = unbound_Render,
          st_Service = ''unbound''\<rparr>],
      pl_Reloader = reloader\<rparr>"

datatype apply_error =
    VLANError vlan_error
  | RenderError string string
  | StepWriteError string string write_error
  | SysctlError string
  | ReloadError string string

record result =
  rs_Completed :: "string list"
  rs_Failed :: string
  rs_Err :: "apply_error option"

definition applySysctl :: "string \<Rightarrow> os \<Rightarrow> string option \<times> os" where
  "applySysctl path s =
     (case os_Exec [''sysctl'', ''-e'', ''-p'', path] s of
        ((ok, out), s') \<Rightarrow> (if ok then None else Some out, s'))"

fun backup_all :: "step list \<Rightarrow> (string, string) gomap \<Rightarrow> os \<Rightarrow> (string, string) gomap \<times> os" where
  "backup_all [] m s = (m, s)"
| "backup_all (st # sts) m s =
     (case backupFile (st_ConfigPath st) s of
        (Inr (Some b), s') \<Rightarrow> backup_all sts (AList.update (st_ConfigPath st) b m) s'
      | (_, s') \<Rightarrow> backup_all sts m s')"

text \<open>One turn of the main loop: the error that ends it, or \<^const>\<open>None\<close>.\<close>

definition run_step :: "(os \<Rightarrow> string) \<Rightarrow> reloader option \<Rightarrow> site_config \<Rightarrow> step \<Rightarrow> os \<Rightarrow> apply_error option \<times> os" where
  "run_step pick reloader cfg st s =
     (case st_Render st cfg of
        Inl e \<Rightarrow> (Some (RenderError (st_Name st) e), s)
      | Inr content \<Rightarrow>
          (case atomicWrite pick (st_ConfigPath st) content s of
             (Some e, s1) \<Rightarrow> (Some (StepWriteError (st_Name st) (st_ConfigPath st) e), s1)
           | (None, s1) \<Rightarrow>
               (case (if st_Name st = ''sysctl'' then applySysctl (st_ConfigPath st) s1 else (None, s1)) of
                  (Some e, s2) \<Rightarrow> (Some (SysctlError e), s2)
                | (None, s2) \<Rightarrow>
                    (case reloader of
                       Some reload \<Rightarrow>
                         if st_Service st \<noteq> [] then
                           (case reload (st_Service st) s2 of
                              (Some e, s3) \<Rightarrow> (Some (ReloadError (st_Service st) e), s3)
                            | (None, s3) \<Rightarrow> (None, s3))
                         else (None, s2)
                     | None \<Rightarrow> (None, s2)))))"

fun run_steps :: "(os \<Rightarrow> string) \<Rightarrow> reloader option \<Rightarrow> site_config \<Rightarrow> step list \<Rightarrow> string list \<Rightarrow> os \<Rightarrow> result \<times> os" where
  "run_steps pick reloader cfg [] completed s = (\<lparr>rs_Completed = completed, rs_Failed = [], rs_Err = None\<rparr>, s)"
| "run_steps pick reloader cfg (st # sts) completed s =
     (case run_step pick reloader cfg st s of
        (Some e, s') \<Rightarrow> (\<lparr>rs_Completed = completed, rs_Failed = st_Name st, rs_Err = Some e\<rparr>, s')
      | (None, s') \<Rightarrow> run_steps pick reloader cfg sts (completed @ [st_Name st]) s')"

fun remove_all :: "string list \<Rightarrow> os \<Rightarrow> os" where
  "remove_all [] s = s"
| "remove_all (p # ps) s = remove_all ps (snd (os_Remove p s))"

text \<open>\<open>its 0\<close> and \<open>its 1\<close> are the orders of the VLAN loops, \<open>its 2\<close> that of the loops over the
  backups.\<close>

definition Execute :: "(os \<Rightarrow> string) \<Rightarrow> (nat \<Rightarrow> string list \<Rightarrow> string list) \<Rightarrow> pipeline \<Rightarrow> site_config \<Rightarrow> os \<Rightarrow> result \<times> os" where
  "Execute pick its p cfg s =
     (case ProvisionVLANs its cfg s of
        (Some e, s1) \<Rightarrow> (\<lparr>rs_Completed = [], rs_Failed = ''vlan'', rs_Err = Some (VLANError e)\<rparr>, s1)
      | (None, s1) \<Rightarrow>
          (case backup_all (pl_Steps p) [] s1 of (backups, s2) \<Rightarrow>
             (case run_steps pick (pl_Reloader p) cfg (pl_Steps p) [] s2 of (res, s3) \<Rightarrow>
                (if rs_Err res \<noteq> None then (res, restoreBackups (its 2) backups s3)
                 else (res, remove_all (map (\<lambda>k. the (map_of backups k)) (its 2 (keys_of backups))) s3)))))"

section \<open>The atomic write\<close>

definition is_temp :: "string \<Rightarrow> bool" where
  "is_temp p \<longleftrightarrow> starts_with ''.warp-'' (path_base p)"

definition pick_ok :: "(os \<Rightarrow> string) \<Rightarrow> bool" where
  "pick_ok pick \<longleftrightarrow> (\<forall>s. CHR ''/'' \<notin> set (pick s))"

lemma is_temp_temp_path: "pick_ok pick \<Longrightarrow> is_temp (temp_path pick dir s)"
  using last_index_append [of "CHR ''/''" "''.warp-'' @ pick s @ ''.tmp''" dir]
  by (simp add: is_temp_def temp_path_def path_base_def path_join_def pick_ok_def starts_with_def)

text \<open>The directories that a write of the path may have to make.\<close>

definition above :: "string \<Rightarrow> string \<Rightarrow> bool" where
  "above p q \<longleftrightarrow> q \<in> set (path_prefixes (path_dir p))"

text \<open>A path that a step may write: no temporary file, and not above its own directory.\<close>

definition config_path :: "string \<Rightarrow> bool" where
  "config_path p \<longleftrightarrow> \<not> is_temp p \<and> \<not> above p p"

text \<open>Calls that change only paths in \<open>X\<close> and make missing directories among \<open>D\<close>, at every moment.\<close>

definition confined :: "(string \<Rightarrow> bool) \<Rightarrow> (string \<Rightarrow> bool) \<Rightarrow> os \<Rightarrow> os \<Rightarrow> bool" where
  "confined D X s s' \<longleftrightarrow> during (untouched D X (nodes s)) s s' \<and> untouched D X (nodes s) (nodes s') \<and> faults s' = faults s"

lemma confined_trans:
  assumes "confined D X s s'" "confined D X s' s''"
  shows "confined D X s s''"
proof -
  have "during (untouched D X (nodes s)) s' s''"
    by (rule during_mono [of "untouched D X (nodes s')"]) (use assms in \<open>auto simp: confined_def intro: untouched_trans\<close>)
  with assms show ?thesis by (auto simp: confined_def intro: during_trans untouched_trans)
qed

lemma confined_call: "untouched D X (nodes s) t \<Longrightarrow> confined D X s (end_call t s)"
  by (simp add: confined_def during_call)

lemma confined_mono: "confined D X s s' \<Longrightarrow> (\<And>q. X q \<Longrightarrow> Y q) \<Longrightarrow> confined D Y s s'"
  by (auto simp: confined_def intro: untouched_mono during_mono)

lemma confined_calls:
  "os_MkdirAll (path_dir path) s = (e, s') \<Longrightarrow> confined (above path) X s s'"
  "os_CreateTemp tmp s = (e, s') \<Longrightarrow> confined D (\<lambda>q. q = tmp) s s'"
  "os_WriteString tmp d s = (e, s') \<Longrightarrow> confined D (\<lambda>q. q = tmp) s s'"
  "os_Quiet s = (e, s') \<Longrightarrow> confined D X s s'"
  "os_Remove tmp s = (e, s') \<Longrightarrow> confined D (\<lambda>q. q = tmp) s s'"
  "os_Rename tmp path s = (Some x, s') \<Longrightarrow> confined D X s s'"
proof -
  show "os_MkdirAll (path_dir path) s = (e, s') \<Longrightarrow> confined (above path) X s s'"
    by (auto dest!: os_MkdirAll_call intro!: confined_call simp: above_def [abs_def] intro: untouched_mono)
  show "os_CreateTemp tmp s = (e, s') \<Longrightarrow> confined D (\<lambda>q. q = tmp) s s'"
    by (auto dest!: os_CreateTemp_call intro!: confined_call same_but_untouched simp: same_but_def split: if_splits)
  show "os_WriteString tmp d s = (e, s') \<Longrightarrow> confined D (\<lambda>q. q = tmp) s s'"
    by (auto dest!: os_WriteString_call intro!: confined_call same_but_untouched)
  show "os_Quiet s = (e, s') \<Longrightarrow> confined D X s s'"
    by (auto dest!: os_Quiet_call intro!: confined_call)
  show "os_Remove tmp s = (e, s') \<Longrightarrow> confined D (\<lambda>q. q = tmp) s s'"
    by (auto dest!: os_Remove_call intro!: confined_call same_but_untouched)
  show "os_Rename tmp path s = (Some x, s') \<Longrightarrow> confined D X s s'"
    by (auto simp: os_Rename_def intro!: confined_call split: if_splits option.splits)
qed

lemmas confined_remove = confined_calls(5) [OF prod.collapse [symmetric]]

text \<open>The two ways an atomic write can go: nothing but its temporary file is touched, or as the last call
  that file, complete, takes the place of the path.\<close>

lemma atomicWrite_cases:
  assumes w: "atomicWrite pick path content s = (e, s')"
  obtains (failed) x tmp s1 where "e = Some x" "tmp = temp_path pick (path_dir path) s1" "confined (above path) (\<lambda>q. q = tmp) s s'"
  | (renamed) tmp s1 y where "e = None" "tmp = temp_path pick (path_dir path) s1" "confined (above path) (\<lambda>q. q = tmp) s y"
      "map_of (nodes y) tmp = Some (File content)" "os_Rename tmp path y = (None, s')"
proof -
  obtain e1 s1 where m: "os_MkdirAll (path_dir path) s = (e1, s1)" by fastforce
  define tmp where "tmp = temp_path pick (path_dir path) s1"
  let ?c = "confined (above path) (\<lambda>q. q = tmp)"
  note step = confined_trans [of "above path" "\<lambda>q. q = tmp"]
  have c1: "?c s s1" using confined_calls(1) [OF m] .
  have fail: thesis if "e = Some x" "?c s s'" for x using failed [OF that(1) tmp_def that(2)] .
  have removed: thesis if "e = Some x" "s' = snd (os_Remove tmp y)" "?c s y" for x y
    using fail [OF that(1)] step [OF that(3) confined_remove] that(2) by simp
  show thesis
  proof (cases e1)
    case None
    obtain e2 s2 where c: "os_CreateTemp tmp s1 = (e2, s2)" by fastforce
    obtain e3 s3 where ws: "os_WriteString tmp content s2 = (e3, s3)" by fastforce
    obtain e4 s4 where q4: "os_Quiet s3 = (e4, s4)" by fastforce
    obtain e5 s5 where q5: "os_Quiet s4 = (e5, s5)" by fastforce
    obtain e6 s6 where q6: "os_Quiet s5 = (e6, s6)" by fastforce
    obtain e7 s7 where r: "os_Rename tmp path s6 = (e7, s7)" by fastforce
    have c2: "?c s s2" by (rule step [OF c1 confined_calls(2) [OF c]])
    have c3: "?c s s3" by (rule step [OF c2 confined_calls(3) [OF ws]])
    have c4: "?c s s4" by (rule step [OF c3 confined_calls(4) [OF q4]])
    have c5: "?c s s5" by (rule step [OF c4 confined_calls(4) [OF q5]])
    have c6: "?c s s6" by (rule step [OF c5 confined_calls(4) [OF q6]])
    note pre = w m None c ws q4 q5 q6 r
    note def = atomicWrite_def Let_def tmp_def
    consider "e2 \<noteq> None" | "e2 = None" "e3 \<noteq> None" | "e2 = None" "e3 = None" "e4 \<noteq> None"
      | "e2 = None" "e3 = None" "e4 = None" "e5 \<noteq> None" | "e2 = None" "e3 = None" "e4 = None" "e5 = None" "e6 \<noteq> None"
      | "e2 = None" "e3 = None" "e4 = None" "e5 = None" "e6 = None" "e7 \<noteq> None"
      | "e2 = None" "e3 = None" "e4 = None" "e5 = None" "e6 = None" "e7 = None" by blast
    then show thesis
    proof cases
      case 6
      then have "?c s s7" using r by (auto intro: step [OF c6 confined_calls(6)])
      with 6 pre removed show thesis by (auto simp: def)
    next
      case 7
      have "nodes s6 = nodes s3" using os_Quiet_call [OF q4] os_Quiet_call [OF q5] os_Quiet_call [OF q6] by simp
      then have "map_of (nodes s6) tmp = Some (File content)" using os_WriteString_call [OF ws] 7 by auto
      with 7 pre renamed [OF _ tmp_def c6] show thesis by (auto simp: def)
    qed (use pre fail removed c2 c4 c5 c6 in \<open>auto simp: def\<close>)
  qed (use w m c1 fail in \<open>auto simp: atomicWrite_def Let_def\<close>)
qed

text \<open>The path holds its old content or the new content in every tree, the new one exactly on
  success; besides it and temporary files only missing directories change.\<close>

lemma atomicWrite_spec:
  assumes w: "atomicWrite pick path content s = (e, s')" and "pick_ok pick" "config_path path"
  shows "during (\<lambda>t. untouched (above path) (\<lambda>q. is_temp q \<or> q = path) (nodes s) t \<and>
      (map_of t path = map_of (nodes s) path \<or> map_of t path = Some (File content))) s s' \<and>
    untouched (above path) (\<lambda>q. is_temp q \<or> q = path) (nodes s) (nodes s') \<and>
    map_of (nodes s') path = (if e = None then Some (File content) else map_of (nodes s) path) \<and>
    faults s' = faults s"
proof -
  let ?P = "\<lambda>t. untouched (above path) (\<lambda>q. is_temp q \<or> q = path) (nodes s) t \<and>
      (map_of t path = map_of (nodes s) path \<or> map_of t path = Some (File content))"
  have temp: "is_temp tmp" "tmp \<noteq> path" if "tmp = temp_path pick (path_dir path) s1" for tmp s1
    using is_temp_temp_path assms(2,3) that unfolding config_path_def by metis+
  have old: "during ?P s x \<and> ?P (nodes x) \<and> map_of (nodes x) path = map_of (nodes s) path \<and> faults x = faults s"
    if "confined (above path) (\<lambda>q. q = tmp) s x" "tmp = temp_path pick (path_dir path) s1" for x tmp s1
  proof -
    have same: "untouched (above path) (\<lambda>q. is_temp q \<or> q = path) (nodes s) t" "map_of t path = map_of (nodes s) path"
      if "untouched (above path) (\<lambda>q. q = tmp) (nodes s) t" for t
    proof -
      show "untouched (above path) (\<lambda>q. is_temp q \<or> q = path) (nodes s) t"
        by (rule untouched_mono [OF that]) (simp_all add: temp [OF \<open>tmp = _\<close>])
      show "map_of t path = map_of (nodes s) path"
        using untouched_same [OF that] temp(2) [OF \<open>tmp = _\<close>] assms(3) by (simp add: config_path_def)
    qed
    note u = that(1) [unfolded confined_def]
    have "during ?P s x"
      by (rule during_mono [OF u [THEN conjunct1]]) (intro conjI disjI1; elim same)
    moreover note same [OF u [THEN conjunct2, THEN conjunct1]]
    ultimately show ?thesis using u by (intro conjI disjI1) blast+
  qed
  from w show ?thesis
  proof (cases rule: atomicWrite_cases)
    case (failed x tmp s1)
    with old [OF failed(3,2)] show ?thesis by simp
  next
    case (renamed tmp s1 y)
    note O = old [OF renamed(3,2)] and T = temp [OF renamed(2)]
    obtain t where t: "s' = end_call t y" "same_but (\<lambda>x. x = tmp \<or> x = path) (nodes y) t" "map_of t path = Some (File content)"
      using os_Rename_call [OF renamed(5) T(2)] renamed(4) by auto
    have "untouched (above path) (\<lambda>q. is_temp q \<or> q = path) (nodes y) t"
      by (rule untouched_mono [OF same_but_untouched [OF t(2)]]) (auto simp: T)
    then have "?P t" using O t(3) untouched_trans by blast
    then show ?thesis using O t renamed(1) by (auto intro: during_trans during_call)
  qed
qed

section \<open>The steps\<close>

text \<open>What the pipeline needs of its steps: distinct paths, none of which is a temporary file, a backup
  of another or a directory above another.\<close>

definition paths_of :: "step list \<Rightarrow> string set" where
  "paths_of sts = st_ConfigPath ` set sts"

definition above_any :: "step list \<Rightarrow> string \<Rightarrow> bool" where
  "above_any sts q \<longleftrightarrow> (\<exists>p \<in> paths_of sts. above p q)"

definition steps_ok :: "step list \<Rightarrow> bool" where
  "steps_ok sts \<longleftrightarrow> distinct (map st_ConfigPath sts) \<and>
     (\<forall>p \<in> paths_of sts. \<not> is_temp p \<and> \<not> is_temp (backup_path p) \<and> \<not> is_temp (path_dir p) \<and>
        backup_path p \<notin> paths_of sts \<and> \<not> above_any sts p \<and> \<not> above_any sts (backup_path p))"

definition harmless :: "reloader option \<Rightarrow> bool" where
  "harmless reloader \<longleftrightarrow> (\<forall>r svc s. reloader = Some r \<longrightarrow>
     nodes (snd (r svc s)) = nodes s \<and> seen (snd (r svc s)) = seen s \<and> faults (snd (r svc s)) = faults s)"

lemma harmless_systemd: "harmless (Some systemd_Reload)" "harmless None"
  by (simp_all add: harmless_def systemd_Reload_def os_Exec_def split: prod.split)

definition between :: "site_config \<Rightarrow> step list \<Rightarrow> tree \<Rightarrow> tree \<Rightarrow> bool" where
  "between cfg sts t t' \<longleftrightarrow> untouched (above_any sts) (\<lambda>q. is_temp q \<or> q \<in> paths_of sts) t t' \<and>
     (\<forall>st \<in> set sts. map_of t' (st_ConfigPath st) = map_of t (st_ConfigPath st) \<or>
        (\<exists>c. st_Render st cfg = Inr c \<and> map_of t' (st_ConfigPath st) = Some (File c)))"

lemma between_refl [simp]: "between cfg sts t t"
  by (simp add: between_def)

lemma between_trans: "between cfg sts t t' \<Longrightarrow> between cfg sts t' t'' \<Longrightarrow> between cfg sts t t''"
  unfolding between_def
proof (elim conjE, rule conjI, goal_cases)
  case 1 then show ?case by (rule_tac untouched_trans)
next
  case 2 show ?case
  proof
    fix st assume "st \<in> set sts"
    with 2 have "map_of t' (st_ConfigPath st) = map_of t (st_ConfigPath st) \<or>
        (\<exists>c. st_Render st cfg = Inr c \<and> map_of t' (st_ConfigPath st) = Some (File c))"
      "map_of t'' (st_ConfigPath st) = map_of t' (st_ConfigPath st) \<or>
        (\<exists>c. st_Render st cfg = Inr c \<and> map_of t'' (st_ConfigPath st) = Some (File c))" by blast+
    then show "map_of t'' (st_ConfigPath st) = map_of t (st_ConfigPath st) \<or>
        (\<exists>c. st_Render st cfg = Inr c \<and> map_of t'' (st_ConfigPath st) = Some (File c))" by auto
  qed
qed

lemma paths_of_simps [simp]: "paths_of [] = {}" "paths_of (st # sts) = insert (st_ConfigPath st) (paths_of sts)"
  by (simp_all add: paths_of_def)

lemma above_any_simps [simp]: "above_any [] q \<longleftrightarrow> False"
  "above_any (st # sts) q \<longleftrightarrow> above (st_ConfigPath st) q \<or> above_any sts q"
  by (simp_all add: above_any_def)

lemma between_weaken:
  assumes "steps_ok all" "set sts \<subseteq> set all" "between cfg sts t t'"
  shows "between cfg all t t'"
proof -
  have sub: "paths_of sts \<subseteq> paths_of all" using assms(2) by (auto simp: paths_of_def)
  have "untouched (above_any all) (\<lambda>q. is_temp q \<or> q \<in> paths_of all) t t'"
    using assms(3) unfolding between_def
    by (elim conjE untouched_mono) (use sub in \<open>auto simp: above_any_def\<close>)
  moreover have "map_of t' (st_ConfigPath st) = map_of t (st_ConfigPath st) \<or>
      (\<exists>c. st_Render st cfg = Inr c \<and> map_of t' (st_ConfigPath st) = Some (File c))"
    if "st \<in> set all" for st
  proof (cases "st_ConfigPath st \<in> paths_of sts")
    case True
    then obtain st' where st': "st' \<in> set sts" "st_ConfigPath st' = st_ConfigPath st"
      by (auto simp: paths_of_def)
    then have "st' = st"
      using assms(1,2) that by (auto simp: steps_ok_def distinct_map inj_on_def)
    with st' assms(3) show ?thesis by (simp add: between_def)
  next
    case False
    have p: "st_ConfigPath st \<in> paths_of all" using that by (simp add: paths_of_def)
    then have "\<not> is_temp (st_ConfigPath st)" "\<not> above_any all (st_ConfigPath st)"
      using assms(1) by (auto simp: steps_ok_def)
    then have "\<not> above_any sts (st_ConfigPath st)" using sub by (auto simp: above_any_def)
    with False \<open>\<not> is_temp (st_ConfigPath st)\<close> assms(3) show ?thesis
      by (auto simp: between_def dest: untouched_same [where q = "st_ConfigPath st"])
  qed
  ultimately show ?thesis by (simp add: between_def)
qed

lemma steps_ok_Cons: "steps_ok (st # sts) \<Longrightarrow> steps_ok sts"
  by (auto simp: steps_ok_def above_any_def)

lemma run_step_spec:
  assumes "run_step pick rl cfg st s = (e, s')" "pick_ok pick" "harmless rl"
    "\<not> is_temp (st_ConfigPath st)" "\<not> above (st_ConfigPath st) (st_ConfigPath st)"
  shows "during (between cfg [st] (nodes s)) s s' \<and> between cfg [st] (nodes s) (nodes s') \<and> faults s' = faults s \<and>
    (e = None \<longrightarrow> (\<exists>c. st_Render st cfg = Inr c \<and> map_of (nodes s') (st_ConfigPath st) = Some (File c)))"
proof (cases "st_Render st cfg")
  case (Inl x)
  with assms(1) show ?thesis by (auto simp: run_step_def)
next
  case (Inr c)
  let ?p = "st_ConfigPath st"
  obtain e1 s1 where w: "atomicWrite pick ?p c s = (e1, s1)" by fastforce
  note A = atomicWrite_spec [OF w assms(2)]
  have cp: "config_path ?p" using assms(4,5) by (simp add: config_path_def)
  have D: "above_any [st] = above ?p" by (simp add: fun_eq_iff)
  have X: "(\<lambda>q. is_temp q \<or> q \<in> paths_of [st]) = (\<lambda>q. is_temp q \<or> q = ?p)" by auto
  have b: "during (between cfg [st] (nodes s)) s s1" "between cfg [st] (nodes s) (nodes s1)"
    using A [OF cp] Inr unfolding between_def D X by (auto intro: during_mono)
  have rest: "nodes s' = nodes s1 \<and> seen s' = seen s1 \<and> faults s' = faults s1 \<and> (e = None \<longrightarrow> e1 = None)"
  proof (cases e1)
    case (Some x)
    with assms(1) Inr w show ?thesis by (auto simp: run_step_def)
  next
    case None
    obtain e2 s2 where y: "(if st_Name st = ''sysctl'' then applySysctl ?p s1 else (None, s1)) = (e2, s2)" by fastforce
    have s2: "nodes s2 = nodes s1 \<and> seen s2 = seen s1 \<and> faults s2 = faults s1"
      using y by (auto simp: applySysctl_def os_Exec_def split: if_splits prod.splits)
    show ?thesis
    proof (cases "e2 = None \<and> rl \<noteq> None \<and> st_Service st \<noteq> []")
      case True
      then obtain r e3 s3 where r: "rl = Some r" "r (st_Service st) s2 = (e3, s3)" by fastforce
      have "nodes s3 = nodes s2 \<and> seen s3 = seen s2 \<and> faults s3 = faults s2"
        using assms(3) r unfolding harmless_def by (metis snd_conv)
      with True assms(1) Inr w None y r s2 show ?thesis
        by (auto simp: run_step_def split: option.splits)
    next
      case False
      with assms(1) Inr w None y s2 show ?thesis
        by (auto simp: run_step_def split: option.splits)
    qed
  qed
  have "during (between cfg [st] (nodes s)) s s'"
    using b(1) rest by (simp add: during_def)
  moreover have "faults s' = faults s" using rest A [OF cp] by simp
  moreover have "e = None \<longrightarrow> (\<exists>c. st_Render st cfg = Inr c \<and> map_of (nodes s') ?p = Some (File c))"
    using rest A [OF cp] Inr by auto
  ultimately show ?thesis using b(2) rest by simp
qed

lemma run_steps_spec:
  assumes "run_steps pick rl cfg sts completed s = (res, s')" "pick_ok pick" "harmless rl" "steps_ok sts"
  shows "during (between cfg sts (nodes s)) s s' \<and> between cfg sts (nodes s) (nodes s') \<and> faults s' = faults s \<and>
    (rs_Err res = None \<longrightarrow> rs_Failed res = [] \<and> rs_Completed res = completed @ map st_Name sts \<and>
       (\<forall>st \<in> set sts. \<exists>c. st_Render st cfg = Inr c \<and> map_of (nodes s') (st_ConfigPath st) = Some (File c))) \<and>
    (rs_Err res \<noteq> None \<longrightarrow> (\<exists>k < length sts. rs_Failed res = st_Name (sts ! k) \<and>
       rs_Completed res = completed @ map st_Name (take k sts) \<and>
       (\<forall>st \<in> set (take k sts). \<exists>c. st_Render st cfg = Inr c \<and> map_of (nodes s') (st_ConfigPath st) = Some (File c))))"
  using assms
proof (induction sts arbitrary: completed s)
  case (Cons st sts)
  obtain e s1 where r: "run_step pick rl cfg st s = (e, s1)" by fastforce
  have ok: "\<not> is_temp (st_ConfigPath st)" "\<not> above (st_ConfigPath st) (st_ConfigPath st)"
    "st_ConfigPath st \<notin> paths_of sts" "\<not> above_any sts (st_ConfigPath st)"
    using Cons.prems(4) by (auto simp: steps_ok_def paths_of_def)
  note S = run_step_spec [OF r Cons.prems(2,3) ok(1,2)]
  have weak1: "between cfg (st # sts) t t'" if "between cfg [st] t t'" for t t'
    using between_weaken [OF Cons.prems(4) _ that] by simp
  have weak2: "between cfg (st # sts) t t'" if "between cfg sts t t'" for t t'
    using between_weaken [OF Cons.prems(4) _ that] by auto
  show ?case
  proof (cases e)
    case (Some x)
    then have "res = \<lparr>rs_Completed = completed, rs_Failed = st_Name st, rs_Err = Some x\<rparr>" "s' = s1"
      using Cons.prems(1) r by simp_all
    with S weak1 show ?thesis by (auto intro: during_mono)
  next
    case None
    then have rest: "run_steps pick rl cfg sts (completed @ [st_Name st]) s1 = (res, s')"
      using Cons.prems(1) r by simp
    note R = Cons.IH [OF rest Cons.prems(2,3) steps_ok_Cons [OF Cons.prems(4)]]
    have b1: "between cfg (st # sts) (nodes s) (nodes s1)" using S weak1 by blast
    have "during (between cfg (st # sts) (nodes s)) s s1" using S weak1 by (auto intro: during_mono)
    moreover have "during (between cfg (st # sts) (nodes s)) s1 s'"
      using R weak2 between_trans [OF b1] by (auto intro: during_mono)
    ultimately have d: "during (between cfg (st # sts) (nodes s)) s s'" by (rule during_trans)
    have b: "between cfg (st # sts) (nodes s) (nodes s')"
      using R weak2 between_trans [OF b1] by blast
    have keep: "map_of (nodes s') (st_ConfigPath st) = map_of (nodes s1) (st_ConfigPath st)"
      using R ok by (auto simp: between_def dest: untouched_same [where q = "st_ConfigPath st"])
    have good: "rs_Err res = None \<longrightarrow> rs_Failed res = [] \<and> rs_Completed res = completed @ map st_Name (st # sts) \<and>
       (\<forall>st \<in> set (st # sts). \<exists>c. st_Render st cfg = Inr c \<and> map_of (nodes s') (st_ConfigPath st) = Some (File c))"
      using R S None keep by auto
    have bad: "\<exists>k < length (st # sts). rs_Failed res = st_Name ((st # sts) ! k) \<and>
       rs_Completed res = completed @ map st_Name (take k (st # sts)) \<and> (\<forall>st \<in> set (take k (st # sts)).
         \<exists>c. st_Render st cfg = Inr c \<and> map_of (nodes s') (st_ConfigPath st) = Some (File c))" if "rs_Err res \<noteq> None"
    proof -
      from R that obtain k where "k < length sts" "rs_Failed res = st_Name (sts ! k)"
        "rs_Completed res = (completed @ [st_Name st]) @ map st_Name (take k sts)"
        "\<forall>st \<in> set (take k sts). \<exists>c. st_Render st cfg = Inr c \<and>
           map_of (nodes s') (st_ConfigPath st) = Some (File c)" by blast
      then show ?thesis using S None keep by (intro exI [of _ "Suc k"]) simp
    qed
    show ?thesis using d b good bad S R by simp
  qed
qed auto

end
