(* ===== verification/Rollback.thy ===== *)
theory Rollback
  imports Apply "HOL-Library.Sublist"
begin

text \<open>
  What \<^verbatim>\<open>Pipeline.Execute\<close> of \<^verbatim>\<open>internal/apply/apply.go\<close> guarantees: the files after a
  successful run and at every moment of it, what a failed run restores and what it does not, and the
  commands it runs.
\<close>

section \<open>Backups\<close>

text \<open>Paths that hold a regular file or nothing.\<close>

definition file_or_none :: "tree \<Rightarrow> string \<Rightarrow> bool" where
  "file_or_none t q \<longleftrightarrow> map_of t q = None \<or> (\<exists>d. map_of t q = Some (File d))"

lemma file_or_none_code [code]:
  "file_or_none t q \<longleftrightarrow> (case map_of t q of None \<Rightarrow> True | Some (File _) \<Rightarrow> True | _ \<Rightarrow> False)"
  by (auto simp: file_or_none_def split: option.splits node.splits)

lemma file_or_none_resolve: "file_or_none t q \<Longrightarrow> resolve t q = q"
  by (auto simp: file_or_none_def resolve_def)

lemma file_or_none_not_dir: "file_or_none t q \<Longrightarrow> \<not> is_dir t q"
  by (auto simp: file_or_none_def is_dir_def)

lemma file_or_none_write: "os_WriteFile p d s = (e, s') \<Longrightarrow> file_or_none (nodes s) q \<Longrightarrow> file_or_none (nodes s') q"
  using os_WriteFile_node [of p d s e s' q] by (auto simp: file_or_none_def)

text \<open>The tree a run starts on: configuration files and backups are regular files or missing, and
  a file has its directory.\<close>

definition ready :: "step list \<Rightarrow> tree \<Rightarrow> bool" where
  "ready sts t \<longleftrightarrow> (\<forall>p \<in> paths_of sts. file_or_none t p \<and> file_or_none t (backup_path p) \<and>
     (map_of t p \<noteq> None \<longrightarrow> is_dir t (path_dir p)))"

lemma backup_path_inject [simp]: "backup_path p = backup_path q \<longleftrightarrow> p = q"
  by (simp add: backup_path_def)

lemma path_dir_backup: "path_dir (backup_path p) = path_dir p"
proof (cases "last_index (CHR ''/'') p")
  case None
  then have "last_index (CHR ''/'') (backup_path p) = None"
    by (auto simp: last_index_None_iff backup_path_def)
  with None show ?thesis by (simp add: path_dir_def)
next
  case (Some i)
  then have i: "i < length p" "p ! i = CHR ''/''" "CHR ''/'' \<notin> set (drop (Suc i) p)"
    using last_index_Some by fastforce+
  then have "backup_path p = take i p @ CHR ''/'' # (drop (Suc i) p @ ''.warp-backup'')"
    by (simp add: backup_path_def id_take_nth_drop [symmetric])
       (metis append_Cons append_assoc id_take_nth_drop)
  then have "last_index (CHR ''/'') (backup_path p) = Some i"
    using last_index_append [of "CHR ''/''" "drop (Suc i) p @ ''.warp-backup''" "take i p"] i by simp
  with Some i show ?thesis by (auto simp: path_dir_def backup_path_def split: nat.splits)
qed

lemma backupFile_call:
  assumes "backupFile p s = (r, s')" "file_or_none (nodes s) (backup_path p)"
  shows "same_but (\<lambda>q. q = backup_path p) (nodes s) (nodes s')"
    "during (same_but (\<lambda>q. q = backup_path p) (nodes s)) s s'"
    "cmds s' = cmds s \<and> faults s' = faults s"
    "file_or_none (nodes s) q \<Longrightarrow> file_or_none (nodes s') q"
    "r = Inr (Some b) \<Longrightarrow> b = backup_path p \<and> map_of (nodes s) (resolve (nodes s) p) \<noteq> None"
proof -
  obtain x s1 where rd: "os_ReadFile p s = (x, s1)" by fastforce
  note s1 = os_ReadFile_call [OF rd]
  have d1: "during (same_but (\<lambda>q. q = backup_path p) (nodes s)) s s1" by (simp add: s1 during_call)
  have all: "same_but (\<lambda>q. q = backup_path p) (nodes s) (nodes s') \<and>
    during (same_but (\<lambda>q. q = backup_path p) (nodes s)) s s' \<and> cmds s' = cmds s \<and> faults s' = faults s \<and>
    (file_or_none (nodes s) q \<longrightarrow> file_or_none (nodes s') q) \<and>
    (r = Inr (Some b) \<longrightarrow> b = backup_path p \<and> map_of (nodes s) (resolve (nodes s) p) \<noteq> None)"
  proof (cases x)
    case (Inl e)
    then have "s' = s1" "r \<noteq> Inr (Some b)" using assms(1) rd by (auto simp: backupFile_def split: if_splits)
    with d1 show ?thesis by (simp add: s1)
  next
    case (Inr d)
    then have ex: "map_of (nodes s) (resolve (nodes s) p) \<noteq> None"
      using rd by (auto simp: os_ReadFile_def Let_def split: option.splits)
    obtain e s2 where w: "os_WriteFile (backup_path p) d s1 = (e, s2)" by fastforce
    have "s' = s2" "r = Inr (Some b) \<Longrightarrow> b = backup_path p"
      using assms(1) rd Inr w by (auto simp: backupFile_def split: option.splits)
    moreover obtain t where t: "s2 = end_call t s1" "same_but (\<lambda>q. q = backup_path p) (nodes s) t"
      using os_WriteFile_call [OF w] file_or_none_resolve [OF assms(2)] s1 by auto
    moreover have "file_or_none (nodes s) q \<longrightarrow> file_or_none (nodes s2) q"
      using file_or_none_write [OF w] s1 by simp
    ultimately show ?thesis using d1 ex during_trans [OF d1 during_call] by (simp add: s1)
  qed
  then show "same_but (\<lambda>q. q = backup_path p) (nodes s) (nodes s')"
    "during (same_but (\<lambda>q. q = backup_path p) (nodes s)) s s'" "cmds s' = cmds s \<and> faults s' = faults s"
    "file_or_none (nodes s) q \<Longrightarrow> file_or_none (nodes s') q"
    "r = Inr (Some b) \<Longrightarrow> b = backup_path p \<and> map_of (nodes s) (resolve (nodes s) p) \<noteq> None" by blast+
qed

lemma backupFile_ok:
  assumes "faults s = (\<lambda>_. None)" "map_of (nodes s) p = Some (File d)" "file_or_none (nodes s) (backup_path p)"
    "is_dir (nodes s) (path_dir p)" "backupFile p s = (r, s')"
  shows "r = Inr (Some (backup_path p)) \<and> map_of (nodes s') (backup_path p) = Some (File d)"
proof -
  have "os_ReadFile p s = (Inr d, end_call (nodes s) s)"
    by (rule os_ReadFile_ok) (simp_all add: assms call_fate_def)
  moreover have "os_WriteFile (backup_path p) d (end_call (nodes s) s) =
      (None, end_call (AList.update (backup_path p) (File d) (nodes s)) (end_call (nodes s) s))"
    using os_WriteFile_ok [of "end_call (nodes s) s" "backup_path p" d] assms
    by (simp add: file_or_none_resolve file_or_none_not_dir path_dir_backup call_fate_def)
  ultimately show ?thesis using assms(5) by (auto simp: backupFile_def)
qed

lemma backup_all_spec:
  assumes "backup_all sts m s = (m', s')" "\<forall>p \<in> paths_of sts. file_or_none (nodes s) (backup_path p)"
  shows "same_but (\<lambda>q. q \<in> backup_path ` paths_of sts) (nodes s) (nodes s') \<and>
    during (same_but (\<lambda>q. q \<in> backup_path ` paths_of sts) (nodes s)) s s' \<and>
    cmds s' = cmds s \<and> faults s' = faults s \<and> (map_ok m \<longrightarrow> map_ok m') \<and>
    (\<forall>q. file_or_none (nodes s) q \<longrightarrow> file_or_none (nodes s') q) \<and>
    (\<forall>k b. map_of m' k = Some b \<longrightarrow> map_of m k = Some b \<or> (k \<in> paths_of sts \<and> b = backup_path k))"
  using assms
proof (induction sts arbitrary: m s)
  case (Cons st sts)
  let ?p = "st_ConfigPath st" and ?B = "backup_path ` paths_of (st # sts)"
  obtain r s1 where b: "backupFile ?p s = (r, s1)" by fastforce
  have f: "file_or_none (nodes s) (backup_path ?p)" using Cons.prems(2) by simp
  note B = backupFile_call [OF b f]
  define m1 where "m1 = (case r of Inr (Some b) \<Rightarrow> AList.update ?p b m | _ \<Rightarrow> m)"
  have rest: "backup_all sts m1 s1 = (m', s')"
    using Cons.prems(1) b by (simp add: m1_def split: sum.splits option.splits)
  have "\<forall>p \<in> paths_of sts. file_or_none (nodes s1) (backup_path p)" using Cons.prems(2) B(4) by simp
  note R = Cons.IH [OF rest this]
  have s1: "same_but (\<lambda>q. q \<in> ?B) (nodes s) (nodes s1)" by (rule same_but_mono [OF B(1)]) simp
  have trans: "same_but (\<lambda>q. q \<in> ?B) (nodes s) t" if "same_but (\<lambda>q. q \<in> backup_path ` paths_of sts) (nodes s1) t" for t
    using s1 that by (auto simp: same_but_def)
  have m1: "map_of m1 k = Some b \<longrightarrow> map_of m k = Some b \<or> (k = ?p \<and> b = backup_path k)" for k b
    using B(5) by (auto simp: m1_def split: sum.splits option.splits if_splits)
  have "during (same_but (\<lambda>q. q \<in> ?B) (nodes s)) s s1"
    by (rule during_mono [OF B(2)]) (erule same_but_mono, simp)
  moreover have "during (same_but (\<lambda>q. q \<in> ?B) (nodes s)) s1 s'"
    using R trans by (auto intro: during_mono)
  ultimately have d: "during (same_but (\<lambda>q. q \<in> ?B) (nodes s)) s s'" by (rule during_trans)
  have ok: "map_ok m \<longrightarrow> map_ok m'" using R by (auto simp: m1_def split: sum.splits option.splits)
  have old: "\<forall>k b. map_of m' k = Some b \<longrightarrow> map_of m k = Some b \<or> (k \<in> paths_of (st # sts) \<and> b = backup_path k)"
  proof (intro allI impI)
    fix k b assume "map_of m' k = Some b"
    with R have "map_of m1 k = Some b \<or> (k \<in> paths_of sts \<and> b = backup_path k)" by blast
    with m1 [of k b] show "map_of m k = Some b \<or> (k \<in> paths_of (st # sts) \<and> b = backup_path k)" by auto
  qed
  from R trans d ok old B(3,4) show ?case by simp
qed auto

text \<open>Without failing calls every existing file is backed up, and only those.\<close>

lemma ready_Cons: "ready (st # sts) t \<Longrightarrow> ready sts t"
  by (simp add: ready_def)

lemma backup_all_keeps: "backup_all sts m s = (m', s') \<Longrightarrow> p \<notin> paths_of sts \<Longrightarrow> map_of m' p = map_of m p"
  by (induction sts arbitrary: m s) (auto split: prod.splits sum.splits option.splits)

lemma backup_all_cmds: "backup_all sts m s = (m', s') \<Longrightarrow> cmds s' = cmds s"
  by (induction sts arbitrary: m s)
    (auto simp: backupFile_def dest!: os_calls_log split: prod.splits sum.splits option.splits)

text \<open>One turn of the backup loop: it changes the backup only, so the other steps are as ready as before.\<close>

lemma backup_turn:
  assumes "backup_all (st # sts) m s = (m', s')" "steps_ok (st # sts)" "ready (st # sts) (nodes s)"
  obtains r s1 m1 where "backupFile (st_ConfigPath st) s = (r, s1)" "backup_all sts m1 s1 = (m', s')"
    "m1 = (case r of Inr (Some b) \<Rightarrow> AList.update (st_ConfigPath st) b m | _ \<Rightarrow> m)" "ready sts (nodes s1)"
    "faults s1 = faults s" "\<And>q. q \<noteq> backup_path (st_ConfigPath st) \<Longrightarrow> map_of (nodes s1) q = map_of (nodes s) q"
    "map_of (nodes s') (backup_path (st_ConfigPath st)) = map_of (nodes s1) (backup_path (st_ConfigPath st))"
    "map_of m' (st_ConfigPath st) = map_of m1 (st_ConfigPath st)"
proof -
  let ?p = "st_ConfigPath st"
  obtain r s1 where b: "backupFile ?p s = (r, s1)" by fastforce
  define m1 where "m1 = (case r of Inr (Some b) \<Rightarrow> AList.update ?p b m | _ \<Rightarrow> m)"
  have f: "file_or_none (nodes s) (backup_path ?p)" using assms(3) by (simp add: ready_def)
  note B = backupFile_call [OF b f]
  have ok: "?p \<notin> paths_of sts" "\<forall>q \<in> paths_of (st # sts). backup_path q \<notin> paths_of (st # sts)"
    using assms(2) by (auto simp: steps_ok_def paths_of_def)
  have rest: "backup_all sts m1 s1 = (m', s')"
    using assms(1) b by (simp add: m1_def split: sum.splits option.splits)
  have same: "map_of (nodes s1) q = map_of (nodes s) q" if "q \<noteq> backup_path ?p" for q
    using B(1) that by (simp add: same_but_def)
  have dirs: "is_dir (nodes s1) q" if "is_dir (nodes s) q" for q
    using that same [of q] f by (cases "q = backup_path ?p") (auto simp: is_dir_def file_or_none_def)
  have ready: "ready sts (nodes s1)"
    unfolding ready_def
  proof
    fix q assume q: "q \<in> paths_of sts"
    then have "q \<noteq> backup_path ?p" using ok(2) by auto
    with q assms(3) B(4) same dirs
    show "file_or_none (nodes s1) q \<and> file_or_none (nodes s1) (backup_path q) \<and>
        (map_of (nodes s1) q \<noteq> None \<longrightarrow> is_dir (nodes s1) (path_dir q))"
      unfolding ready_def by (metis paths_of_simps(2) insertCI)
  qed
  have "backup_path ?p \<notin> backup_path ` paths_of sts" using ok(1) by auto
  moreover have "\<forall>q \<in> paths_of sts. file_or_none (nodes s1) (backup_path q)" using ready by (simp add: ready_def)
  ultimately have "map_of (nodes s') (backup_path ?p) = map_of (nodes s1) (backup_path ?p)"
    using backup_all_spec [OF rest] by (simp add: same_but_def)
  with that [OF b rest m1_def ready _ same] backup_all_keeps [OF rest ok(1)] B(3) show thesis by blast
qed

lemma backup_all_ok:
  assumes "backup_all sts m s = (m', s')" "steps_ok sts" "ready sts (nodes s)" "faults s = (\<lambda>_. None)" "p \<in> paths_of sts"
  shows "map_of (nodes s) p = None \<Longrightarrow> map_of m' p = map_of m p"
    "map_of (nodes s) p = Some (File d) \<Longrightarrow>
       map_of m' p = Some (backup_path p) \<and> map_of (nodes s') (backup_path p) = Some (File d)"
proof -
  have "(map_of (nodes s) p = None \<longrightarrow> map_of m' p = map_of m p) \<and> (map_of (nodes s) p = Some (File d) \<longrightarrow>
       map_of m' p = Some (backup_path p) \<and> map_of (nodes s') (backup_path p) = Some (File d))"
    using assms
  proof (induction sts arbitrary: m s)
    case (Cons st sts)
    let ?p = "st_ConfigPath st"
    have ready: "file_or_none (nodes s) (backup_path ?p)" "map_of (nodes s) ?p \<noteq> None \<Longrightarrow> is_dir (nodes s) (path_dir ?p)"
      using Cons.prems(3) by (simp_all add: ready_def)
    have ok: "steps_ok sts" "backup_path ?p \<notin> paths_of (st # sts)"
      using Cons.prems(2) steps_ok_Cons by (auto simp: steps_ok_def paths_of_def)
    from Cons.prems(1-3) show ?case
    proof (cases rule: backup_turn)
      case (1 r s1 m1)
      show ?thesis
      proof (cases "p = ?p")
        case True
        have "r = Inr (Some b) \<Longrightarrow> map_of (nodes s) (resolve (nodes s) ?p) \<noteq> None" for b
          using backupFile_call(5) [OF 1(1) ready(1)] by blast
        then have "map_of (nodes s) ?p = None \<Longrightarrow> m1 = m"
          by (auto simp: 1(3) resolve_def split: sum.splits option.splits)
        moreover have "map_of (nodes s) ?p = Some (File d) \<Longrightarrow>
            r = Inr (Some (backup_path ?p)) \<and> map_of (nodes s1) (backup_path ?p) = Some (File d)"
          using backupFile_ok [OF Cons.prems(4) _ ready(1) _ 1(1)] ready(2) by auto
        ultimately show ?thesis using True 1(3,7,8) by auto
      next
        case False
        then have "p \<in> paths_of sts" using Cons.prems(5) by simp
        moreover have "p \<noteq> backup_path ?p" using Cons.prems(5) ok(2) by auto
        moreover have "map_of m1 p = map_of m p" using False by (simp add: 1(3) split: sum.splits option.splits)
        ultimately show ?thesis using Cons.IH [OF 1(2) ok(1) 1(4)] 1(5,6) Cons.prems(4) by simp
      qed
    qed
  qed simp
  then show "map_of (nodes s) p = None \<Longrightarrow> map_of m' p = map_of m p"
    "map_of (nodes s) p = Some (File d) \<Longrightarrow>
       map_of m' p = Some (backup_path p) \<and> map_of (nodes s') (backup_path p) = Some (File d)" by blast+
qed

text \<open>The restore loop, when no call fails: every key gets its backup's content and the backups go.\<close>

lemma restore_loop_spec:
  assumes "faults s = (\<lambda>_. None)" "distinct ks" "\<forall>k \<in> set ks. backup_path k \<notin> set ks"
    "\<forall>k \<in> set ks. map_of m k = Some (backup_path k) \<and> map_of (nodes s) (backup_path k) = Some (File (d k)) \<and>
       file_or_none (nodes s) k \<and> is_dir (nodes s) (path_dir k)"
  shows "same_but (\<lambda>q. q \<in> set ks \<or> q \<in> backup_path ` set ks) (nodes s) (nodes (restore_loop m ks s)) \<and>
    (\<forall>k \<in> set ks. map_of (nodes (restore_loop m ks s)) k = Some (File (d k)) \<and>
       map_of (nodes (restore_loop m ks s)) (backup_path k) = None)"
  using assms
proof (induction ks arbitrary: s)
  case (Cons k ks)
  let ?b = "backup_path k"
  have k: "map_of m k = Some ?b" "map_of (nodes s) ?b = Some (File (d k))" "file_or_none (nodes s) k"
    "is_dir (nodes s) (path_dir k)" using Cons.prems(4) by auto
  define s1 where "s1 = end_call (nodes s) s"
  define s2 where "s2 = end_call (AList.update k (File (d k)) (nodes s1)) s1"
  define s3 where "s3 = end_call (AList.delete ?b (nodes s2)) s2"
  have "k \<noteq> ?b" using Cons.prems(3) by auto
  have fl: "call_fate s = None" "call_fate s1 = None" "call_fate s2 = None"
    using Cons.prems(1) by (simp_all add: call_fate_def s1_def s2_def)
  have "os_ReadFile ?b s = (Inr (d k), s1)" unfolding s1_def by (rule os_ReadFile_ok) (use fl k in auto)
  moreover have "os_WriteFile k (d k) s1 = (None, s2)" unfolding s2_def
    by (rule os_WriteFile_ok) (use fl k in \<open>simp_all add: s1_def file_or_none_resolve file_or_none_not_dir\<close>)
  moreover have "os_Remove ?b s2 = (None, s3)" unfolding s3_def
    by (rule os_Remove_ok [of _ _ "d k"]) (use fl k \<open>k \<noteq> ?b\<close> in \<open>simp_all add: s1_def s2_def\<close>)
  ultimately have step: "restore_loop m (k # ks) s = restore_loop m ks s3" using k(1) by simp
  have n3: "map_of (nodes s3) q = (if q = ?b then None else if q = k then Some (File (d k)) else map_of (nodes s) q)" for q
    using \<open>k \<noteq> ?b\<close> by (simp add: s1_def s2_def s3_def)
  have prems: "faults s3 = (\<lambda>_. None)" "distinct ks" "\<forall>j \<in> set ks. backup_path j \<notin> set ks"
    using Cons.prems by (simp_all add: s1_def s2_def s3_def)
  have prem4: "\<forall>j \<in> set ks. map_of m j = Some (backup_path j) \<and> map_of (nodes s3) (backup_path j) = Some (File (d j)) \<and>
       file_or_none (nodes s3) j \<and> is_dir (nodes s3) (path_dir j)"
  proof
    fix j assume j: "j \<in> set ks"
    then have ne: "j \<noteq> k" "backup_path j \<noteq> k" "j \<noteq> ?b" using Cons.prems(2,3) by auto
    have old: "map_of m j = Some (backup_path j)" "map_of (nodes s) (backup_path j) = Some (File (d j))"
      "file_or_none (nodes s) j" "is_dir (nodes s) (path_dir j)" using Cons.prems(4) j by auto
    have "path_dir j \<noteq> ?b" "path_dir j \<noteq> k" using k(2,3) old(4) by (auto simp: is_dir_def file_or_none_def)
    with ne old show "map_of m j = Some (backup_path j) \<and> map_of (nodes s3) (backup_path j) = Some (File (d j)) \<and>
       file_or_none (nodes s3) j \<and> is_dir (nodes s3) (path_dir j)"
      by (simp add: n3 is_dir_def file_or_none_def)
  qed
  note R = Cons.IH [OF prems prem4]
  have "k \<notin> set ks" "k \<notin> backup_path ` set ks" "?b \<notin> set ks" "?b \<notin> backup_path ` set ks"
    using Cons.prems(2,3) by auto
  then have "map_of (nodes (restore_loop m ks s3)) k = Some (File (d k))"
    "map_of (nodes (restore_loop m ks s3)) ?b = None"
    using R \<open>k \<noteq> ?b\<close> by (simp_all add: same_but_def n3)
  moreover have "same_but (\<lambda>q. q \<in> set (k # ks) \<or> q \<in> backup_path ` set (k # ks)) (nodes s) (nodes (restore_loop m ks s3))"
    using R by (auto simp: same_but_def n3)
  ultimately show ?case using R by (simp add: step del: restore_loop.simps)
qed simp

lemma restore_loop_cmds [simp]: "cmds (restore_loop m ks s) = cmds s"
proof (induction ks arbitrary: s)
  case (Cons k ks)
  then show ?case
    by (auto simp: Let_def os_calls_log(1) split: prod.split sum.split)
qed simp

lemma remove_all_spec:
  "same_but (\<lambda>q. q \<in> set ps) (nodes s) (nodes (remove_all ps s)) \<and>
   during (same_but (\<lambda>q. q \<in> set ps) (nodes s)) s (remove_all ps s) \<and> cmds (remove_all ps s) = cmds s"
proof (induction ps arbitrary: s)
  case (Cons p ps)
  obtain e s1 where r: "os_Remove p s = (e, s1)" by fastforce
  obtain t where t: "s1 = end_call t s" "same_but (\<lambda>q. q = p) (nodes s) t" using os_Remove_call [OF r] by blast
  have w: "same_but (\<lambda>q. q \<in> set (p # ps)) (nodes s) u" if "same_but (\<lambda>q. q \<in> set ps) t u" for u
    using t(2) that by (auto simp: same_but_def)
  have "during (same_but (\<lambda>q. q \<in> set (p # ps)) (nodes s)) s s1"
    unfolding t(1) by (rule during_call) (use w in simp)
  moreover have "during (same_but (\<lambda>q. q \<in> set (p # ps)) (nodes s)) s1 (remove_all ps s1)"
    by (rule during_mono [of "same_but (\<lambda>q. q \<in> set ps) t"]) (use Cons [of s1] t(1) w in simp_all)
  ultimately have "during (same_but (\<lambda>q. q \<in> set (p # ps)) (nodes s)) s (remove_all ps s1)"
    by (rule during_trans)
  then show ?case using w Cons [of s1] r t(1) os_calls_log(3) [OF r] by simp
qed simp

section \<open>The phases of a run\<close>

lemma ProvisionVLANs_only_runs: "\<exists>new. only_runs s (snd (ProvisionVLANs its cfg s)) new"
proof -
  let ?d = "desired_vlans (Interfaces cfg)"
  let ?ps = "its 1 (keys_of (parent_devices (its 0 (keys_of ?d))))"
  obtain n1 where n1: "only_runs s (remove_stale ?d ?ps s) n1" using remove_stale_runs by blast
  obtain n2 where "only_runs (remove_stale ?d ?ps s) (snd (ProvisionVLANs its cfg s)) n2"
    using provision_all_runs [of "remove_stale ?d ?ps s" "Interfaces cfg"] by (auto simp: ProvisionVLANs_def Let_def)
  with n1 show ?thesis using only_runs_trans by blast
qed

lemma Execute_phases:
  assumes "Execute pick its p cfg s = (res, s')"
  obtains (vlan) e new where "res = \<lparr>rs_Completed = [], rs_Failed = ''vlan'', rs_Err = Some (VLANError e)\<rparr>"
      "only_runs s s' new" "s' = snd (ProvisionVLANs its cfg s)"
  | (steps) new s1 backups s2 s3 where "only_runs s s1 new" "s1 = snd (ProvisionVLANs its cfg s)"
      "backup_all (pl_Steps p) [] s1 = (backups, s2)"
      "run_steps pick (pl_Reloader p) cfg (pl_Steps p) [] s2 = (res, s3)"
      "s' = (if rs_Err res \<noteq> None then restoreBackups (its 2) backups s3
             else remove_all (map (\<lambda>k. the (map_of backups k)) (its 2 (keys_of backups))) s3)"
proof -
  obtain e s1 where v: "ProvisionVLANs its cfg s = (e, s1)" by fastforce
  from ProvisionVLANs_only_runs [of s its cfg] v obtain new where new: "only_runs s s1 new" by auto
  show thesis
  proof (cases e)
    case (Some x)
    with assms v new show thesis by (intro vlan) (auto simp: Execute_def)
  next
    case None
    obtain backups s2 where b: "backup_all (pl_Steps p) [] s1 = (backups, s2)" by fastforce
    obtain r s3 where r: "run_steps pick (pl_Reloader p) cfg (pl_Steps p) [] s2 = (r, s3)" by fastforce
    from assms v None b r have "r = res" by (auto simp: Execute_def split: if_splits)
    with assms v None b r new show thesis by (intro steps) (auto simp: Execute_def split: if_splits)
  qed
qed

text \<open>What the phases before the restoration leave, when the tree is \<^const>\<open>ready\<close>.\<close>

lemma ready_backups: "ready sts t \<Longrightarrow> \<forall>p \<in> paths_of sts. file_or_none t (backup_path p)"
  by (simp add: ready_def)

lemma ready_between:
  assumes "ready sts t" "steps_ok sts" "between cfg sts t t'" "p \<in> paths_of sts"
  shows "map_of t' (backup_path p) = map_of t (backup_path p)" "file_or_none t' p"
    "is_dir t (path_dir p) \<Longrightarrow> is_dir t' (path_dir p)"
proof -
  have u: "untouched (above_any sts) (\<lambda>q. is_temp q \<or> q \<in> paths_of sts) t t'" using assms(3) by (simp add: between_def)
  show "map_of t' (backup_path p) = map_of t (backup_path p)"
    by (rule untouched_same [OF u]) (use assms(2,4) in \<open>auto simp: steps_ok_def\<close>)
  show "file_or_none t' p"
  proof -
    obtain st where st: "st \<in> set sts" "p = st_ConfigPath st" using assms(4) by (auto simp: paths_of_def)
    then have "map_of t' p = map_of t p \<or> (\<exists>c. map_of t' p = Some (File c))"
      using assms(3) unfolding between_def by blast
    moreover have "file_or_none t p" using assms(1,4) by (simp add: ready_def)
    ultimately show ?thesis by (auto simp: file_or_none_def)
  qed
  show "is_dir t' (path_dir p)" if d: "is_dir t (path_dir p)"
  proof -
    have "path_dir p \<notin> paths_of sts" using d assms(1) by (auto simp: ready_def file_or_none_def is_dir_def)
    moreover have "\<not> is_temp (path_dir p)" using assms(2,4) by (simp add: steps_ok_def)
    ultimately show ?thesis using untouchedD [OF u] d by (simp add: is_dir_def)
  qed
qed

text \<open>The backups of a run without failing calls, ready to be restored after its steps.\<close>

lemma backups_restorable:
  assumes "backup_all sts [] s = (m, s2)" "run_steps pick rl cfg sts [] s2 = (res, s3)"
    "steps_ok sts" "ready sts (nodes s)" "faults s = (\<lambda>_. None)" "pick_ok pick" "harmless rl" "some_order it"
  shows "faults s3 = (\<lambda>_. None)" "distinct (it (keys_of m))"
    "\<forall>k \<in> set (it (keys_of m)). backup_path k \<notin> set (it (keys_of m))"
    "set (it (keys_of m)) = {k \<in> paths_of sts. map_of (nodes s) k \<noteq> None}"
    "\<forall>k \<in> set (it (keys_of m)). map_of m k = Some (backup_path k) \<and>
       map_of (nodes s3) (backup_path k) = map_of (nodes s) k \<and> file_or_none (nodes s3) k \<and>
       is_dir (nodes s3) (path_dir k)"
proof -
  note A = backup_all_spec [OF assms(1) ready_backups [OF assms(4)]]
  note B = backup_all_ok [OF assms(1,3,4,5)]
  note R = run_steps_spec [OF assms(2,6,7,3)]
  have paths: "\<forall>p \<in> paths_of sts. backup_path p \<notin> paths_of sts" using assms(3) by (simp add: steps_ok_def)
  have same: "map_of (nodes s2) q = map_of (nodes s) q" if "q \<in> paths_of sts" for q
  proof -
    have "q \<notin> backup_path ` paths_of sts" using that paths by auto
    with A show ?thesis by (simp add: same_but_def)
  qed
  have dirs: "is_dir (nodes s2) q" if "is_dir (nodes s) q" for q
  proof (cases "q \<in> backup_path ` paths_of sts")
    case True
    with that ready_backups [OF assms(4)] show ?thesis by (auto simp: is_dir_def file_or_none_def)
  next
    case False
    with A that show ?thesis by (simp add: same_but_def is_dir_def)
  qed
  have r2: "ready sts (nodes s2)" using assms(4) A same dirs by (auto simp: ready_def)
  have fs: "map_of (nodes s) k = None \<or> (\<exists>d. map_of (nodes s) k = Some (File d))" if "k \<in> paths_of sts" for k
    using assms(4) that by (auto simp: ready_def file_or_none_def)
  have keys: "set (keys_of m) = {k \<in> paths_of sts. map_of (nodes s) k \<noteq> None}"
  proof (intro set_eqI iffI)
    fix k assume "k \<in> set (keys_of m)"
    then obtain b where b: "map_of m k = Some b" by (auto simp: set_keys_of)
    with A have "k \<in> paths_of sts" by auto
    with B b show "k \<in> {k \<in> paths_of sts. map_of (nodes s) k \<noteq> None}" by fastforce
  next
    fix k assume "k \<in> {k \<in> paths_of sts. map_of (nodes s) k \<noteq> None}"
    with fs [of k] B show "k \<in> set (keys_of m)" by (auto simp: set_keys_of)
  qed
  show "faults s3 = (\<lambda>_. None)" using A R assms(5) by simp
  show "distinct (it (keys_of m))" using A assms(8) by (simp add: map_ok_def)
  show k: "set (it (keys_of m)) = {k \<in> paths_of sts. map_of (nodes s) k \<noteq> None}" using keys assms(8) by simp
  show "\<forall>k \<in> set (it (keys_of m)). backup_path k \<notin> set (it (keys_of m))" unfolding k using paths by simp
  show "\<forall>k \<in> set (it (keys_of m)). map_of m k = Some (backup_path k) \<and>
       map_of (nodes s3) (backup_path k) = map_of (nodes s) k \<and> file_or_none (nodes s3) k \<and>
       is_dir (nodes s3) (path_dir k)"
  proof
    fix k assume "k \<in> set (it (keys_of m))"
    then have p: "k \<in> paths_of sts" and ex: "map_of (nodes s) k \<noteq> None" using k by auto
    from fs [OF p] ex obtain d where d: "map_of (nodes s) k = Some (File d)" by auto
    have "between cfg sts (nodes s2) (nodes s3)" using R by simp
    note X = ready_between [OF r2 assms(3) this p]
    have "is_dir (nodes s2) (path_dir k)" using assms(4) p ex dirs by (simp add: ready_def)
    with X B p d show "map_of m k = Some (backup_path k) \<and>
       map_of (nodes s3) (backup_path k) = map_of (nodes s) k \<and> file_or_none (nodes s3) k \<and>
       is_dir (nodes s3) (path_dir k)" by simp
  qed
qed

lemma restored_tree:
  assumes "backup_all sts [] s = (m, s2)" "run_steps pick rl cfg sts [] s2 = (res, s3)"
    "steps_ok sts" "ready sts (nodes s)" "faults s = (\<lambda>_. None)" "pick_ok pick" "harmless rl" "some_order it"
    "q \<in> paths_of sts"
  shows "(\<forall>d. map_of (nodes s) q = Some (File d) \<longrightarrow> map_of (nodes (restoreBackups it m s3)) q = Some (File d) \<and>
      map_of (nodes (restoreBackups it m s3)) (backup_path q) = None) \<and>
    (map_of (nodes s) q = None \<longrightarrow> map_of (nodes (restoreBackups it m s3)) q = map_of (nodes s3) q)"
proof -
  let ?ks = "it (keys_of m)"
  note B = backups_restorable [OF assms(1-8)]
  define d where "d k = (case map_of (nodes s) k of Some (File d) \<Rightarrow> d | _ \<Rightarrow> [])" for k
  have "\<forall>k \<in> set ?ks. map_of (nodes s) k = Some (File (d k))"
    unfolding B(4) using assms(4) by (fastforce simp: ready_def file_or_none_def d_def)
  with B(5) have "\<forall>k \<in> set ?ks. map_of m k = Some (backup_path k) \<and>
       map_of (nodes s3) (backup_path k) = Some (File (d k)) \<and> file_or_none (nodes s3) k \<and> is_dir (nodes s3) (path_dir k)"
    by simp
  note R = restore_loop_spec [OF B(1,2,3) this]
  have "q \<notin> backup_path ` set ?ks" unfolding B(4) using assms(3,9) by (auto simp: steps_ok_def)
  moreover have "q \<in> set ?ks \<longleftrightarrow> map_of (nodes s) q \<noteq> None" unfolding B(4) using assms(9) by simp
  ultimately show ?thesis using R by (auto simp: restoreBackups_def same_but_def d_def)
qed

text \<open>A successful run.\<close>

lemma Execute_installs:
  assumes "Execute pick its p cfg s = (res, s')" "rs_Err res = None"
    "steps_ok (pl_Steps p)" "ready (pl_Steps p) (nodes s)"
    "pick_ok pick" "harmless (pl_Reloader p)" "some_order (its 2)" "st \<in> set (pl_Steps p)"
  shows "rs_Failed res = [] \<and> rs_Completed res = map st_Name (pl_Steps p) \<and>
    (\<exists>c. st_Render st cfg = Inr c \<and> map_of (nodes s') (st_ConfigPath st) = Some (File c) \<and>
       during (\<lambda>t. map_of t (st_ConfigPath st) \<in> {map_of (nodes s) (st_ConfigPath st), Some (File c)}) s s')"
  using assms(1)
proof (cases rule: Execute_phases)
  case (vlan e new)
  with assms(2) show ?thesis by simp
next
  case (steps new s1 m s2 s3)
  let ?sts = "pl_Steps p" and ?q = "st_ConfigPath st"
  have v: "nodes s1 = nodes s" "seen s1 = seen s" using steps(1) by (simp_all add: only_runs_def)
  have r1: "ready ?sts (nodes s1)" using assms(4) v by simp
  note A = backup_all_spec [OF steps(3) ready_backups [OF r1]]
  note R = run_steps_spec [OF steps(4) assms(5,6,3)]
  define ps where "ps = map (\<lambda>k. the (map_of m k)) (its 2 (keys_of m))"
  have s': "s' = remove_all ps s3" using steps(5) assms(2) by (simp add: ps_def)
  note X = remove_all_spec [of ps s3, folded s']
  have mk: "\<And>k b. map_of m k = Some b \<Longrightarrow> k \<in> paths_of ?sts \<and> b = backup_path k" using A by auto
  have "set ps \<subseteq> backup_path ` paths_of ?sts"
    using assms(7) by (fastforce simp: ps_def set_keys_of dest: mk)
  moreover have q: "?q \<notin> backup_path ` paths_of ?sts"
  proof
    assume "?q \<in> backup_path ` paths_of ?sts"
    then obtain k where "k \<in> paths_of ?sts" "?q = backup_path k" ..
    moreover have "?q \<in> paths_of ?sts" using assms(8) by (simp add: paths_of_def)
    ultimately show False using assms(3) unfolding steps_ok_def by metis
  qed
  ultimately have q': "?q \<notin> set ps" by blast
  obtain c where c: "st_Render st cfg = Inr c" "map_of (nodes s3) ?q = Some (File c)"
    using R assms(2,8) by blast
  let ?P = "\<lambda>t. map_of t ?q \<in> {map_of (nodes s) ?q, Some (File c)}"
  have n2: "map_of (nodes s2) ?q = map_of (nodes s) ?q" using A q v by (simp add: same_but_def)
  have "during ?P s s1" using v by (simp add: during_def)
  moreover have "during ?P s1 s2"
    by (rule during_mono [OF conjunct1 [OF conjunct2 [OF A]]]) (use q v in \<open>simp add: same_but_def\<close>)
  moreover have "during ?P s2 s3"
  proof (rule during_mono [OF conjunct1 [OF R]])
    fix t assume "between cfg ?sts (nodes s2) t"
    then have "map_of t ?q = map_of (nodes s2) ?q \<or> (\<exists>c. st_Render st cfg = Inr c \<and> map_of t ?q = Some (File c))"
      using assms(8) unfolding between_def by blast
    with c(1) n2 show "?P t" by auto
  qed
  moreover have "during ?P s3 s'"
    by (rule during_mono [OF conjunct1 [OF conjunct2 [OF X]]]) (use q' c in \<open>simp add: same_but_def\<close>)
  ultimately have "during ?P s s'" using during_trans by blast
  moreover have "map_of (nodes s') ?q = Some (File c)" using X q' c(2) by (simp add: same_but_def)
  ultimately show ?thesis using R assms(2) c(1) by simp
qed

text \<open>A failed run.\<close>

lemma Execute_restores:
  assumes "Execute pick its p cfg s = (res, s')" "rs_Err res \<noteq> None" "faults s = (\<lambda>_. None)"
    "steps_ok (pl_Steps p)" "ready (pl_Steps p) (nodes s)"
    "pick_ok pick" "harmless (pl_Reloader p)" "some_order (its 2)"
    "st \<in> set (pl_Steps p)" "map_of (nodes s) (st_ConfigPath st) = Some (File d)"
  shows "map_of (nodes s') (st_ConfigPath st) = Some (File d) \<and>
    (rs_Failed res \<noteq> ''vlan'' \<longrightarrow> map_of (nodes s') (backup_path (st_ConfigPath st)) = None)"
  using assms(1)
proof (cases rule: Execute_phases)
  case (vlan e new)
  with assms(10) show ?thesis by (simp add: only_runs_def)
next
  case (steps new s1 m s2 s3)
  let ?q = "st_ConfigPath st"
  have v: "nodes s1 = nodes s" "faults s1 = (\<lambda>_. None)" using steps(1) assms(3) by (simp_all add: only_runs_def)
  have r1: "ready (pl_Steps p) (nodes s1)" using assms(5) v by simp
  from restored_tree [OF steps(3,4) assms(4) r1 v(2) assms(6,7,8)] assms(9,10) v(1) steps(5) assms(2)
  show ?thesis by (auto simp: paths_of_def)
qed

section \<open>The commands of a run\<close>

definition step_cmds :: "step \<Rightarrow> string list list" where
  "step_cmds st =
     (if st_Name st = ''sysctl'' then [[''sysctl'', ''-e'', ''-p'', st_ConfigPath st]] else []) @
     (if st_Service st \<noteq> [] then [[''systemctl'', ''reload-or-restart'', st_Service st]] else [])"

lemma atomicWrite_log: "atomicWrite pick p c s = (e, s') \<Longrightarrow> cmds s' = cmds s \<and> faults s' = faults s"
  unfolding atomicWrite_def Let_def
  by (auto dest!: os_calls_log split: prod.splits option.splits)

lemma run_step_cmds:
  assumes "run_step pick (Some systemd_Reload) cfg st s = (e, s')"
  shows "\<exists>new. cmds s' = cmds s @ new \<and> prefix new (step_cmds st) \<and> (e = None \<longrightarrow> new = step_cmds st)"
proof (cases "st_Render st cfg")
  case (Inr c)
  let ?p = "st_ConfigPath st"
  obtain e1 s1 where w: "atomicWrite pick ?p c s = (e1, s1)" by fastforce
  note l1 = atomicWrite_log [OF w]
  show ?thesis
  proof (cases e1)
    case (Some x)
    with assms Inr w l1 show ?thesis by (intro exI [of _ "[]"]) (auto simp: run_step_def)
  next
    case None
    obtain e2 s2 where y: "(if st_Name st = ''sysctl'' then applySysctl ?p s1 else (None, s1)) = (e2, s2)" by fastforce
    let ?sys = "if st_Name st = ''sysctl'' then [[''sysctl'', ''-e'', ''-p'', ?p]] else []"
    have l2: "cmds s2 = cmds s @ ?sys"
      using y l1 by (auto simp: applySysctl_def os_Exec_def split: if_splits prod.splits)
    obtain e3 s3 where z: "systemd_Reload (st_Service st) s2 = (e3, s3)" by fastforce
    have l3: "cmds s3 = cmds s2 @ [[''systemctl'', ''reload-or-restart'', st_Service st]]"
      using z by (auto simp: systemd_Reload_def os_Exec_def split: if_splits prod.splits)
    consider x where "e2 = Some x" | "e2 = None" "st_Service st = []" | "e2 = None" "st_Service st \<noteq> []" by blast
    then show ?thesis
    proof cases
      case 1
      with assms Inr w None y have "e \<noteq> None" "s' = s2" by (auto simp: run_step_def)
      with l2 show ?thesis by (intro exI [of _ ?sys]) (auto simp: step_cmds_def)
    next
      case 2
      with assms Inr w None y have "e = None" "s' = s2" by (auto simp: run_step_def)
      with 2 l2 show ?thesis by (intro exI [of _ ?sys]) (auto simp: step_cmds_def)
    next
      case 3
      with assms Inr w None y z have "s' = s3" by (auto simp: run_step_def split: option.splits)
      with 3 l2 l3 show ?thesis by (intro exI [of _ "step_cmds st"]) (auto simp: step_cmds_def)
    qed
  qed
qed (use assms in \<open>auto simp: run_step_def intro: exI [of _ "[]"]\<close>)

lemma run_steps_cmds:
  assumes "run_steps pick (Some systemd_Reload) cfg sts completed s = (res, s')"
  shows "\<exists>n part. n \<le> length sts \<and> rs_Completed res = completed @ map st_Name (take n sts) \<and>
    cmds s' = cmds s @ concat (map step_cmds (take n sts)) @ part \<and>
    (if rs_Err res = None then n = length sts \<and> part = [] else n < length sts \<and> prefix part (step_cmds (sts ! n)))"
  using assms
proof (induction sts arbitrary: completed s)
  case (Cons st sts)
  obtain e s1 where r: "run_step pick (Some systemd_Reload) cfg st s = (e, s1)" by fastforce
  obtain new where new: "cmds s1 = cmds s @ new" "prefix new (step_cmds st)" "e = None \<longrightarrow> new = step_cmds st"
    using run_step_cmds [OF r] by blast
  show ?case
  proof (cases e)
    case (Some x)
    with Cons.prems r new show ?thesis by (intro exI [of _ 0] exI [of _ new]) auto
  next
    case None
    with Cons.prems r have "run_steps pick (Some systemd_Reload) cfg sts (completed @ [st_Name st]) s1 = (res, s')" by simp
    from Cons.IH [OF this] obtain n part where "n \<le> length sts"
      "rs_Completed res = (completed @ [st_Name st]) @ map st_Name (take n sts)"
      "cmds s' = cmds s1 @ concat (map step_cmds (take n sts)) @ part"
      "if rs_Err res = None then n = length sts \<and> part = [] else n < length sts \<and> prefix part (step_cmds (sts ! n))" by blast
    with None new show ?thesis by (intro exI [of _ "Suc n"] exI [of _ part]) auto
  qed
qed auto

section \<open>Sample machines\<close>

definition etc_tree :: tree where
  "etc_tree = [(''/etc'', Dir), (''/etc/sysctl.d'', Dir), (''/etc/frr'', Dir), (''/etc/kea'', Dir),
     (''/etc/unbound'', Dir), (''/etc/unbound/unbound.conf.d'', Dir), (''/etc/frr/frr.conf'', File ''old'')]"

definition test_machine :: "(nat \<Rightarrow> fault option) \<Rightarrow> (string list list \<Rightarrow> bool \<times> string) \<Rightarrow> os" where
  "test_machine fs f = \<lparr>nodes = [(''/t'', Dir), (''/t/frr.conf'', File ''old'')], faults = fs, tick = 0, seen = [],
     cmds = [], answer = f\<rparr>"

definition pick_count :: "os \<Rightarrow> string" where
  "pick_count s = nat_text (tick s)"

lemma pick_count_ok: "pick_ok pick_count"
  using nat_text_chars by (auto simp: pick_ok_def pick_count_def)

text \<open>Every command succeeds, or every one but the reload of FRR.\<close>

definition all_well :: "string list list \<Rightarrow> bool \<times> string" where
  "all_well cs = (True, [])"

definition no_frr :: "string list list \<Rightarrow> bool \<times> string" where
  "no_frr cs = (last cs \<noteq> [''systemctl'', ''reload-or-restart'', ''frr''], ''failed'')"

definition default_pipeline :: pipeline where
  "default_pipeline = NewPipeline (Some systemd_Reload)"

lemma default_pipeline_ok:
  "steps_ok (pl_Steps default_pipeline)" "harmless (pl_Reloader default_pipeline)"
  "ready (pl_Steps default_pipeline) etc_tree"
  subgoal by code_simp
  subgoal by (simp add: default_pipeline_def NewPipeline_def harmless_systemd)
  subgoal by code_simp
  done

text \<open>A pipeline of the unit tests (\<^verbatim>\<open>TestPipelineRendersAllConfigs\<close> in \<^verbatim>\<open>apply_test.go\<close>), small
  enough to evaluate.\<close>

definition core_pipeline :: pipeline where
  "core_pipeline = \<lparr>pl_Steps =
     [\<lparr>st_Name = ''sysctl'', st_ConfigPath = ''/t/sysctl.conf'', st_Render = (\<lambda>_. Inr ''net''), st_Service = []\<rparr>,
      \<lparr>st_Name = ''frr'', st_ConfigPath = ''/t/frr.conf'', st_Render = (\<lambda>_. Inr ''frr''), st_Service = ''frr''\<rparr>],
     pl_Reloader = Some systemd_Reload\<rparr>"

definition core_run :: "(string list list \<Rightarrow> bool \<times> string) \<Rightarrow> result \<times> os" where
  "core_run f = Execute pick_count (\<lambda>_ ks. ks) core_pipeline dual_wan_site (test_machine (\<lambda>_. None) f)"

lemma core_step_simps:
  "st_ConfigPath (pl_Steps core_pipeline ! 0) = ''/t/sysctl.conf''"
  "st_Name (pl_Steps core_pipeline ! 0) = ''sysctl''"
  "st_ConfigPath (pl_Steps core_pipeline ! Suc 0) = ''/t/frr.conf''"
  "st_Render (pl_Steps core_pipeline ! Suc 0) = (\<lambda>_. Inr ''frr'')"
  "map st_Name (pl_Steps core_pipeline) = [''sysctl'', ''frr'']"
  "pl_Steps core_pipeline ! 0 \<in> set (pl_Steps core_pipeline)" "pl_Steps core_pipeline ! Suc 0 \<in> set (pl_Steps core_pipeline)"
  by (simp_all add: core_pipeline_def)

lemma core_run_eq: "Execute pick_count (\<lambda>_ ks. ks) core_pipeline dual_wan_site (test_machine (\<lambda>_. None) f) =
    (fst (core_run f), snd (core_run f))"
  by (simp add: core_run_def)

lemma core_pipeline_ok:
  "steps_ok (pl_Steps core_pipeline)" "pl_Reloader core_pipeline = Some systemd_Reload"
  "ready (pl_Steps core_pipeline) (nodes (test_machine fs f))" "faults (test_machine fs f) = fs"
  subgoal by code_simp
  subgoal by (simp add: core_pipeline_def)
  subgoal unfolding test_machine_def by code_simp
  subgoal by (simp add: test_machine_def)
  done

section \<open>Properties\<close>

text \<open>C6. The write of a configuration file is atomic under every pattern of failing calls: in every
  tree that ever exists, so also after a crash at any point, the path holds its old content or all of
  the new one; afterwards it holds the new one exactly when the write reports success, and besides
  temporary files and missing directories nothing else has changed.\<close>

theorem atomic_write:
  assumes "pick_ok pick" "config_path path" "atomicWrite pick path content s = (e, s')"
  shows "during (\<lambda>t. map_of t path \<in> {map_of (nodes s) path, Some (File content)}) s s' \<and>
    map_of (nodes s') path = (if e = None then Some (File content) else map_of (nodes s) path) \<and>
    (\<forall>q. q \<noteq> path \<and> \<not> is_temp q \<and> \<not> above path q \<longrightarrow> map_of (nodes s') q = map_of (nodes s) q)"
proof -
  note A = atomicWrite_spec [OF assms(3,1,2)]
  have "during (\<lambda>t. map_of t path \<in> {map_of (nodes s) path, Some (File content)}) s s'"
    using A by (auto elim!: during_mono)
  with A show ?thesis by (auto simp: untouched_def)
qed

theorem atomic_write_witness:
  "map_of (nodes (snd (atomicWrite pick_count ''/t/frr.conf'' ''new''
      (test_machine (\<lambda>n. if n = 2 then Some (Short 1) else None) all_well)))) ''/t/frr.conf'' = Some (File ''old'')"
proof -
  let ?s = "test_machine (\<lambda>n. if n = 2 then Some (Short 1) else None) all_well"
  let ?r = "atomicWrite pick_count ''/t/frr.conf'' ''new'' ?s"
  have c: "config_path ''/t/frr.conf''" by code_simp
  have "fst ?r \<noteq> None" by code_simp
  moreover have "map_of (nodes ?s) ''/t/frr.conf'' = Some (File ''old'')"
    by (simp add: test_machine_def)
  ultimately show ?thesis
    using atomic_write [OF pick_count_ok c prod.collapse [symmetric, of ?r]] by simp
qed

text \<open>C22. A successful run, whatever calls failed on the way without being fatal: every step is
  reported complete in order, every configuration file holds exactly what its renderer produced, and at
  every moment of the run it held either its old content or that.\<close>

theorem execute_success:
  assumes "Execute pick its p cfg s = (res, s')" "rs_Err res = None"
    "steps_ok (pl_Steps p)" "ready (pl_Steps p) (nodes s)"
    "pick_ok pick" "harmless (pl_Reloader p)" "some_order (its 2)" "st \<in> set (pl_Steps p)"
  shows "rs_Failed res = [] \<and> rs_Completed res = map st_Name (pl_Steps p) \<and>
    (\<exists>c. st_Render st cfg = Inr c \<and> map_of (nodes s') (st_ConfigPath st) = Some (File c) \<and>
       during (\<lambda>t. map_of t (st_ConfigPath st) \<in> {map_of (nodes s) (st_ConfigPath st), Some (File c)}) s s')"
  by (rule Execute_installs [OF assms])

theorem execute_success_witness:
  "rs_Completed (fst (core_run all_well)) = [''sysctl'', ''frr''] \<and>
   map_of (nodes (snd (core_run all_well))) ''/t/frr.conf'' = Some (File ''frr'')"
proof -
  let ?st = "pl_Steps core_pipeline ! Suc 0"
  note st = core_step_simps(7) core_step_simps(3-5)
  have ok: "rs_Err (fst (core_run all_well)) = None" by code_simp
  have h: "harmless (pl_Reloader core_pipeline)" by (simp add: core_pipeline_ok(2) harmless_systemd)
  from execute_success [OF core_run_eq ok core_pipeline_ok(1,3) pick_count_ok h some_order_id st(1)]
  show ?thesis by (auto simp: st)
qed

text \<open>C1. If no file-system call fails, a run that ends in an error, of a renderer, a command or a
  missing directory, in whatever order the backups are restored, gives every configuration file that
  existed before its old content back, and leaves no backup behind.\<close>

theorem execute_restores:
  assumes "Execute pick its p cfg s = (res, s')" "rs_Err res \<noteq> None" "faults s = (\<lambda>_. None)"
    "steps_ok (pl_Steps p)" "ready (pl_Steps p) (nodes s)"
    "pick_ok pick" "harmless (pl_Reloader p)" "some_order (its 2)"
    "st \<in> set (pl_Steps p)" "map_of (nodes s) (st_ConfigPath st) = Some (File d)"
  shows "map_of (nodes s') (st_ConfigPath st) = Some (File d) \<and>
    (rs_Failed res \<noteq> ''vlan'' \<longrightarrow> map_of (nodes s') (backup_path (st_ConfigPath st)) = None)"
  by (rule Execute_restores [OF assms])

theorem execute_restores_witness:
  "rs_Failed (fst (core_run no_frr)) = ''frr'' \<and>
   map_of (nodes (snd (core_run no_frr))) ''/t/frr.conf'' = Some (File ''old'')"
proof -
  let ?st = "pl_Steps core_pipeline ! Suc 0"
  note st = core_step_simps(7) core_step_simps(3)
  have failed: "rs_Failed (fst (core_run no_frr)) = ''frr'' \<and> rs_Err (fst (core_run no_frr)) \<noteq> None" by code_simp
  have h: "harmless (pl_Reloader core_pipeline)" by (simp add: core_pipeline_ok(2) harmless_systemd)
  have old: "map_of (nodes (test_machine (\<lambda>_. None) no_frr)) (st_ConfigPath ?st) = Some (File ''old'')"
    by (simp add: st test_machine_def)
  from execute_restores [OF core_run_eq conjunct2 [OF failed] core_pipeline_ok(4) core_pipeline_ok(1,3)
      pick_count_ok h some_order_id st(1) old] failed
  show ?thesis by (simp add: st)
qed

text \<open>C33. A configuration file that did not exist before the run has no backup: if its step completed
  before another one failed, the rendered file stays, although the run reports a failure.\<close>

theorem execute_leaves_new_files:
  assumes "Execute pick its p cfg s = (res, s')" "rs_Err res \<noteq> None" "faults s = (\<lambda>_. None)"
    "steps_ok (pl_Steps p)" "ready (pl_Steps p) (nodes s)" "distinct (map st_Name (pl_Steps p))"
    "pick_ok pick" "harmless (pl_Reloader p)" "some_order (its 2)"
    "st \<in> set (pl_Steps p)" "st_Name st \<in> set (rs_Completed res)" "map_of (nodes s) (st_ConfigPath st) = None"
  shows "\<exists>c. st_Render st cfg = Inr c \<and> map_of (nodes s') (st_ConfigPath st) = Some (File c)"
  using assms(1)
proof (cases rule: Execute_phases)
  case (vlan e new)
  with assms(11) show ?thesis by simp
next
  case (steps new s1 m s2 s3)
  let ?q = "st_ConfigPath st"
  have v: "nodes s1 = nodes s" "faults s1 = (\<lambda>_. None)" using steps(1) assms(3) by (simp_all add: only_runs_def)
  have r1: "ready (pl_Steps p) (nodes s1)" using assms(5) v by simp
  from run_steps_spec [OF steps(4) assms(7,8,4)] assms(2) obtain n where
    n: "rs_Completed res = map st_Name (take n (pl_Steps p))"
    "\<forall>st \<in> set (take n (pl_Steps p)). \<exists>c. st_Render st cfg = Inr c \<and> map_of (nodes s3) (st_ConfigPath st) = Some (File c)"
    by auto
  from assms(11) n(1) obtain st' where st': "st' \<in> set (take n (pl_Steps p))" "st_Name st' = st_Name st" by auto
  then have "st' = st" using assms(6,10) in_set_takeD [OF st'(1)] by (auto simp: distinct_map inj_on_def)
  with n(2) st' obtain c where c: "st_Render st cfg = Inr c" "map_of (nodes s3) ?q = Some (File c)" by blast
  have "?q \<in> paths_of (pl_Steps p)" using assms(10) by (simp add: paths_of_def)
  with restored_tree [OF steps(3,4) assms(4) r1 v(2) assms(7,8,9)] assms(2,12) v(1) steps(5) c
  show ?thesis by simp
qed

theorem execute_leaves_new_files_witness:
  "rs_Failed (fst (core_run no_frr)) = ''frr'' \<and>
   map_of (nodes (snd (core_run no_frr))) ''/t/sysctl.conf'' \<noteq> None"
proof -
  let ?st = "pl_Steps core_pipeline ! 0"
  have names: "distinct (map st_Name (pl_Steps core_pipeline))" by (simp add: core_step_simps)
  note st = core_step_simps(6) core_step_simps(1,2) names
  have failed: "rs_Failed (fst (core_run no_frr)) = ''frr'' \<and> rs_Err (fst (core_run no_frr)) \<noteq> None" by code_simp
  have named: "st_Name ?st \<in> set (rs_Completed (fst (core_run no_frr)))" unfolding st(3) by code_simp
  have h: "harmless (pl_Reloader core_pipeline)" by (simp add: core_pipeline_ok(2) harmless_systemd)
  have new: "map_of (nodes (test_machine (\<lambda>_. None) no_frr)) (st_ConfigPath ?st) = None"
    by (simp add: st test_machine_def)
  from execute_leaves_new_files [OF core_run_eq conjunct2 [OF failed] core_pipeline_ok(4) core_pipeline_ok(1,3) st(4)
      pick_count_ok h some_order_id st(1) named new] failed
  show ?thesis by (auto simp: st)
qed

text \<open>C26. A run with the systemd reloader runs, after the VLAN commands, exactly the commands of its completed
  steps in order, then at most a part of those of the failing step, and nothing more: no service is
  reloaded after the backups are restored, so services that an earlier step reloaded keep running on
  the configuration that the restoration has just replaced.\<close>

theorem execute_commands:
  assumes "Execute pick its p cfg s = (res, s')" "pl_Reloader p = Some systemd_Reload"
    "fst (ProvisionVLANs its cfg s) = None"
  shows "\<exists>n part. rs_Completed res = map st_Name (take n (pl_Steps p)) \<and>
    cmds s' = cmds (snd (ProvisionVLANs its cfg s)) @ concat (map step_cmds (take n (pl_Steps p))) @ part \<and>
    (if rs_Err res = None then n = length (pl_Steps p) \<and> part = []
     else n < length (pl_Steps p) \<and> prefix part (step_cmds (pl_Steps p ! n)))"
  using assms(1)
proof (cases rule: Execute_phases)
  case (vlan e new)
  with assms(1,3) show ?thesis by (auto simp: Execute_def split: option.splits prod.splits if_splits)
next
  case (steps new s1 m s2 s3)
  have "cmds s' = cmds s3"
    using steps(5) remove_all_spec [of _ s3] by (simp add: restoreBackups_def)
  moreover have "cmds s2 = cmds s1" by (rule backup_all_cmds [OF steps(3)])
  moreover obtain n part where "rs_Completed res = map st_Name (take n (pl_Steps p))"
    "cmds s3 = cmds s2 @ concat (map step_cmds (take n (pl_Steps p))) @ part"
    "if rs_Err res = None then n = length (pl_Steps p) \<and> part = []
     else n < length (pl_Steps p) \<and> prefix part (step_cmds (pl_Steps p ! n))"
    using run_steps_cmds [OF steps(4) [unfolded assms(2)]] by auto
  ultimately show ?thesis using steps(2) by (intro exI [of _ n] exI [of _ part]) simp
qed

theorem execute_commands_witness:
  "cmds (snd (core_run no_frr)) =
     [[''sysctl'', ''-e'', ''-p'', ''/t/sysctl.conf''], [''systemctl'', ''reload-or-restart'', ''frr'']] \<and>
   (\<exists>n part. rs_Completed (fst (core_run no_frr)) = map st_Name (take n (pl_Steps core_pipeline)) \<and>
      cmds (snd (core_run no_frr)) = concat (map step_cmds (take n (pl_Steps core_pipeline))) @ part)"
proof -
  have v: "ProvisionVLANs (\<lambda>_ ks. ks) dual_wan_site (test_machine (\<lambda>_. None) no_frr) = (None, test_machine (\<lambda>_. None) no_frr)"
    by (simp add: ProvisionVLANs_def desired_vlans_def parent_devices_def sample_defs)
  have c: "cmds (snd (core_run no_frr)) =
     [[''sysctl'', ''-e'', ''-p'', ''/t/sysctl.conf''], [''systemctl'', ''reload-or-restart'', ''frr'']]" by code_simp
  have n: "cmds (test_machine (\<lambda>_. None) no_frr) = []" by (simp add: test_machine_def)
  from execute_commands [OF core_run_eq core_pipeline_ok(2), of no_frr] v n c show ?thesis by auto
qed

text \<open>C32. The restoration is not atomic and trusts its own writes: when the write back is cut short, for
  example on a full disk, the configuration file keeps only a prefix of its old content and the backup,
  the only complete copy, is deleted all the same.\<close>

theorem restore_loses_content:
  assumes "map_of (nodes s) (backup_path p) = Some (File d)" "file_or_none (nodes s) p"
    "is_dir (nodes s) (path_dir p)" "some_order it"
    "faults s = (\<lambda>n. if n = Suc (tick s) then Some (Short k) else None)"
  shows "map_of (nodes (restoreBackups it [(p, backup_path p)] s)) p = Some (File (take k d)) \<and>
    map_of (nodes (restoreBackups it [(p, backup_path p)] s)) (backup_path p) = None"
proof -
  have "it [p] = [p]" using assms(4) unfolding some_order_def by (metis mset_single_iff mset.simps mset_single_iff_right)
  have ne: "backup_path p \<noteq> p" by (simp add: backup_path_def)
  define s1 where "s1 = end_call (nodes s) s"
  define s2 where "s2 = end_call (AList.update p (File (take k d)) (nodes s)) s1"
  have rd: "os_ReadFile (backup_path p) s = (Inr d, s1)"
    unfolding s1_def by (rule os_ReadFile_ok) (use assms in \<open>simp_all add: call_fate_def\<close>)
  have wr: "os_WriteFile p d s1 = (Some EIO, s2)"
    using assms(2,3,5) unfolding s2_def
    by (simp add: os_WriteFile_def Let_def s1_def call_fate_def end_call_def file_or_none_resolve file_or_none_not_dir)
  have rm: "os_Remove (backup_path p) s2 = (None, end_call (AList.delete (backup_path p) (nodes s2)) s2)"
    by (rule os_Remove_ok [of _ _ d]) (use assms ne in \<open>simp_all add: s1_def s2_def call_fate_def end_call_def\<close>)
  show ?thesis
    using \<open>it [p] = [p]\<close> rd wr rm ne by (simp add: restoreBackups_def s2_def s1_def)
qed

theorem restore_loses_content_witness:
  "map_of (nodes (restoreBackups (\<lambda>ks. ks) [(''/t/frr.conf'', ''/t/frr.conf.warp-backup'')]
     (test_machine (\<lambda>n. if n = 1 then Some (Short 1) else None) all_well
        \<lparr>nodes := [(''/t'', Dir), (''/t/frr.conf'', File ''new''), (''/t/frr.conf.warp-backup'', File ''old'')]\<rparr>)))
   ''/t/frr.conf'' = Some (File ''o'')"
proof -
  let ?s = "test_machine (\<lambda>n. if n = 1 then Some (Short 1) else None) all_well
    \<lparr>nodes := [(''/t'', Dir), (''/t/frr.conf'', File ''new''), (''/t/frr.conf.warp-backup'', File ''old'')]\<rparr>"
  have b: "backup_path ''/t/frr.conf'' = ''/t/frr.conf.warp-backup''" by (simp add: backup_path_def)
  have d: "path_dir ''/t/frr.conf'' = ''/t''" by code_simp
  have "map_of (nodes ?s) (backup_path ''/t/frr.conf'') = Some (File ''old'')" by (simp add: b)
  moreover have "file_or_none (nodes ?s) ''/t/frr.conf''" by (simp add: file_or_none_def)
  moreover have "is_dir (nodes ?s) (path_dir ''/t/frr.conf'')" by (simp add: d is_dir_def)
  moreover have "faults ?s = (\<lambda>n. if n = Suc (tick ?s) then Some (Short 1) else None)" by (simp add: test_machine_def)
  ultimately have "map_of (nodes (restoreBackups (\<lambda>ks. ks) [(''/t/frr.conf'', backup_path ''/t/frr.conf'')] ?s)) ''/t/frr.conf''
      = Some (File (take 1 ''old''))"
    using restore_loses_content [of ?s "''/t/frr.conf''" "''old''" "\<lambda>ks. ks" 1] some_order_id by blast
  then show ?thesis by (simp add: b)
qed

end
