(* ===== verification/Footprint.thy ===== *)
theory Footprint
  imports Rollback
begin

text \<open>
  The footprint of \<^verbatim>\<open>Pipeline.Execute\<close>: which paths a run may change at all, under every
  pattern of failing calls and every outcome, and when a run succeeds.
\<close>

section \<open>Frames\<close>

text \<open>A path that a run may change: a configuration file, its backup, a missing directory above it, or a
  temporary file beside it.\<close>

definition footprint :: "step list \<Rightarrow> string \<Rightarrow> bool" where
  "footprint sts q \<longleftrightarrow> q \<in> paths_of sts \<or> q \<in> backup_path ` paths_of sts \<or> above_any sts q \<or>
     (is_temp q \<and> path_dir q \<in> path_dir ` paths_of sts)"

lemma footprint_Cons [simp]:
  "footprint (st # sts) q \<longleftrightarrow> q = st_ConfigPath st \<or> q = backup_path (st_ConfigPath st) \<or> above (st_ConfigPath st) q \<or>
     (is_temp q \<and> path_dir q = path_dir (st_ConfigPath st)) \<or> footprint sts q"
  by (auto simp: footprint_def)

text \<open>What the calls leave alone.\<close>

lemma os_calls_keep:
  "os_ReadFile p s = (r, s') \<Longrightarrow> map_of (nodes s') q = map_of (nodes s) q"
  "os_Remove p s = (e, s') \<Longrightarrow> q \<noteq> p \<Longrightarrow> map_of (nodes s') q = map_of (nodes s) q"
  "os_Rename p p' s = (e, s') \<Longrightarrow> q \<noteq> p \<Longrightarrow> q \<noteq> p' \<Longrightarrow> map_of (nodes s') q = map_of (nodes s) q"
  "os_MkdirAll p s = (e, s') \<Longrightarrow> q \<notin> set (path_prefixes p) \<Longrightarrow> map_of (nodes s') q = map_of (nodes s) q"
  "os_CreateTemp p s = (e, s') \<Longrightarrow> q \<noteq> p \<Longrightarrow> map_of (nodes s') q = map_of (nodes s) q"
  "os_WriteString p d s = (e, s') \<Longrightarrow> q \<noteq> p \<Longrightarrow> map_of (nodes s') q = map_of (nodes s) q"
  "os_Quiet s = (e, s') \<Longrightarrow> map_of (nodes s') q = map_of (nodes s) q"
proof -
  show "os_ReadFile p s = (r, s') \<Longrightarrow> map_of (nodes s') q = map_of (nodes s) q"
    using os_ReadFile_call by fastforce
  show "os_Remove p s = (e, s') \<Longrightarrow> q \<noteq> p \<Longrightarrow> map_of (nodes s') q = map_of (nodes s) q"
    by (auto dest!: os_Remove_call simp: same_but_def)
  show "os_Rename p p' s = (e, s') \<Longrightarrow> q \<noteq> p \<Longrightarrow> q \<noteq> p' \<Longrightarrow> map_of (nodes s') q = map_of (nodes s) q"
    by (auto simp: os_Rename_def split: option.splits if_splits)
  show "os_MkdirAll p s = (e, s') \<Longrightarrow> q \<notin> set (path_prefixes p) \<Longrightarrow> map_of (nodes s') q = map_of (nodes s) q"
    by (auto dest!: os_MkdirAll_call dest: untouched_same)
  show "os_CreateTemp p s = (e, s') \<Longrightarrow> q \<noteq> p \<Longrightarrow> map_of (nodes s') q = map_of (nodes s) q"
    by (auto dest!: os_CreateTemp_call split: if_splits)
  show "os_WriteString p d s = (e, s') \<Longrightarrow> q \<noteq> p \<Longrightarrow> map_of (nodes s') q = map_of (nodes s) q"
    by (auto dest!: os_WriteString_call simp: same_but_def)
  show "os_Quiet s = (e, s') \<Longrightarrow> map_of (nodes s') q = map_of (nodes s) q"
    using os_Quiet_call by fastforce
qed

lemmas os_calls_keep_snd = os_calls_keep [OF prod.collapse [symmetric]]

lemma path_dir_temp:
  assumes "pick_ok pick"
  shows "path_dir (temp_path pick (path_dir p) s) = path_dir p"
  unfolding temp_path_def by (rule path_join_dir) (use assms in \<open>simp_all add: pick_ok_def\<close>)

lemma atomicWrite_keeps:
  assumes "atomicWrite pick path content s = (e, s')" "q \<noteq> path" "\<not> above path q"
    "\<And>x. q \<noteq> temp_path pick (path_dir path) x"
  shows "map_of (nodes s') q = map_of (nodes s) q"
proof -
  obtain e1 s1 where m: "os_MkdirAll (path_dir path) s = (e1, s1)" by fastforce
  have n1: "map_of (nodes s1) q = map_of (nodes s) q"
    using os_calls_keep(4) [OF m] assms(3) by (simp add: above_def)
  show ?thesis
  proof (cases e1)
    case (Some x)
    with assms(1) m n1 show ?thesis by (auto simp: atomicWrite_def Let_def)
  next
    case None
    define tmp where "tmp = temp_path pick (path_dir path) s1"
    have q: "q \<noteq> tmp" using assms(4) by (simp add: tmp_def)
    note keep = os_calls_keep_snd(2) [OF q] os_calls_keep(3) [OF _ q assms(2)] os_calls_keep(5,6) [OF _ q] os_calls_keep(7) [where q = q]
      os_calls_keep_snd(7)
    have "map_of (nodes s') q = map_of (nodes s1) q"
      using assms(1) m None
      by (auto simp: atomicWrite_def Let_def tmp_def [symmetric] keep(1,6) dest!: keep(2-5) split: prod.splits option.splits)
    with n1 show ?thesis by simp
  qed
qed

lemma run_step_keeps:
  assumes "run_step pick rl cfg st s = (e, s')" "pick_ok pick" "harmless rl" "\<not> footprint [st] q"
  shows "map_of (nodes s') q = map_of (nodes s) q \<and> faults s' = faults s"
proof (cases "st_Render st cfg")
  case (Inl x)
  with assms(1) show ?thesis by (auto simp: run_step_def)
next
  case (Inr c)
  obtain e1 s1 where w: "atomicWrite pick (st_ConfigPath st) c s = (e1, s1)" by fastforce
  have "q \<noteq> temp_path pick (path_dir (st_ConfigPath st)) x" for x
    using assms(4) is_temp_temp_path [OF assms(2)] path_dir_temp [OF assms(2)] by auto
  then have n1: "map_of (nodes s1) q = map_of (nodes s) q"
    using atomicWrite_keeps [OF w] assms(4) by simp
  have f1: "faults s1 = faults s" using atomicWrite_log [OF w] by simp
  have reload: "nodes (snd (r svc x)) = nodes x \<and> faults (snd (r svc x)) = faults x" if "rl = Some r" for r svc x
    using assms(3) that by (simp add: harmless_def)
  have reload': "nodes y = nodes x \<and> faults y = faults x" if "rl = Some r" "r svc x = (f, y)" for r svc x f y
    using reload [OF that(1), of svc x] that(2) by simp
  have "nodes s' = nodes s1 \<and> faults s' = faults s1"
    using assms(1) Inr w
    by (auto simp: run_step_def applySysctl_def os_Exec_def split: option.splits if_splits prod.splits dest!: reload' [rotated])
  with n1 f1 show ?thesis by simp
qed

lemma run_steps_keeps:
  assumes "run_steps pick rl cfg sts completed s = (res, s')" "pick_ok pick" "harmless rl" "\<not> footprint sts q"
  shows "map_of (nodes s') q = map_of (nodes s) q \<and> faults s' = faults s"
  using assms
proof (induction sts arbitrary: completed s)
  case (Cons st sts)
  obtain e s1 where r: "run_step pick rl cfg st s = (e, s1)" by fastforce
  have "\<not> footprint [st] q" using Cons.prems(4) by (auto simp: footprint_def)
  note S = run_step_keeps [OF r Cons.prems(2,3) this]
  show ?case
  proof (cases e)
    case None
    with Cons.prems(1) r have "run_steps pick rl cfg sts (completed @ [st_Name st]) s1 = (res, s')" by simp
    from Cons.IH [OF this Cons.prems(2,3)] Cons.prems(4) S show ?thesis by simp
  qed (use Cons.prems(1) r S in auto)
qed simp

text \<open>The restoration, whatever fails, on files that are no links.\<close>

lemma restore_loop_keeps:
  assumes "\<forall>k \<in> set ks. map_of m k = Some (backup_path k) \<and> file_or_none (nodes s) k"
    "q \<notin> set ks" "q \<notin> backup_path ` set ks"
  shows "map_of (nodes (restore_loop m ks s)) q = map_of (nodes s) q \<and> faults (restore_loop m ks s) = faults s"
  using assms
proof (induction ks arbitrary: s)
  case (Cons k ks)
  obtain r s1 where rd: "os_ReadFile (backup_path k) s = (r, s1)" by fastforce
  note s1 = os_ReadFile_call [OF rd]
  have k: "map_of m k = Some (backup_path k)" "file_or_none (nodes s) k" using Cons.prems(1) by simp_all
  show ?case
  proof (cases r)
    case (Inl e)
    have "\<forall>k \<in> set ks. map_of m k = Some (backup_path k) \<and> file_or_none (nodes s1) k" using Cons.prems(1) s1 by simp
    from Cons.IH [OF this] Cons.prems(2,3) Inl k rd s1 show ?thesis by simp
  next
    case (Inr d)
    define s2 where "s2 = snd (os_WriteFile k d s1)"
    define s3 where "s3 = snd (os_Remove (backup_path k) s2)"
    have w: "os_WriteFile k d s1 = (fst (os_WriteFile k d s1), s2)" by (simp add: s2_def)
    have r: "os_Remove (backup_path k) s2 = (fst (os_Remove (backup_path k) s2), s3)" by (simp add: s3_def)
    have k1: "file_or_none (nodes s1) k" using k(2) s1 by simp
    have same2: "map_of (nodes s2) x = map_of (nodes s) x" if "x \<noteq> k" for x
      using os_WriteFile_call [OF w] file_or_none_resolve [OF k1] that s1 by (auto simp: same_but_def)
    have same3: "map_of (nodes s3) x = map_of (nodes s2) x" if "x \<noteq> backup_path k" for x
      by (rule os_calls_keep(2) [OF r that])
    have "file_or_none (nodes s3) x" if "file_or_none (nodes s) x" for x
    proof -
      have "file_or_none (nodes s2) x" using file_or_none_write [OF w] that s1 by simp
      then show ?thesis
        using r by (cases "x = backup_path k")
          (auto simp: os_Remove_def file_or_none_def same3 split: option.splits node.splits if_splits)
    qed
    then have "\<forall>k \<in> set ks. map_of m k = Some (backup_path k) \<and> file_or_none (nodes s3) k" using Cons.prems(1) by simp
    from Cons.IH [OF this] Cons.prems(2,3) same2 same3
    have "map_of (nodes (restore_loop m ks s3)) q = map_of (nodes s) q \<and> faults (restore_loop m ks s3) = faults s3" by simp
    moreover have "faults s3 = faults s"
      using os_calls_log(2) [OF w] os_calls_log(3) [OF r] s1 by simp
    moreover have "restore_loop m (k # ks) s = restore_loop m ks s3"
      using rd Inr k(1) by (simp add: s2_def s3_def)
    ultimately show ?thesis by simp
  qed
qed simp

text \<open>A run changes nothing outside its footprint, whatever fails.\<close>

lemma Execute_keeps:
  assumes "Execute pick its p cfg s = (res, s')" "steps_ok (pl_Steps p)" "ready (pl_Steps p) (nodes s)"
    "pick_ok pick" "harmless (pl_Reloader p)" "some_order (its 2)" "\<not> footprint (pl_Steps p) q"
  shows "map_of (nodes s') q = map_of (nodes s) q \<and> faults s' = faults s"
  using assms(1)
proof (cases rule: Execute_phases)
  case (vlan e new)
  then show ?thesis by (simp add: only_runs_def)
next
  case (steps new s1 m s2 s3)
  let ?sts = "pl_Steps p" and ?ks = "its 2 (keys_of m)"
  have v: "nodes s1 = nodes s" "faults s1 = faults s" using steps(1) by (simp_all add: only_runs_def)
  have r1: "ready ?sts (nodes s1)" using assms(3) v by simp
  note A = backup_all_spec [OF steps(3) ready_backups [OF r1]]
  note K = run_steps_keeps [OF steps(4) assms(4,5,7)]
  note R = run_steps_spec [OF steps(4) assms(4,5,2)]
  have q: "q \<notin> paths_of ?sts" "q \<notin> backup_path ` paths_of ?sts" using assms(7) by (simp_all add: footprint_def)
  have n3: "map_of (nodes s3) q = map_of (nodes s) q \<and> faults s3 = faults s"
    using A K q v by (simp add: same_but_def)
  have mk: "k \<in> paths_of ?sts \<and> map_of m k = Some (backup_path k)" if "k \<in> set ?ks" for k
    using A that assms(6) by (fastforce simp: set_keys_of)
  show ?thesis
  proof (cases "rs_Err res = None")
    case True
    have "set (map (\<lambda>k. the (map_of m k)) ?ks) \<subseteq> backup_path ` paths_of ?sts" using mk by fastforce
    then have "q \<notin> set (map (\<lambda>k. the (map_of m k)) ?ks)" using q(2) by blast
    moreover have "faults (remove_all ps x) = faults x" for ps x by (induction ps arbitrary: x) simp_all
    ultimately show ?thesis
      using remove_all_spec [of "map (\<lambda>k. the (map_of m k)) ?ks" s3] steps(5) True n3
      by (simp add: same_but_def)
  next
    case False
    have "file_or_none (nodes s3) k" if k: "k \<in> paths_of ?sts" for k
    proof -
      have "file_or_none (nodes s2) k" using A r1 k by (simp add: ready_def)
      moreover obtain st where "st \<in> set ?sts" "k = st_ConfigPath st" using k by (auto simp: paths_of_def)
      then have "map_of (nodes s3) k = map_of (nodes s2) k \<or> (\<exists>c. map_of (nodes s3) k = Some (File c))"
        using R unfolding between_def by blast
      ultimately show ?thesis by (auto simp: file_or_none_def)
    qed
    with mk have "\<forall>k \<in> set ?ks. map_of m k = Some (backup_path k) \<and> file_or_none (nodes s3) k" by blast
    moreover have "q \<notin> set ?ks" "q \<notin> backup_path ` set ?ks" using mk q by blast+
    ultimately show ?thesis
      using restore_loop_keeps [of ?ks m s3 q] steps(5) False n3 by (simp add: restoreBackups_def)
  qed
qed

section \<open>The pipeline of the program\<close>

text \<open>It works under \<^verbatim>\<open>/etc\<close> only.\<close>

lemma path_dir_prefix: "path_dir q = d \<Longrightarrow> d \<noteq> ''/'' \<Longrightarrow> d \<noteq> ''.'' \<Longrightarrow> take (length d) q = d"
  by (auto simp: path_dir_def split: option.splits nat.splits dest!: last_index_Some)

lemma default_paths:
  assumes "p \<in> paths_of (pl_Steps default_pipeline)"
  shows "take 4 p = ''/etc''" "take 4 (backup_path p) = ''/etc''" "take 4 (path_dir p) = ''/etc''" "length (path_dir p) > 3"
    "\<forall>q \<in> set (path_prefixes (path_dir p)). take 4 q = ''/etc''"
proof -
  have "list_all (\<lambda>p. take 4 p = ''/etc'' \<and> take 4 (backup_path p) = ''/etc'' \<and> take 4 (path_dir p) = ''/etc'' \<and>
      length (path_dir p) > 3 \<and> list_all (\<lambda>q. take 4 q = ''/etc'') (path_prefixes (path_dir p)))
    (map st_ConfigPath (pl_Steps default_pipeline))" by code_simp
  moreover have "p \<in> set (map st_ConfigPath (pl_Steps default_pipeline))" using assms by (simp add: paths_of_def)
  ultimately show "take 4 p = ''/etc''" "take 4 (backup_path p) = ''/etc''" "take 4 (path_dir p) = ''/etc''"
    "length (path_dir p) > 3" "\<forall>q \<in> set (path_prefixes (path_dir p)). take 4 q = ''/etc''"
    unfolding list_all_iff by blast+
qed

lemma default_footprint: "footprint (pl_Steps default_pipeline) q \<Longrightarrow> take 4 q = ''/etc''"
proof -
  assume "footprint (pl_Steps default_pipeline) q"
  then consider "q \<in> paths_of (pl_Steps default_pipeline)"
    | p where "p \<in> paths_of (pl_Steps default_pipeline)" "q = backup_path p \<or> above p q \<or> path_dir q = path_dir p"
    by (auto simp: footprint_def above_any_def)
  then show ?thesis
  proof cases
    case 1
    then show ?thesis by (rule default_paths)
  next
    case 2
    note p = default_paths [OF 2(1)]
    from 2(2) show ?thesis
    proof (elim disjE)
      assume d: "path_dir q = path_dir p"
      have "take (length (path_dir p)) q = path_dir p"
        by (rule path_dir_prefix [OF d]) (use p(3) in auto)
      then obtain r where "q = path_dir p @ r" by (metis append_take_drop_id)
      with p(3,4) show ?thesis by simp
    qed (use p in \<open>auto simp: above_def\<close>)
  qed
qed

section \<open>When a run succeeds\<close>

text \<open>Temporary names that no file has, and a machine on which no system call fails and every command
  succeeds whose failure the pipeline does not ignore.\<close>

definition fresh_pick :: "(os \<Rightarrow> string) \<Rightarrow> bool" where
  "fresh_pick pick \<longleftrightarrow> pick_ok pick \<and> (\<forall>d s. map_of (nodes s) (temp_path pick d s) = None)"

definition may_fail :: "string list \<Rightarrow> bool" where
  "may_fail c \<longleftrightarrow> c = list_cmd \<or> (\<exists>d. c \<in> {delete_cmd d, [''ip'', ''link'', ''show'', d], [''ip'', ''addr'', ''flush'', ''dev'', d]})"

definition sound_machine :: "os \<Rightarrow> bool" where
  "sound_machine s \<longleftrightarrow> faults s = (\<lambda>_. None) \<and> (\<forall>cs c. \<not> may_fail c \<longrightarrow> fst (answer s (cs @ [c])))"

text \<open>The directories above the configuration files are directories or missing.\<close>

definition writable :: "step list \<Rightarrow> tree \<Rightarrow> bool" where
  "writable sts t \<longleftrightarrow> (\<forall>p \<in> paths_of sts. \<forall>q \<in> set (path_prefixes (path_dir p)).
     \<not> is_temp q \<and> (map_of t q = None \<or> map_of t q = Some Dir))"

lemma sound_Exec: "sound_machine s \<Longrightarrow> \<not> may_fail c \<Longrightarrow> os_Exec c s = ((ok, out), s') \<Longrightarrow> ok"
  unfolding sound_machine_def os_Exec_def by (metis fst_conv)

lemma sound_only_runs: "sound_machine s \<Longrightarrow> only_runs s s' new \<Longrightarrow> sound_machine s'"
  by (simp add: sound_machine_def only_runs_def)

lemma sound_step:
  assumes "sound_machine s" "\<not> may_fail c"
  obtains out s' where "os_Exec c s = ((True, out), s')" "sound_machine s'"
proof -
  obtain ok out s' where x: "os_Exec c s = ((ok, out), s')" by (metis prod.exhaust)
  with sound_Exec [OF assms x] sound_only_runs [OF assms(1) only_runs_Exec [OF x]] show thesis by (intro that) auto
qed

lemma os_calls_answer:
  "os_ReadFile p s = (r, s') \<Longrightarrow> answer s' = answer s"
  "os_WriteFile p d s = (e, s') \<Longrightarrow> answer s' = answer s"
  "os_Remove p s = (e, s') \<Longrightarrow> answer s' = answer s"
  "os_Rename p q s = (e, s') \<Longrightarrow> answer s' = answer s"
  "os_MkdirAll p s = (e, s') \<Longrightarrow> answer s' = answer s"
  "os_CreateTemp p s = (e, s') \<Longrightarrow> answer s' = answer s"
  "os_WriteString p d s = (e, s') \<Longrightarrow> answer s' = answer s"
  "os_Quiet s = (e, s') \<Longrightarrow> answer s' = answer s"
         apply (auto dest: os_ReadFile_call os_WriteFile_call os_Remove_call)[3]
      apply (auto simp: os_Rename_def split: option.splits if_splits)[1]
     apply (auto dest: os_MkdirAll_call)[1]
    apply (auto dest!: os_CreateTemp_call split: if_splits)[1]
   apply (auto dest: os_WriteString_call os_Quiet_call)
  done

lemmas os_calls_answer_snd [simp] = os_calls_answer [OF prod.collapse [symmetric]]

lemma atomicWrite_answer: "atomicWrite pick p c s = (e, s') \<Longrightarrow> answer s' = answer s"
  unfolding atomicWrite_def Let_def
  by (auto dest!: os_calls_answer split: prod.splits option.splits)

lemma backup_all_answer: "backup_all sts m s = (m', s') \<Longrightarrow> answer s' = answer s"
  by (induction sts arbitrary: m s)
    (auto simp: backupFile_def dest!: os_calls_answer split: prod.splits sum.splits option.splits)

lemma os_MkdirAll_ok:
  assumes "call_fate s = None" "\<forall>q \<in> set (path_prefixes d). map_of (nodes s) q = None \<or> map_of (nodes s) q = Some Dir"
    "os_MkdirAll d s = (e, s')"
  shows "e = None" "is_dir (nodes s') d"
proof -
  have d: "d \<in> set (path_prefixes d)" by (rule path_prefixes_self)
  then have r: "resolve (nodes s) d = d" using assms(2) by (auto simp: resolve_def)
  have "\<not> (\<exists>q \<in> set (path_prefixes d). map_of (nodes s) q \<noteq> None \<and> \<not> is_dir (nodes s) q)"
    using assms(2) by (auto simp: is_dir_def)
  with assms(1,3) r d show "e = None" "is_dir (nodes s') d"
    unfolding os_MkdirAll_def by (auto simp: is_dir_def fold_update_Dir split: if_splits)
qed

lemma atomicWrite_ok:
  assumes "faults s = (\<lambda>_. None)" "fresh_pick pick" "config_path p" "file_or_none (nodes s) p"
    "\<forall>q \<in> set (path_prefixes (path_dir p)). map_of (nodes s) q = None \<or> map_of (nodes s) q = Some Dir"
  shows "fst (atomicWrite pick p content s) = None"
proof -
  let ?d = "path_dir p"
  have fate: "call_fate x = None" if "faults x = (\<lambda>_. None)" for x using that by (simp add: call_fate_def)
  obtain e1 s1 where m: "os_MkdirAll ?d s = (e1, s1)" by fastforce
  note M = os_MkdirAll_ok [OF fate [OF assms(1)] assms(5) m]
  have f1: "faults s1 = (\<lambda>_. None)" using os_calls_log(5) [OF m] assms(1) by simp
  have n1: "map_of (nodes s1) p = map_of (nodes s) p"
    using os_calls_keep(4) [OF m, of p] assms(3) by (simp add: config_path_def above_def)
  define tmp where "tmp = temp_path pick ?d s1"
  have tmp: "map_of (nodes s1) tmp = None" "path_dir tmp = ?d" "tmp \<noteq> p" "tmp \<noteq> ?d"
  proof -
    have pk: "pick_ok pick" and none: "map_of (nodes s1) tmp = None" using assms(2) by (simp_all add: fresh_pick_def tmp_def)
    then show "map_of (nodes s1) tmp = None" "path_dir tmp = ?d" "tmp \<noteq> ?d"
      using path_dir_temp [OF pk] M(2) by (auto simp: tmp_def is_dir_def)
    show "tmp \<noteq> p" using is_temp_temp_path [OF pk] assms(3) unfolding tmp_def config_path_def by metis
  qed
  define s2 where "s2 = end_call (AList.update tmp (File []) (nodes s1)) s1"
  define s3 where "s3 = end_call (AList.update tmp (File content) (nodes s2)) s2"
  define s4 where "s4 = end_call (nodes s3) s3"
  define s5 where "s5 = end_call (nodes s4) s4"
  define s6 where "s6 = end_call (nodes s5) s5"
  note defs = s2_def s3_def s4_def s5_def s6_def
  have f: "call_fate s1 = None" "call_fate s2 = None" "call_fate s3 = None" "call_fate s4 = None" "call_fate s5 = None" "call_fate s6 = None"
    using f1 by (simp_all add: fate defs)
  have "os_CreateTemp tmp s1 = (None, s2)" using f(1) tmp M(2) by (simp add: os_CreateTemp_def s2_def)
  moreover have "os_WriteString tmp content s2 = (None, s3)" using f(2) by (simp add: os_WriteString_def s3_def)
  moreover have "os_Quiet s3 = (None, s4)" "os_Quiet s4 = (None, s5)" "os_Quiet s5 = (None, s6)"
    using f by (simp_all add: os_Quiet_def s4_def s5_def s6_def)
  moreover have "fst (os_Rename tmp p s6) = None"
    using f(6) tmp assms(4) M(2) n1 by (auto simp: os_Rename_def defs is_dir_def file_or_none_def)
  then obtain s7 where "os_Rename tmp p s6 = (None, s7)" by (metis prod.collapse)
  ultimately show ?thesis using m M(1) by (simp add: atomicWrite_def Let_def tmp_def [symmetric])
qed

lemma run_step_ok:
  assumes "sound_machine s" "fresh_pick pick" "config_path (st_ConfigPath st)" "file_or_none (nodes s) (st_ConfigPath st)"
    "\<forall>q \<in> set (path_prefixes (path_dir (st_ConfigPath st))). map_of (nodes s) q = None \<or> map_of (nodes s) q = Some Dir"
    "st_Render st cfg = Inr c" "run_step pick (Some systemd_Reload) cfg st s = (e, s')"
  shows "e = None" "sound_machine s'"
proof -
  let ?p = "st_ConfigPath st"
  obtain e1 s1 where w: "atomicWrite pick ?p c s = (e1, s1)" by fastforce
  have e1: "e1 = None" using atomicWrite_ok [OF _ assms(2,3,4,5), of c] assms(1) w by (simp add: sound_machine_def)
  have s1: "sound_machine s1" using atomicWrite_log [OF w] atomicWrite_answer [OF w] assms(1) by (simp add: sound_machine_def)
  obtain e2 s2 where y: "(if st_Name st = ''sysctl'' then applySysctl ?p s1 else (None, s1)) = (e2, s2)" by fastforce
  have "\<not> may_fail [''sysctl'', ''-e'', ''-p'', ?p]" by (simp add: may_fail_def list_cmd_def delete_cmd_def)
  then have s2: "e2 = None" "sound_machine s2"
    using y s1 sound_Exec [OF s1] sound_only_runs [OF s1 only_runs_Exec]
    by (auto simp: applySysctl_def split: if_splits prod.splits)
  have "\<not> may_fail [''systemctl'', ''reload-or-restart'', v]" for v by (simp add: may_fail_def list_cmd_def delete_cmd_def)
  then have r: "e3 = None \<and> sound_machine s3" if "systemd_Reload v s2 = (e3, s3)" for v e3 s3
    using that sound_Exec [OF s2(2), of "[''systemctl'', ''reload-or-restart'', v]"] sound_only_runs [OF s2(2) only_runs_Exec]
    by (auto simp: systemd_Reload_def split: if_splits prod.splits)
  show "e = None" "sound_machine s'"
    using assms(6,7) w e1 y s2 r by (auto simp: run_step_def split: if_splits prod.splits option.splits)
qed

lemma writable_between:
  assumes "writable all t" "steps_ok all" "between cfg all t t'"
  shows "writable all t'"
  unfolding writable_def
proof (intro ballI)
  fix p q assume p: "p \<in> paths_of all" and q: "q \<in> set (path_prefixes (path_dir p))"
  then have "above_any all q" by (auto simp: above_any_def above_def)
  then have "q \<notin> paths_of all" using assms(2) by (auto simp: steps_ok_def)
  moreover have w: "\<not> is_temp q" "map_of t q = None \<or> map_of t q = Some Dir" using assms(1) p q by (auto simp: writable_def)
  ultimately show "\<not> is_temp q \<and> (map_of t' q = None \<or> map_of t' q = Some Dir)"
    using assms(3) unfolding between_def untouched_def by metis
qed

lemma run_steps_ok:
  assumes "run_steps pick (Some systemd_Reload) cfg sts completed s = (res, s')"
    "sound_machine s" "fresh_pick pick" "steps_ok all" "set sts \<subseteq> set all" "\<forall>p \<in> paths_of all. file_or_none (nodes s) p"
    "writable all (nodes s)" "\<forall>st \<in> set sts. \<exists>c. st_Render st cfg = Inr c"
  shows "rs_Err res = None"
  using assms
proof (induction sts arbitrary: completed s)
  case (Cons st sts)
  let ?p = "st_ConfigPath st"
  obtain e s1 where r: "run_step pick (Some systemd_Reload) cfg st s = (e, s1)" by fastforce
  have p: "?p \<in> paths_of all" using Cons.prems(5) by (auto simp: paths_of_def)
  then have cp: "\<not> is_temp ?p" "\<not> above ?p ?p" using Cons.prems(4) by (auto simp: steps_ok_def above_any_def)
  obtain c where c: "st_Render st cfg = Inr c" using Cons.prems(8) by auto
  have ro: "e = None" "sound_machine s1"
    using run_step_ok [OF Cons.prems(2,3) _ _ _ c r] cp p Cons.prems(6,7)
    by (auto simp: config_path_def writable_def)
  have pk: "pick_ok pick" using Cons.prems(3) by (simp add: fresh_pick_def)
  have "between cfg [st] (nodes s) (nodes s1)" using run_step_spec [OF r pk harmless_systemd(1) cp] by blast
  then have b: "between cfg all (nodes s) (nodes s1)" by (rule between_weaken [OF Cons.prems(4), rotated]) (use Cons.prems(5) in auto)
  have "\<forall>p \<in> paths_of all. file_or_none (nodes s1) p"
    using b Cons.prems(6) unfolding between_def paths_of_def file_or_none_def by (metis (no_types, lifting) imageE)
  with Cons.IH [OF _ ro(2) Cons.prems(3,4) _ _ writable_between [OF Cons.prems(7,4) b]] Cons.prems r ro(1)
  show ?case by auto
qed auto

lemma provision_ok:
  assumes "sound_machine s" "\<forall>f \<in> set fs. if_VLAN f > 0 \<longrightarrow> ParentDevice (if_Device f) \<noteq> []"
  shows "fst (provision_all fs s) = None"
  using assms
proof (induction fs arbitrary: s)
  case (Cons f fs)
  show ?case
  proof (cases "if_VLAN f > 0")
    case True
    let ?d = "if_Device f"
    note run = sound_only_runs [OF _ only_runs_Exec]
    obtain ok out s1 where x: "os_Exec [''ip'', ''link'', ''show'', ?d] s = ((ok, out), s1)" by (metis prod.exhaust)
    have s1: "sound_machine s1" by (rule run [OF Cons.prems(1) x])
    have cmds: "\<not> may_fail [''ip'', ''link'', ''add'', ''link'', p, ''name'', d, ''type'', ''vlan'', ''id'', v]"
      "\<not> may_fail [''ip'', ''link'', ''set'', d, ''up'']" "\<not> may_fail [''ip'', ''addr'', ''add'', a, ''dev'', d]" for p d v a
      by (simp_all add: may_fail_def list_cmd_def delete_cmd_def)
    have create: "e = None \<and> sound_machine s2" if "create_vlan (ParentDevice ?d) f s1 = (e, s2)" for e s2
    proof -
      obtain o1 t1 where t1: "os_Exec [''ip'', ''link'', ''add'', ''link'', ParentDevice ?d, ''name'', ?d, ''type'', ''vlan'',
          ''id'', itoa (if_VLAN f)] s1 = ((True, o1), t1)" "sound_machine t1" by (rule sound_step [OF s1 cmds(1)])
      obtain o2 t2 where t2: "os_Exec [''ip'', ''link'', ''set'', ?d, ''up''] t1 = ((True, o2), t2)" "sound_machine t2"
        by (rule sound_step [OF t1(2) cmds(2)])
      from that t1 t2 show ?thesis by (auto simp: create_vlan_def)
    qed
    have assign: "e = None \<and> sound_machine s3" if "assign_address ex f s2 = (e, s3)" "sound_machine s2" for ex e s2 s3
    proof (cases "if_Address f \<noteq> [] \<and> if_Address f \<noteq> ''dhcp''")
      case True
      define t1 where "t1 = (if ex then snd (os_Exec [''ip'', ''addr'', ''flush'', ''dev'', ?d] s2) else s2)"
      have "sound_machine t1"
        using that(2) run [OF that(2) prod.collapse [symmetric]] by (simp add: t1_def)
      then obtain o2 t2 where "os_Exec [''ip'', ''addr'', ''add'', if_Address f, ''dev'', ?d] t1 = ((True, o2), t2)" "sound_machine t2"
        by (rule sound_step [OF _ cmds(3)])
      with that(1) True show ?thesis by (auto simp: assign_address_def Let_def t1_def [symmetric])
    qed (use that in \<open>auto simp: assign_address_def\<close>)
    obtain e s2 where c: "(if \<not> ok then create_vlan (ParentDevice ?d) f s1 else (None, s1)) = (e, s2)" by fastforce
    then have c': "e = None" "sound_machine s2" using create s1 by (auto split: if_splits)
    obtain e' s3 where a: "assign_address ok f s2 = (e', s3)" by fastforce
    note A = assign [OF a c'(2)]
    have "provision_vlan f s = (None, s3)"
      using Cons.prems(2) True x c c' a A by (simp add: provision_vlan_def)
    with Cons.IH A Cons.prems(2) True show ?thesis by simp
  qed (use Cons in simp)
qed simp

lemma ProvisionVLANs_ok:
  assumes "sound_machine s" "\<forall>f \<in> set (Interfaces cfg). if_VLAN f > 0 \<longrightarrow> ParentDevice (if_Device f) \<noteq> []"
  shows "fst (ProvisionVLANs its cfg s) = None" "sound_machine (snd (ProvisionVLANs its cfg s))"
proof -
  let ?d = "desired_vlans (Interfaces cfg)"
  let ?ps = "its 1 (keys_of (parent_devices (its 0 (keys_of ?d))))"
  have "sound_machine (remove_stale ?d ?ps s)"
    using remove_stale_runs [of s ?d ?ps] sound_only_runs [OF assms(1)] by blast
  then show "fst (ProvisionVLANs its cfg s) = None"
    using provision_ok assms(2) by (simp add: ProvisionVLANs_def Let_def)
  show "sound_machine (snd (ProvisionVLANs its cfg s))"
    using ProvisionVLANs_only_runs [of s its cfg] sound_only_runs [OF assms(1)] by blast
qed

lemma Execute_ok:
  assumes "sound_machine s" "fresh_pick pick" "steps_ok (pl_Steps p)" "ready (pl_Steps p) (nodes s)" "writable (pl_Steps p) (nodes s)"
    "pl_Reloader p = Some systemd_Reload" "\<forall>st \<in> set (pl_Steps p). \<exists>c. st_Render st cfg = Inr c"
    "\<forall>f \<in> set (Interfaces cfg). if_VLAN f > 0 \<longrightarrow> ParentDevice (if_Device f) \<noteq> []"
    "Execute pick its p cfg s = (res, s')"
  shows "rs_Err res = None"
proof -
  let ?sts = "pl_Steps p"
  obtain s1 where v: "ProvisionVLANs its cfg s = (None, s1)"
    using ProvisionVLANs_ok(1) [OF assms(1,8)] by (metis prod.collapse)
  obtain m s2 where b: "backup_all ?sts [] s1 = (m, s2)" by fastforce
  obtain r s3 where steps: "run_steps pick (Some systemd_Reload) cfg ?sts [] s2 = (r, s3)" by fastforce
  have res: "res = r" using assms(6,9) v b steps by (auto simp: Execute_def split: if_splits)
  have s1: "sound_machine s1" "nodes s1 = nodes s"
    using ProvisionVLANs_ok(2) [OF assms(1,8), of its] ProvisionVLANs_only_runs [of s its cfg] v by (auto simp: only_runs_def)
  have r1: "ready ?sts (nodes s1)" using assms(4) s1 by simp
  note A = backup_all_spec [OF b ready_backups [OF r1]]
  have s2: "sound_machine s2" using s1 A backup_all_answer [OF b] by (simp add: sound_machine_def)
  have f2: "\<forall>p \<in> paths_of ?sts. file_or_none (nodes s2) p" using A r1 by (simp add: ready_def)
  have "writable ?sts (nodes s2)"
    unfolding writable_def
  proof (intro ballI)
    fix x q assume x: "x \<in> paths_of ?sts" and q: "q \<in> set (path_prefixes (path_dir x))"
    then have "above_any ?sts q" by (auto simp: above_any_def above_def)
    then have "q \<notin> backup_path ` paths_of ?sts" using assms(3) by (auto simp: steps_ok_def)
    with A s1 have "map_of (nodes s2) q = map_of (nodes s) q" by (simp add: same_but_def)
    with assms(5) x q show "\<not> is_temp q \<and> (map_of (nodes s2) q = None \<or> map_of (nodes s2) q = Some Dir)"
      by (simp add: writable_def)
  qed
  from run_steps_ok [OF steps s2 assms(2,3) subset_refl f2 this assms(7)] res show ?thesis by simp
qed

text \<open>The conditions of a run of the pipeline depend on the tree under \<^verbatim>\<open>/etc\<close> only.\<close>

definition same_etc :: "tree \<Rightarrow> tree \<Rightarrow> bool" where
  "same_etc t t' \<longleftrightarrow> (\<forall>q. take 4 q = ''/etc'' \<longrightarrow> map_of t' q = map_of t q)"

lemma same_etc_default:
  assumes "same_etc t t'"
  shows "ready (pl_Steps default_pipeline) t \<Longrightarrow> ready (pl_Steps default_pipeline) t'"
    "writable (pl_Steps default_pipeline) t \<Longrightarrow> writable (pl_Steps default_pipeline) t'"
  using assms default_paths unfolding ready_def writable_def file_or_none_def is_dir_def same_etc_def by metis+

section \<open>Instances\<close>

text \<open>A choice of names longer than all names in the tree.\<close>

definition long_pick :: "os \<Rightarrow> string" where
  "long_pick s = replicate (sum_list (map length (keys_of (nodes s)))) (CHR ''x'')"

lemma long_pick_fresh: "fresh_pick long_pick"
proof -
  have "map_of (nodes s) (temp_path long_pick d s) = None" for d s
  proof (rule ccontr)
    assume "map_of (nodes s) (temp_path long_pick d s) \<noteq> None"
    then have "temp_path long_pick d s \<in> set (keys_of (nodes s))" by (simp add: set_keys_of domIff)
    then have "length (temp_path long_pick d s) \<le> sum_list (map length (keys_of (nodes s)))"
      by (intro member_le_sum_list) auto
    then show False by (simp add: temp_path_def long_pick_def path_join_def)
  qed
  moreover have "pick_ok long_pick" by (simp add: pick_ok_def long_pick_def)
  ultimately show ?thesis by (simp add: fresh_pick_def)
qed

lemma default_renders: "\<forall>st \<in> set (pl_Steps default_pipeline). \<exists>c. st_Render st cfg = Inr c"
  by (simp add: default_pipeline_def NewPipeline_def sysctl_Render_def frr_Render_def nft_Render_def kea_Render_def
      unbound_Render_def)

lemma default_reloader: "pl_Reloader default_pipeline = Some systemd_Reload"
  by (simp add: default_pipeline_def NewPipeline_def)

section \<open>What a run leaves for the next one\<close>

lemma Execute_failed:
  assumes "Execute pick its p cfg s = (res, s')" "steps_ok (pl_Steps p)" "pick_ok pick" "harmless (pl_Reloader p)"
    "\<forall>st \<in> set (pl_Steps p). st_Name st \<noteq> []"
  shows "rs_Failed res \<noteq> [] \<longleftrightarrow> rs_Err res \<noteq> None"
  using assms(1)
proof (cases rule: Execute_phases)
  case (steps new s1 m s2 s3)
  note R = run_steps_spec [OF steps(4) assms(3,4,2)]
  show ?thesis
  proof (cases "rs_Err res")
    case (Some e)
    with R obtain k where "k < length (pl_Steps p)" "rs_Failed res = st_Name (pl_Steps p ! k)" by auto
    with Some assms(5) show ?thesis by simp
  qed (use R in simp)
qed simp

text \<open>A completed write has its directory.\<close>

lemma atomicWrite_dir:
  assumes "atomicWrite pick path content s = (None, s')" "pick_ok pick"
  shows "is_dir (nodes s') (path_dir path)"
proof -
  have dir: "is_dir (nodes x) (path_dir path)" if "os_Rename tmp path y = (None, x)" "tmp \<noteq> path_dir path" for tmp x y
    using that by (auto simp: os_Rename_def is_dir_def split: option.splits if_splits)
  obtain s1 where m: "os_MkdirAll (path_dir path) s = (None, s1)"
    using assms(1) by (cases "os_MkdirAll (path_dir path) s") (auto simp: atomicWrite_def Let_def split: option.splits)
  define tmp where "tmp = temp_path pick (path_dir path) s1"
  have "tmp \<noteq> path_dir path" by (simp add: tmp_def temp_path_def path_join_def)
  moreover obtain y where "os_Rename tmp path y = (None, s')"
    using assms(1) m by (auto simp: atomicWrite_def Let_def tmp_def [symmetric] split: prod.splits option.splits)
  ultimately show ?thesis using dir by blast
qed

lemma run_step_ready:
  assumes "run_step pick rl cfg st s = (e, s')" "pick_ok pick" "harmless rl" "steps_ok sts" "st \<in> set sts" "ready sts (nodes s)"
  shows "ready sts (nodes s')"
proof -
  let ?p = "st_ConfigPath st"
  have p: "?p \<in> paths_of sts" using assms(5) by (simp add: paths_of_def)
  then have ok: "\<not> is_temp ?p" "\<not> above ?p ?p" using assms(4) by (auto simp: steps_ok_def above_any_def)
  have b1: "between cfg [st] (nodes s) (nodes s')" using run_step_spec [OF assms(1-3) ok] by blast
  have b: "between cfg sts (nodes s) (nodes s')" by (rule between_weaken [OF assms(4) _ b1]) (use assms(5) in simp)
  have new: "is_dir (nodes s') (path_dir ?p)" if none: "map_of (nodes s) ?p = None" and ex: "map_of (nodes s') ?p \<noteq> None"
  proof -
    have reload: "nodes (snd (f svc x)) = nodes x" if "rl = Some f" for f svc x
      using assms(3) that by (simp add: harmless_def)
    have reload': "nodes y = nodes x" if "rl = Some f" "f svc x = (g, y)" for f svc x g y
      using reload [OF that(1), of svc x] that(2) by simp
    obtain c where c: "st_Render st cfg = Inr c" using assms(1) none ex by (cases "st_Render st cfg") (auto simp: run_step_def)
    obtain e1 s1 where w: "atomicWrite pick ?p c s = (e1, s1)" by fastforce
    have n: "nodes s' = nodes s1"
      using assms(1) c w by (auto simp: run_step_def applySysctl_def os_Exec_def split: option.splits prod.splits if_splits
          dest!: reload' [rotated])
    have "e1 = None" using atomicWrite_spec [OF w assms(2)] ok none ex n by (auto simp: config_path_def split: if_splits)
    with atomicWrite_dir [OF _ assms(2)] w n show ?thesis by simp
  qed
  show ?thesis
    unfolding ready_def
  proof (intro ballI conjI impI)
    fix x assume x: "x \<in> paths_of sts"
    note X = ready_between [OF assms(6,4) b x]
    show "file_or_none (nodes s') x" by (rule X(2))
    show "file_or_none (nodes s') (backup_path x)" using X(1) assms(6) x by (simp add: ready_def file_or_none_def)
    show "is_dir (nodes s') (path_dir x)" if ex: "map_of (nodes s') x \<noteq> None"
    proof (cases "map_of (nodes s) x = None")
      case True
      have "x = ?p"
      proof (rule ccontr)
        assume "x \<noteq> ?p"
        moreover have "\<not> is_temp x" "\<not> above ?p x" using assms(4) x p by (auto simp: steps_ok_def above_any_def)
        ultimately have "map_of (nodes s') x = map_of (nodes s) x"
          using b1 by (auto simp: between_def dest!: untouched_same [where q = x])
        with ex True show False by simp
      qed
      with True ex new show ?thesis by simp
    qed (use X(3) assms(6) x in \<open>simp add: ready_def\<close>)
  qed
qed

lemma run_steps_ready:
  "run_steps pick rl cfg sts completed s = (res, s') \<Longrightarrow> pick_ok pick \<Longrightarrow> harmless rl \<Longrightarrow> steps_ok all \<Longrightarrow>
     set sts \<subseteq> set all \<Longrightarrow> ready all (nodes s) \<Longrightarrow> ready all (nodes s')"
proof (induction sts arbitrary: completed s)
  case (Cons st sts)
  obtain e s1 where r: "run_step pick rl cfg st s = (e, s1)" by fastforce
  have "ready all (nodes s1)" using run_step_ready [OF r Cons.prems(2-4) _ Cons.prems(6)] Cons.prems(5) by simp
  with Cons r show ?case by (cases e) auto
qed simp

lemma file_or_none_remove: "file_or_none (nodes x) q \<Longrightarrow> file_or_none (nodes (snd (os_Remove r x))) q"
  by (cases "q = r") (auto simp: os_Remove_def file_or_none_def split: option.splits node.splits if_splits)

lemma is_dir_write: "file_or_none (nodes x) k \<Longrightarrow> is_dir (nodes x) q \<Longrightarrow> is_dir (nodes (snd (os_WriteFile k d x))) q"
  using os_WriteFile_call [OF prod.collapse [symmetric], of k d x]
  by (auto simp: file_or_none_resolve same_but_def is_dir_def) (metis file_or_none_not_dir is_dir_def)

lemma is_dir_remove: "file_or_none (nodes x) k \<Longrightarrow> is_dir (nodes x) q \<Longrightarrow> is_dir (nodes (snd (os_Remove k x))) q"
  using os_calls_keep_snd(2) [of q k x] file_or_none_not_dir by (cases "q = k") (auto simp: is_dir_def)

text \<open>The restoration and the removal of the backups keep what a next run needs.\<close>

definition has_dir :: "tree \<Rightarrow> string \<Rightarrow> bool" where
  "has_dir t q \<longleftrightarrow> (map_of t q \<noteq> None \<longrightarrow> is_dir t (path_dir q))"

lemma has_dir_write:
  assumes "file_or_none (nodes x) k" "has_dir (nodes x) q"
  shows "has_dir (nodes (snd (os_WriteFile k d x))) q"
proof (cases "q = k \<and> map_of (nodes x) k = None")
  case True
  let ?w = "os_WriteFile k d x"
  have "map_of (nodes (snd ?w)) k \<noteq> None \<longrightarrow> is_dir (nodes x) (path_dir k)"
    using True file_or_none_resolve [OF assms(1)]
    by (auto simp: os_WriteFile_def Let_def split: option.splits fault.splits)
  with True is_dir_write [OF assms(1), of "path_dir k" d] show ?thesis by (simp add: has_dir_def)
next
  case False
  have "map_of (nodes (snd (os_WriteFile k d x))) q \<noteq> None \<Longrightarrow> map_of (nodes x) q \<noteq> None"
    using False os_WriteFile_call [OF prod.collapse [symmetric], of k d x] file_or_none_resolve [OF assms(1)]
    by (auto simp: same_but_def)
  with assms(2) is_dir_write [OF assms(1), of "path_dir q" d] show ?thesis by (auto simp: has_dir_def)
qed

lemma has_dir_remove:
  assumes "file_or_none (nodes x) k" "has_dir (nodes x) q"
  shows "has_dir (nodes (snd (os_Remove k x))) q"
proof -
  have "map_of (nodes (snd (os_Remove k x))) q \<noteq> None \<Longrightarrow> map_of (nodes x) q \<noteq> None"
    by (auto simp: os_Remove_def split: option.splits node.splits if_splits)
  with assms(2) is_dir_remove [OF assms(1), of "path_dir q"] show ?thesis by (auto simp: has_dir_def)
qed

lemma restore_loop_files:
  assumes "\<forall>k \<in> set ks. map_of m k = Some (backup_path k) \<and> file_or_none (nodes s) k \<and> file_or_none (nodes s) (backup_path k)"
  shows "(file_or_none (nodes s) q \<longrightarrow> file_or_none (nodes (restore_loop m ks s)) q) \<and>
    (has_dir (nodes s) q \<longrightarrow> has_dir (nodes (restore_loop m ks s)) q)"
  using assms
proof (induction ks arbitrary: s)
  case (Cons k ks)
  obtain r s1 where rd: "os_ReadFile (backup_path k) s = (r, s1)" by fastforce
  note s1 = os_ReadFile_call [OF rd]
  have k: "map_of m k = Some (backup_path k)" "file_or_none (nodes s1) k" "file_or_none (nodes s1) (backup_path k)"
    using Cons.prems s1 by simp_all
  show ?case
  proof (cases r)
    case (Inl e)
    with Cons.IH [of s1] Cons.prems k rd s1 show ?thesis by simp
  next
    case (Inr d)
    define s2 where "s2 = snd (os_WriteFile k d s1)"
    define s3 where "s3 = snd (os_Remove (backup_path k) s2)"
    have f2: "file_or_none (nodes s) x \<Longrightarrow> file_or_none (nodes s2) x" for x
      using file_or_none_write [of k d s1 "fst (os_WriteFile k d s1)" s2 x] s1 by (simp add: s2_def)
    have f3: "file_or_none (nodes s) x \<Longrightarrow> file_or_none (nodes s3) x" for x
      using file_or_none_remove f2 by (simp add: s3_def)
    have "file_or_none (nodes s2) (backup_path k)" using f2 k(3) s1 by simp
    from has_dir_remove [OF this] has_dir_write [OF k(2), of _ d]
    have d3: "has_dir (nodes s) x \<Longrightarrow> has_dir (nodes s3) x" for x using s1 by (simp add: s2_def s3_def)
    have "\<forall>k \<in> set ks. map_of m k = Some (backup_path k) \<and> file_or_none (nodes s3) k \<and> file_or_none (nodes s3) (backup_path k)"
      using Cons.prems f3 by simp
    from Cons.IH [OF this] have "(file_or_none (nodes s3) q \<longrightarrow> file_or_none (nodes (restore_loop m ks s3)) q) \<and>
      (has_dir (nodes s3) q \<longrightarrow> has_dir (nodes (restore_loop m ks s3)) q)" .
    moreover have "restore_loop m (k # ks) s = restore_loop m ks s3" using rd Inr k(1) by (simp add: s2_def s3_def)
    ultimately show ?thesis using f3 d3 by simp
  qed
qed simp

lemma remove_all_files:
  "\<forall>p \<in> set ps. file_or_none (nodes s) p \<Longrightarrow> (file_or_none (nodes s) q \<longrightarrow> file_or_none (nodes (remove_all ps s)) q) \<and>
    (has_dir (nodes s) q \<longrightarrow> has_dir (nodes (remove_all ps s)) q)"
proof (induction ps arbitrary: s)
  case (Cons p ps)
  have "\<forall>x \<in> set ps. file_or_none (nodes (snd (os_Remove p s))) x" using Cons.prems file_or_none_remove by simp
  note IH = Cons.IH [OF this]
  have "file_or_none (nodes s) q \<Longrightarrow> file_or_none (nodes (snd (os_Remove p s))) q" by (rule file_or_none_remove)
  moreover have "has_dir (nodes s) q \<Longrightarrow> has_dir (nodes (snd (os_Remove p s))) q"
    by (rule has_dir_remove) (use Cons.prems in simp_all)
  ultimately show ?case using IH by simp
qed simp

text \<open>So every run, whatever fails, leaves a tree for the next one.\<close>

lemma Execute_ready:
  assumes "Execute pick its p cfg s = (res, s')" "steps_ok (pl_Steps p)" "ready (pl_Steps p) (nodes s)"
    "pick_ok pick" "harmless (pl_Reloader p)" "some_order (its 2)"
  shows "ready (pl_Steps p) (nodes s')"
  using assms(1)
proof (cases rule: Execute_phases)
  case (vlan e new)
  with assms(3) show ?thesis by (simp add: only_runs_def)
next
  case (steps new s1 m s2 s3)
  let ?sts = "pl_Steps p" and ?ks = "its 2 (keys_of m)"
  have r1: "ready ?sts (nodes s1)" using assms(3) steps(1) by (simp add: only_runs_def)
  note A = backup_all_spec [OF steps(3) ready_backups [OF r1]]
  have same: "map_of (nodes s2) q = map_of (nodes s1) q" if "q \<notin> backup_path ` paths_of ?sts" for q
    using A that by (simp add: same_but_def)
  have "ready ?sts (nodes s2)"
    unfolding ready_def
  proof (intro ballI conjI impI)
    fix x assume x: "x \<in> paths_of ?sts"
    have "above_any ?sts (path_dir x)" using x path_prefixes_self by (auto simp: above_any_def above_def)
    then have "path_dir x \<notin> backup_path ` paths_of ?sts" "x \<notin> backup_path ` paths_of ?sts"
      using assms(2) x by (auto simp: steps_ok_def)
    then show "is_dir (nodes s2) (path_dir x)" if "map_of (nodes s2) x \<noteq> None"
      using that same r1 x by (auto simp: ready_def is_dir_def)
  qed (use A r1 in \<open>simp_all add: ready_def\<close>)
  then have r3: "ready ?sts (nodes s3)" using run_steps_ready [OF steps(4) assms(4,5,2)] by simp
  have mk: "k \<in> paths_of ?sts \<and> map_of m k = Some (backup_path k)" if "k \<in> set ?ks" for k
    using A that assms(6) by (fastforce simp: set_keys_of)
  have bak: "\<forall>k \<in> set ?ks. file_or_none (nodes s3) k \<and> file_or_none (nodes s3) (backup_path k)"
    using mk r3 by (simp add: ready_def)
  define ps where "ps = map (\<lambda>k. the (map_of m k)) ?ks"
  have ps: "\<forall>p \<in> set ps. file_or_none (nodes s3) p" using mk bak by (auto simp: ps_def)
  have files: "(file_or_none (nodes s3) q \<longrightarrow> file_or_none (nodes s') q) \<and> (has_dir (nodes s3) q \<longrightarrow> has_dir (nodes s') q)" for q
    using steps(5) remove_all_files [OF ps] restore_loop_files [of ?ks m s3] mk bak
    by (auto simp: restoreBackups_def ps_def [symmetric] split: if_splits)
  have split: "ready ?sts t \<longleftrightarrow> (\<forall>p \<in> paths_of ?sts. file_or_none t p \<and> file_or_none t (backup_path p) \<and> has_dir t p)" for t
    by (simp add: ready_def has_dir_def)
  show ?thesis using r3 files unfolding split by blast
qed

lemma Execute_answer:
  assumes "Execute pick its p cfg s = (res, s')" "pl_Reloader p = Some systemd_Reload"
  shows "answer s' = answer s"
proof -
  have step: "answer y = answer x" if "run_step pick (Some systemd_Reload) cfg st x = (e, y)" for st x e y
    using that
    by (auto simp: run_step_def systemd_Reload_def applySysctl_def os_Exec_def dest!: atomicWrite_answer
        split: sum.splits option.splits prod.splits if_splits)
  have steps: "answer y = answer x" if "run_steps pick (Some systemd_Reload) cfg sts c x = (r, y)" for sts c x r y
    using that by (induction sts arbitrary: c x) (auto split: prod.splits option.splits dest!: step)
  have restore: "answer (restore_loop m ks x) = answer x" for m ks x
    by (induction ks arbitrary: x) (auto simp: Let_def split: prod.split sum.split dest: os_calls_answer(1))
  have remove: "answer (remove_all ps x) = answer x" for ps x by (induction ps arbitrary: x) simp_all
  show ?thesis
    using assms(1)
  proof (cases rule: Execute_phases)
    case (steps new s1 m s2 s3)
    then show ?thesis
      using assms(2) \<open>\<And>y x sts r c. run_steps pick (Some systemd_Reload) cfg sts c x = (r, y) \<Longrightarrow> answer y = answer x\<close> [of "pl_Steps p" "[]" s2 res s3]
        backup_all_answer [OF steps(3)] restore remove by (auto simp: only_runs_def restoreBackups_def)
  qed (simp add: only_runs_def)
qed

lemma Execute_writable:
  assumes "Execute pick its p cfg s = (res, s')" "rs_Err res = None" "steps_ok (pl_Steps p)" "ready (pl_Steps p) (nodes s)"
    "pick_ok pick" "harmless (pl_Reloader p)" "some_order (its 2)" "writable (pl_Steps p) (nodes s)"
  shows "writable (pl_Steps p) (nodes s')"
  using assms(1)
proof (cases rule: Execute_phases)
  case (steps new s1 m s2 s3)
  let ?sts = "pl_Steps p"
  have r1: "ready ?sts (nodes s1)" "nodes s1 = nodes s" using assms(4) steps(1) by (simp_all add: only_runs_def)
  note A = backup_all_spec [OF steps(3) ready_backups [OF r1(1)]]
  note R = run_steps_spec [OF steps(4) assms(5,6,3)]
  have not: "q \<notin> backup_path ` paths_of ?sts" if "x \<in> paths_of ?sts" "q \<in> set (path_prefixes (path_dir x))" for x q
    using assms(3) that by (auto simp: steps_ok_def above_any_def above_def)
  define ps where "ps = map (\<lambda>k. the (map_of m k)) (its 2 (keys_of m))"
  have s': "s' = remove_all ps s3" using steps(5) assms(2) by (simp add: ps_def)
  have sub: "set ps \<subseteq> backup_path ` paths_of ?sts" using A assms(7) by (fastforce simp: ps_def set_keys_of)
  have "writable ?sts (nodes s2)" using assms(8) A not r1(2) unfolding writable_def same_but_def by metis
  then have "writable ?sts (nodes s3)" using writable_between [OF _ assms(3)] R by blast
  then show ?thesis using remove_all_spec [of ps s3] not sub unfolding s' writable_def same_but_def by (metis subsetD)
qed (use assms(2) in simp)

end
