(* ===== verification/Revision.thy ===== *)
theory Revision
  imports GoOS
begin

text \<open>
  \<^verbatim>\<open>internal/revision/store.go\<close>: the store of configuration revisions. A revision is a
  directory with the configuration and its metadata; the link \<^verbatim>\<open>current\<close> names the last one saved.
  \<^verbatim>\<open>encoding/json\<close> on the metadata, SHA-256 and the unstable \<^verbatim>\<open>sort.Slice\<close> are
  parameters.
\<close>

section \<open>Times\<close>

text \<open>A \<^verbatim>\<open>time.Time\<close> in UTC, by its calendar fields.\<close>

datatype utc_time = UTC (Year: nat) (Month: nat) (Day: nat) (Hour: nat) (Minute: nat) (Second: nat) (Nsec: nat)

definition time_key :: "utc_time \<Rightarrow> nat list" where
  "time_key t = [Year t, Month t, Day t, Hour t, Minute t, Second t, Nsec t]"

lemma time_key_inject [simp]: "time_key a = time_key b \<longleftrightarrow> a = b"
  by (cases a; cases b) (simp add: time_key_def)

instantiation utc_time :: linorder
begin

definition less_eq_utc_time :: "utc_time \<Rightarrow> utc_time \<Rightarrow> bool" where
  "a \<le> b \<longleftrightarrow> time_key a \<le> time_key b"

definition less_utc_time :: "utc_time \<Rightarrow> utc_time \<Rightarrow> bool" where
  "a < b \<longleftrightarrow> time_key a < time_key b"

instance
proof
  fix x y z :: utc_time
  show "x < y \<longleftrightarrow> x \<le> y \<and> \<not> y \<le> x"
    unfolding less_eq_utc_time_def less_utc_time_def by (rule less_le_not_le)
  show "x \<le> y \<Longrightarrow> y \<le> x \<Longrightarrow> x = y"
    unfolding less_eq_utc_time_def by (metis order_antisym time_key_inject)
qed (auto simp: less_eq_utc_time_def)

end

text \<open>\<^verbatim>\<open>%04d\<close> and \<^verbatim>\<open>%02d\<close>.\<close>

definition zero_pad :: "nat \<Rightarrow> nat \<Rightarrow> string" where
  "zero_pad w n = replicate (w - length (nat_text n)) (CHR ''0'') @ nat_text n"

text \<open>\<^verbatim>\<open>Format("20060102T150405Z")\<close>.\<close>

definition time_id :: "utc_time \<Rightarrow> string" where
  "time_id t = zero_pad 4 (Year t) @ zero_pad 2 (Month t) @ zero_pad 2 (Day t) @ ''T'' @
     zero_pad 2 (Hour t) @ zero_pad 2 (Minute t) @ zero_pad 2 (Second t) @ ''Z''"

section \<open>Saving\<close>

definition DefaultStoreDir :: string where "DefaultStoreDir = ''/var/lib/warp/revisions''"
definition MetadataFile :: string where "MetadataFile = ''metadata.json''"
definition ConfigFile :: string where "ConfigFile = ''site.yaml''"

record metadata =
  md_ID :: string
  md_Timestamp :: utc_time
  md_SHA256 :: string
  md_Comment :: string

record store = st_Dir :: string

definition NewStore :: "string \<Rightarrow> store" where
  "NewStore dir = \<lparr>st_Dir = dir\<rparr>"

datatype save_error =
    CreatingStoreDir errno
  | CreatingRevisionDir errno
  | WritingConfig errno
  | MarshalingMetadata string
  | WritingMetadata errno
  | UpdatingCurrent errno

text \<open>The search for a free identifier: it ends only when \<^verbatim>\<open>os.Stat\<close> reports that the
  directory does not exist, so it need not end at all.\<close>

partial_function (option) id_loop :: "string \<Rightarrow> string \<Rightarrow> nat \<Rightarrow> string \<Rightarrow> os \<Rightarrow> (string \<times> os) option" where
  "id_loop dir baseID i rid s =
     (let r = os_Stat (path_join dir rid) s in
      if fst r = Inl ENOENT then Some (rid, snd r)
      else id_loop dir baseID (Suc i) (baseID @ ''-'' @ zero_pad 2 i) (snd r))"

text \<open>The rest of \<^verbatim>\<open>Save\<close>, once the identifier is found.\<close>

definition write_revision ::
  "(metadata \<Rightarrow> string + bytes) \<Rightarrow> string \<Rightarrow> metadata \<Rightarrow> bytes \<Rightarrow> os \<Rightarrow> (save_error + string) \<times> os" where
  "write_revision encode dir meta content s =
     (let revDir = path_join dir (md_ID meta); currentLink = path_join dir ''current'' in
      case os_MkdirAll revDir s of (Some e, s1) \<Rightarrow> (Inl (CreatingRevisionDir e), s1)
      | (None, s1) \<Rightarrow>
     (case os_WriteFile (path_join revDir ConfigFile) content s1 of (Some e, s2) \<Rightarrow> (Inl (WritingConfig e), s2)
      | (None, s2) \<Rightarrow>
     (case encode meta of Inl e \<Rightarrow> (Inl (MarshalingMetadata e), s2)
      | Inr metaData \<Rightarrow>
     (case os_WriteFile (path_join revDir MetadataFile) metaData s2 of (Some e, s3) \<Rightarrow> (Inl (WritingMetadata e), s3)
      | (None, s3) \<Rightarrow>
     (case os_Symlink (md_ID meta) currentLink (snd (os_Remove currentLink s3)) of
        (Some e, s4) \<Rightarrow> (Inl (UpdatingCurrent e), s4)
      | (None, s4) \<Rightarrow> (Inr (md_ID meta), s4))))))"

text \<open>\<^const>\<open>None\<close> when the search for an identifier does not end.\<close>

definition Save ::
  "(metadata \<Rightarrow> string + bytes) \<Rightarrow> (bytes \<Rightarrow> string) \<Rightarrow> utc_time \<Rightarrow> store \<Rightarrow> bytes \<Rightarrow> string \<Rightarrow> os \<Rightarrow>
     ((save_error + string) \<times> os) option" where
  "Save encode digest now st content comment s =
     (case os_MkdirAll (st_Dir st) s of
        (Some e, s1) \<Rightarrow> Some (Inl (CreatingStoreDir e), s1)
      | (None, s1) \<Rightarrow>
          (case id_loop (st_Dir st) (time_id now) 1 (time_id now) s1 of
             None \<Rightarrow> None
           | Some (rid, s2) \<Rightarrow>
               Some (write_revision encode (st_Dir st)
                 \<lparr>md_ID = rid, md_Timestamp = now, md_SHA256 = digest content, md_Comment = comment\<rparr> content s2)))"

section \<open>Reading\<close>

fun list_loop :: "(bytes \<Rightarrow> string + metadata) \<Rightarrow> string \<Rightarrow> (string \<times> bool) list \<Rightarrow> os \<Rightarrow> metadata list \<times> os" where
  "list_loop decode dir [] s = ([], s)"
| "list_loop decode dir ((name, isDir) # entries) s =
     (if \<not> isDir then list_loop decode dir entries s
      else case os_ReadFile (path_join (path_join dir name) MetadataFile) s of
          (Inl _, s1) \<Rightarrow> list_loop decode dir entries s1
        | (Inr data, s1) \<Rightarrow>
            (case decode data of
               Inl _ \<Rightarrow> list_loop decode dir entries s1
             | Inr meta \<Rightarrow> (case list_loop decode dir entries s1 of (ms, s2) \<Rightarrow> (meta # ms, s2))))"

text \<open>\<open>sorter\<close> is \<^verbatim>\<open>sort.Slice\<close> with the comparison it is given, which may order equal
  elements in any way.\<close>

type_synonym slice_sort = "(metadata \<Rightarrow> metadata \<Rightarrow> bool) \<Rightarrow> metadata list \<Rightarrow> metadata list"

definition newer :: "metadata \<Rightarrow> metadata \<Rightarrow> bool" where
  "newer a b \<longleftrightarrow> md_Timestamp b < md_Timestamp a"

definition List_revisions ::
  "(bytes \<Rightarrow> string + metadata) \<Rightarrow> slice_sort \<Rightarrow> store \<Rightarrow> os \<Rightarrow> (errno + metadata list) \<times> os" where
  "List_revisions decode sorter st s =
     (case os_ReadDir (st_Dir st) s of
        (Inl e, s1) \<Rightarrow> (if e = ENOENT then Inr [] else Inl e, s1)
      | (Inr entries, s1) \<Rightarrow>
          (case list_loop decode (st_Dir st) entries s1 of (ms, s2) \<Rightarrow> (Inr (sorter newer ms), s2)))"

text \<open>The pattern \<^verbatim>\<open>^[0-9]{8}T[0-9]{6}Z(-[0-9]{2})?$\<close>.\<close>

definition valid_revision_id :: "string \<Rightarrow> bool" where
  "valid_revision_id rid \<longleftrightarrow> 16 \<le> length rid \<and>
     list_all is_digit (take 8 rid) \<and> rid ! 8 = CHR ''T'' \<and>
     list_all is_digit (take 6 (drop 9 rid)) \<and> rid ! 15 = CHR ''Z'' \<and>
     (let rest = drop 16 rid in rest = [] \<or> length rest = 3 \<and> hd rest = CHR ''-'' \<and> list_all is_digit (tl rest))"

datatype get_error =
    InvalidRevisionID string
  | RevisionNotFound string
  | ReadingMetadata errno
  | ParsingMetadata string
  | ReadingConfig errno

definition Get :: "(bytes \<Rightarrow> string + metadata) \<Rightarrow> store \<Rightarrow> string \<Rightarrow> os \<Rightarrow> (get_error + (bytes \<times> metadata)) \<times> os" where
  "Get decode st rid s =
     (if \<not> valid_revision_id rid then (Inl (InvalidRevisionID rid), s)
      else let revDir = path_join (st_Dir st) rid in
     (case os_Stat revDir s of (Inl _, s1) \<Rightarrow> (Inl (RevisionNotFound rid), s1)
      | (Inr _, s1) \<Rightarrow>
     (case os_ReadFile (path_join revDir MetadataFile) s1 of (Inl e, s2) \<Rightarrow> (Inl (ReadingMetadata e), s2)
      | (Inr metaData, s2) \<Rightarrow>
     (case decode metaData of Inl e \<Rightarrow> (Inl (ParsingMetadata e), s2)
      | Inr meta \<Rightarrow>
     (case os_ReadFile (path_join revDir ConfigFile) s2 of (Inl e, s3) \<Rightarrow> (Inl (ReadingConfig e), s3)
      | (Inr content, s3) \<Rightarrow> (Inr (content, meta), s3))))))"

definition Current :: "store \<Rightarrow> os \<Rightarrow> string \<times> os" where
  "Current st s =
     (case os_Readlink (path_join (st_Dir st) ''current'') s of
        (Inl _, s1) \<Rightarrow> ([], s1) | (Inr target, s1) \<Rightarrow> (target, s1))"

fun previous_loop :: "string \<Rightarrow> metadata list \<Rightarrow> string" where
  "previous_loop current [] = []"
| "previous_loop current [r] = []"
| "previous_loop current (r # older # revs) =
     (if md_ID r = current then md_ID older else previous_loop current (older # revs))"

definition Previous :: "(bytes \<Rightarrow> string + metadata) \<Rightarrow> slice_sort \<Rightarrow> store \<Rightarrow> os \<Rightarrow> string \<times> os" where
  "Previous decode sorter st s =
     (case List_revisions decode sorter st s of
        (Inl _, s1) \<Rightarrow> ([], s1)
      | (Inr revisions, s1) \<Rightarrow>
          if length revisions < 2 then ([], s1)
          else (case Current st s1 of (current, s2) \<Rightarrow> (previous_loop current revisions, s2)))"

section \<open>The search for an identifier\<close>

text \<open>The candidates in order: the time, then with the suffixes -01, -02 and so on.\<close>

definition id_at :: "string \<Rightarrow> nat \<Rightarrow> string" where
  "id_at baseID i = (if i = 0 then baseID else baseID @ ''-'' @ zero_pad 2 i)"

lemma read_digits_zero_pad: "read_digits (zero_pad w n) = n"
proof -
  have "foldl (\<lambda>n c. n * 10 + digit_val c) 0 (replicate k (CHR ''0'')) = 0" for k
    by (induction k) (simp_all add: digit_val_def)
  then show ?thesis
    using read_digits_nat_text [of n] by (simp add: zero_pad_def read_digits_def)
qed

lemma zero_pad_nonempty: "zero_pad w n \<noteq> []"
  by (simp add: zero_pad_def)

lemma id_at_inject [simp]: "id_at b i = id_at b j \<longleftrightarrow> i = j"
proof
  assume eq: "id_at b i = id_at b j"
  show "i = j"
  proof (cases "i = 0 \<or> j = 0")
    case True
    with eq show ?thesis by (auto simp: id_at_def split: if_splits)
  next
    case False
    with eq have "zero_pad 2 i = zero_pad 2 j" by (simp add: id_at_def)
    then show ?thesis by (metis read_digits_zero_pad)
  qed
qed simp

definition free_id :: "tree \<Rightarrow> string \<Rightarrow> string \<Rightarrow> nat \<Rightarrow> bool" where
  "free_id t dir baseID i \<longleftrightarrow> map_of t (resolve t (path_join dir (id_at baseID i))) = None"

lemma os_Stat_call: "snd (os_Stat p s) = end_call (nodes s) s"
  by (simp add: os_Stat_def Let_def split: option.splits)

lemma os_Stat_missing:
  "fst (os_Stat p s) = Inl ENOENT \<longleftrightarrow> faults s (tick s) = None \<and> map_of (nodes s) (resolve (nodes s) p) = None"
  by (auto simp: os_Stat_def Let_def call_fate_def split: option.splits)

lemma id_loop_step:
  "id_loop dir b (Suc i) (id_at b i) s =
     (if faults s (tick s) = None \<and> free_id (nodes s) dir b i then Some (id_at b i, end_call (nodes s) s)
      else id_loop dir b (Suc (Suc i)) (id_at b (Suc i)) (end_call (nodes s) s))"
  by (subst id_loop.simps) (simp add: Let_def os_Stat_missing os_Stat_call free_id_def id_at_def)

lemma end_call_tick [simp]: "tick (end_call t s) = Suc (tick s)" "seen (end_call t s) = t # seen s"
  by (simp_all add: end_call_def)

text \<open>The search stops at the first candidate that is free when its turn comes and whose call does not
  fail.\<close>

lemma id_loop_Some:
  assumes "faults s (tick s + k) = None" "free_id (nodes s) dir b (i + k)"
  shows "\<exists>j \<le> k. \<exists>s'. id_loop dir b (Suc i) (id_at b i) s = Some (id_at b (i + j), s') \<and>
    nodes s' = nodes s \<and> faults s' = faults s \<and> tick s' = tick s + Suc j \<and> cmds s' = cmds s \<and>
    answer s' = answer s \<and> free_id (nodes s) dir b (i + j) \<and>
    (\<forall>l < j. faults s (tick s + l) = None \<longrightarrow> \<not> free_id (nodes s) dir b (i + l))"
  using assms
proof (induction k arbitrary: i s)
  case 0
  then show ?case by (subst id_loop_step) simp
next
  case (Suc k)
  show ?case
  proof (cases "faults s (tick s) = None \<and> free_id (nodes s) dir b i")
    case True
    then show ?thesis by (subst id_loop_step) (intro exI [of _ 0], simp)
  next
    case False
    let ?s = "end_call (nodes s) s"
    have "faults ?s (tick ?s + k) = None" "free_id (nodes ?s) dir b (Suc i + k)" using Suc.prems by simp_all
    from Suc.IH [OF this] obtain j s' where j: "j \<le> k"
      "id_loop dir b (Suc (Suc i)) (id_at b (Suc i)) ?s = Some (id_at b (Suc i + j), s')"
      "nodes s' = nodes s \<and> faults s' = faults s \<and> tick s' = tick ?s + Suc j \<and> cmds s' = cmds s \<and> answer s' = answer s"
      "free_id (nodes s) dir b (Suc i + j)"
      "\<forall>l < j. faults s (tick ?s + l) = None \<longrightarrow> \<not> free_id (nodes s) dir b (Suc i + l)" by auto
    have "\<forall>l < Suc j. faults s (tick s + l) = None \<longrightarrow> \<not> free_id (nodes s) dir b (i + l)"
    proof (intro allI impI)
      fix l assume "l < Suc j" "faults s (tick s + l) = None"
      then show "\<not> free_id (nodes s) dir b (i + l)" using j(5) False by (cases l) auto
    qed
    with j False show ?thesis
      by (subst id_loop_step) (intro exI [of _ "Suc j"], auto)
  qed
qed

text \<open>And only there.\<close>

lemma id_loop_SomeD:
  assumes "id_loop dir b n rid s = Some r"
  shows "n = Suc i \<longrightarrow> rid = id_at b i \<longrightarrow>
    (\<exists>k. faults s (tick s + k) = None \<and> free_id (nodes s) dir b (i + k))"
proof (rule id_loop.raw_induct [where P = "\<lambda>dir b n rid s _. \<forall>i. n = Suc i \<longrightarrow> rid = id_at b i \<longrightarrow>
    (\<exists>k. faults s (tick s + k) = None \<and> free_id (nodes s) dir b (i + k))", OF _ assms, THEN spec])
  fix f dir b n rid s r
  assume IH: "\<And>dir b n rid s r. f dir b n rid s = Some r \<Longrightarrow> \<forall>i. n = Suc i \<longrightarrow> rid = id_at b i \<longrightarrow>
      (\<exists>k. faults s (tick s + k) = None \<and> free_id (nodes s) dir b (i + k))"
    and ret: "(let r = os_Stat (path_join dir rid) s in
      if fst r = Inl ENOENT then Some (rid, snd r)
      else f dir b (Suc n) (b @ ''-'' @ zero_pad 2 n) (snd r)) = Some r"
  show "\<forall>i. n = Suc i \<longrightarrow> rid = id_at b i \<longrightarrow>
      (\<exists>k. faults s (tick s + k) = None \<and> free_id (nodes s) dir b (i + k))"
  proof (intro allI impI)
    fix i assume i: "n = Suc i" "rid = id_at b i"
    show "\<exists>k. faults s (tick s + k) = None \<and> free_id (nodes s) dir b (i + k)"
    proof (cases "fst (os_Stat (path_join dir rid) s) = Inl ENOENT")
      case True
      then show ?thesis using i by (intro exI [of _ 0]) (simp add: os_Stat_missing free_id_def)
    next
      case False
      with ret i have "f dir b (Suc (Suc i)) (id_at b (Suc i)) (end_call (nodes s) s) = Some r"
        by (simp add: Let_def os_Stat_call id_at_def)
      from IH [OF this, rule_format, of "Suc i"] obtain k where
        "faults s (Suc (tick s) + k) = None" "free_id (nodes s) dir b (Suc i + k)" by auto
      then show ?thesis by (intro exI [of _ "Suc k"]) simp
    qed
  qed
qed

text \<open>A tree has finitely many names, so a free candidate always comes.\<close>

lemma free_id_eventually: "\<exists>i \<ge> n. free_id t dir b i"
proof -
  have "inj (\<lambda>i. path_join dir (id_at b i))" by (auto simp: inj_def path_join_def)
  then have "infinite ((\<lambda>i. path_join dir (id_at b i)) ` {n..})"
    by (meson finite_imageD infinite_Ici inj_on_subset subset_UNIV)
  then obtain i where "i \<ge> n" "path_join dir (id_at b i) \<notin> set (keys_of t)"
    by (metis (no_types, lifting) List.finite_set finite_subset image_subsetI atLeast_iff)
  then have "map_of t (path_join dir (id_at b i)) = None" by (simp add: set_keys_of domIff)
  with \<open>i \<ge> n\<close> show ?thesis by (auto simp: free_id_def resolve_def)
qed

section \<open>The store\<close>

definition revision_path :: "string \<Rightarrow> string \<Rightarrow> string \<Rightarrow> string" where
  "revision_path dir rid f = path_join (path_join dir rid) f"

text \<open>A store as \<^const>\<open>Save\<close> leaves it. An identifier starts with a digit; a revision is no link, and a
  missing one has no files; \<^verbatim>\<open>current\<close> is no directory.\<close>

definition entry_name :: "string \<Rightarrow> bool" where
  "entry_name n \<longleftrightarrow> CHR ''/'' \<notin> set n \<and> n \<noteq> [] \<and> is_digit (hd n)"

definition store_tree :: "tree \<Rightarrow> string \<Rightarrow> bool" where
  "store_tree t dir \<longleftrightarrow> dir \<noteq> [] \<and> (\<forall>q \<in> set (path_prefixes dir). is_dir t q) \<and> \<not> is_dir t (path_join dir ''current'') \<and>
     (\<forall>n. entry_name n \<longrightarrow> (\<forall>g. map_of t (path_join dir n) \<noteq> Some (Symlink g)) \<and>
        (map_of t (path_join dir n) = None \<longrightarrow> map_of t (revision_path dir n ConfigFile) = None \<and>
           map_of t (revision_path dir n MetadataFile) = None))"

lemma store_tree_dir: "store_tree t dir \<Longrightarrow> is_dir t dir \<and> dir \<noteq> []"
  using path_prefixes_self [of dir] by (auto simp: store_tree_def)

lemma entry_name_not_current: "entry_name n \<Longrightarrow> n \<noteq> ''current''"
  by (auto simp: entry_name_def is_digit_def)

lemma store_names [simp]:
  "CHR ''/'' \<notin> set ConfigFile" "CHR ''/'' \<notin> set MetadataFile" "CHR ''/'' \<notin> set ''current''"
  "ConfigFile \<noteq> MetadataFile"
  by (simp_all add: ConfigFile_def MetadataFile_def)

lemma zero_pad_chars: "c \<in> set (zero_pad w n) \<Longrightarrow> is_digit c"
  using nat_text_digits by (auto simp: zero_pad_def is_digit_def)

lemma no_slash: "is_digit c \<Longrightarrow> c \<noteq> CHR ''/''"
  by (auto simp: is_digit_def)

lemma time_id_no_slash [simp]: "CHR ''/'' \<notin> set (time_id t)"
  using zero_pad_chars no_slash by (fastforce simp: time_id_def)

lemma id_at_no_slash [simp]: "CHR ''/'' \<notin> set (id_at (time_id t) i)"
  using zero_pad_chars [of "CHR ''/''" 2 i] by (auto simp: id_at_def is_digit_def)

lemma entry_name_id_at [simp]: "entry_name (id_at (time_id t) i)"
proof -
  have "hd (id_at (time_id t) i) \<in> set (zero_pad 4 (Year t))" "id_at (time_id t) i \<noteq> []"
    using zero_pad_nonempty [of 4 "Year t"] by (auto simp: id_at_def time_id_def)
  with zero_pad_chars show ?thesis by (simp add: entry_name_def)
qed

lemma id_at_not_current [simp]: "id_at (time_id t) i \<noteq> ''current''"
  using entry_name_id_at entry_name_not_current by blast

text \<open>What a successful save without failing calls leaves.\<close>

lemma write_revision_ok:
  assumes "faults s = (\<lambda>_. None)" "store_tree (nodes s) dir" "entry_name (md_ID meta)"
    "map_of (nodes s) (path_join dir (md_ID meta)) = None" "encode meta = Inr data"
  shows "\<exists>s'. write_revision encode dir meta content s = (Inr (md_ID meta), s') \<and> faults s' = (\<lambda>_. None) \<and>
    map_of (nodes s') = (map_of (nodes s))(path_join dir (md_ID meta) \<mapsto> Dir,
      revision_path dir (md_ID meta) ConfigFile \<mapsto> File content,
      revision_path dir (md_ID meta) MetadataFile \<mapsto> File data,
      path_join dir ''current'' \<mapsto> Symlink (md_ID meta))"
proof -
  let ?t = "nodes s" and ?r = "path_join dir (md_ID meta)" and ?l = "path_join dir ''current''"
  let ?c = "path_join ?r ConfigFile" and ?m = "path_join ?r MetadataFile"
  have dir: "dir \<noteq> []" "is_dir ?t dir" "\<not> is_dir ?t ?l" and pre: "\<And>q. q \<in> set (path_prefixes dir) \<Longrightarrow> is_dir ?t q"
    using assms(2) path_prefixes_self [of dir] by (auto simp: store_tree_def)
  have rid: "CHR ''/'' \<notin> set (md_ID meta)" "md_ID meta \<noteq> ''current''"
    using assms(3) entry_name_not_current by (auto simp: entry_name_def)
  have none: "map_of ?t ?c = None" "map_of ?t ?m = None"
    using assms(2,3,4) by (auto simp: store_tree_def revision_path_def)
  have ne: "?r \<noteq> ?c" "?r \<noteq> ?m" "?r \<noteq> ?l" "?c \<noteq> ?m" "?l \<noteq> ?c" "?l \<noteq> ?m" "dir \<noteq> ?r" "dir \<noteq> ?c" "dir \<noteq> ?m" "dir \<noteq> ?l"
    using rid path_join_inject [of "md_ID meta" "''current''" dir dir] path_join_inject [of ConfigFile MetadataFile ?r ?r]
      path_join_inject [of "''current''" ConfigFile dir ?r] path_join_inject [of "''current''" MetadataFile dir ?r] dir(1)
    by (auto simp: path_join_def ConfigFile_def MetadataFile_def)
  define s1 where "s1 = snd (os_MkdirAll ?r s)"
  have mk: "os_MkdirAll ?r s = (None, s1)" and n1: "map_of (nodes s1) = (map_of ?t)(?r \<mapsto> Dir)"
    and f1: "faults s1 = (\<lambda>_. None)"
  proof -
    have p: "path_prefixes ?r = path_prefixes dir @ [?r]" using path_prefixes_join dir(1) rid(1) by blast
    have "resolve ?t ?r = ?r" using assms(4) by (simp add: resolve_def)
    then have "os_MkdirAll ?r s =
        (None, end_call (fold (\<lambda>q t. AList.update q Dir t) (path_prefixes ?r) ?t) s)"
      using assms(1,4) pre by (auto simp: os_MkdirAll_def call_fate_def p is_dir_def)
    moreover have "map_of (fold (\<lambda>q t. AList.update q Dir t) (path_prefixes ?r) ?t) = (map_of ?t)(?r \<mapsto> Dir)"
      using pre by (auto simp: fun_eq_iff fold_update_Dir p is_dir_def)
    ultimately show "os_MkdirAll ?r s = (None, s1)" "map_of (nodes s1) = (map_of ?t)(?r \<mapsto> Dir)"
      "faults s1 = (\<lambda>_. None)" using assms(1) by (simp_all add: s1_def)
  qed
  have pd: "path_dir ?c = ?r" "path_dir ?m = ?r" "path_dir ?l = dir"
    using path_join_dir dir(1) by simp_all
  define s2 where "s2 = end_call (AList.update ?c (File content) (nodes s1)) s1"
  have w2: "os_WriteFile ?c content s1 = (None, s2)" unfolding s2_def
    by (rule os_WriteFile_ok) (use f1 n1 none ne pd in \<open>simp_all add: call_fate_def resolve_def is_dir_def\<close>)
  define s3 where "s3 = end_call (AList.update ?m (File data) (nodes s2)) s2"
  have w3: "os_WriteFile ?m data s2 = (None, s3)" unfolding s3_def
    by (rule os_WriteFile_ok) (use f1 n1 none ne pd in \<open>simp_all add: call_fate_def resolve_def is_dir_def s2_def\<close>)
  define s4 where "s4 = snd (os_Remove ?l s3)"
  have n3: "map_of (nodes s3) = (map_of ?t)(?r \<mapsto> Dir, ?c \<mapsto> File content, ?m \<mapsto> File data)"
    by (simp add: s3_def s2_def n1)
  have f3: "faults s3 = (\<lambda>_. None)" by (simp add: s3_def s2_def f1)
  have n4: "map_of (nodes s4) = (map_of (nodes s3))(?l := None)" and f4: "faults s4 = (\<lambda>_. None)"
    using f3 dir(3) n3 ne unfolding s4_def
    by (auto simp: os_Remove_def call_fate_def is_dir_def split: option.splits node.splits)
  define s5 where "s5 = end_call (AList.update ?l (Symlink (md_ID meta)) (nodes s4)) s4"
  have "os_Symlink (md_ID meta) ?l s4 = (None, s5)"
    using f4 n4 n3 dir(2) ne pd(3) by (simp add: os_Symlink_def call_fate_def s5_def is_dir_def)
  then have "write_revision encode dir meta content s = (Inr (md_ID meta), s5)"
    using mk w2 w3 assms(5) by (simp add: write_revision_def Let_def s4_def)
  moreover have "map_of (nodes s5) = (map_of ?t)(?r \<mapsto> Dir, ?c \<mapsto> File content, ?m \<mapsto> File data, ?l \<mapsto> Symlink (md_ID meta))"
    by (simp add: s5_def n4 n3)
  ultimately show ?thesis using f4 by (intro exI [of _ s5]) (simp add: revision_path_def s5_def)
qed

lemma store_tree_save:
  assumes "store_tree t dir" "entry_name rid" "map_of t (path_join dir rid) = None"
    "map_of t' = (map_of t)(path_join dir rid \<mapsto> Dir, revision_path dir rid ConfigFile \<mapsto> File content,
      revision_path dir rid MetadataFile \<mapsto> File data, path_join dir ''current'' \<mapsto> Symlink rid)"
  shows "store_tree t' dir" "map_of t q \<noteq> None \<Longrightarrow> q \<noteq> path_join dir ''current'' \<Longrightarrow> map_of t' q = map_of t q"
proof -
  let ?r = "path_join dir rid" and ?l = "path_join dir ''current''"
  have dir: "dir \<noteq> []" "\<not> is_dir t ?l" and pre: "\<And>q. q \<in> set (path_prefixes dir) \<Longrightarrow> is_dir t q"
    using assms(1) by (auto simp: store_tree_def)
  have none: "map_of t (revision_path dir rid ConfigFile) = None" "map_of t (revision_path dir rid MetadataFile) = None"
    using assms(1,2,3) by (auto simp: store_tree_def)
  show old: "map_of t' q = map_of t q" if "map_of t q \<noteq> None" "q \<noteq> ?l" for q
    using that assms(3) none by (auto simp: assms(4))
  have rid: "CHR ''/'' \<notin> set rid" "rid \<noteq> ''current''"
    using assms(2) entry_name_not_current by (auto simp: entry_name_def)
  have dirs: "is_dir t' q" if "is_dir t q" for q
    using old [of q] that dir(2) by (auto simp: is_dir_def)
  have entry: "(\<forall>g. map_of t' (path_join dir n) \<noteq> Some (Symlink g)) \<and>
      (map_of t' (path_join dir n) = None \<longrightarrow> map_of t' (revision_path dir n ConfigFile) = None \<and>
         map_of t' (revision_path dir n MetadataFile) = None)" if n: "entry_name n" for n
  proof (cases "n = rid")
    case True
    have "?r \<noteq> ?l" "?r \<noteq> revision_path dir rid f" for f
      using path_join_inject [of rid "''current''" dir dir] rid dir(1) by (simp_all add: revision_path_def)
    with True show ?thesis by (simp add: assms(4))
  next
    case False
    have n': "CHR ''/'' \<notin> set n" "n \<noteq> ''current''" using n entry_name_not_current by (auto simp: entry_name_def)
    have r: "path_join dir n \<noteq> ?l" "path_join dir n \<noteq> ?r"
      using path_join_inject [of n "''current''" dir dir] path_join_inject [of n rid dir dir] n' rid dir(1) False by auto
    have c: "path_join dir n \<noteq> revision_path dir rid f" "revision_path dir n f \<noteq> ?l" "revision_path dir n f \<noteq> ?r"
      if "CHR ''/'' \<notin> set f" for f
      using path_join_inject [of n f dir ?r] path_join_inject [of f "''current''" "path_join dir n" dir]
        path_join_inject [of f rid "path_join dir n" dir] n' rid dir(1) that by (auto simp: revision_path_def)
    have d: "revision_path dir n f \<noteq> revision_path dir rid g" if "CHR ''/'' \<notin> set f" "CHR ''/'' \<notin> set g" for f g
      using path_join_inject [of f g "path_join dir n" ?r] r(2) that by (auto simp: revision_path_def)
    have "map_of t' (path_join dir n) = map_of t (path_join dir n)"
      "map_of t' (revision_path dir n ConfigFile) = map_of t (revision_path dir n ConfigFile)"
      "map_of t' (revision_path dir n MetadataFile) = map_of t (revision_path dir n MetadataFile)"
      using r c d by (simp_all add: assms(4))
    with assms(1) n show ?thesis by (simp add: store_tree_def)
  qed
  have "\<not> is_dir t' ?l" by (simp add: assms(4) is_dir_def)
  with dir(1) pre dirs entry show "store_tree t' dir" unfolding store_tree_def by blast
qed

lemma Save_ok:
  assumes "faults s = (\<lambda>_. None)" "store_tree (nodes s) (st_Dir st)"
    "\<And>m. md_Timestamp m = now \<Longrightarrow> md_SHA256 m = digest content \<Longrightarrow> md_Comment m = comment \<Longrightarrow>
       \<exists>d. encode m = Inr d"
  shows "\<exists>n s' data. let rid = id_at (time_id now) n;
      meta = \<lparr>md_ID = rid, md_Timestamp = now, md_SHA256 = digest content, md_Comment = comment\<rparr> in
    Save encode digest now st content comment s = Some (Inr rid, s') \<and> faults s' = (\<lambda>_. None) \<and>
    map_of (nodes s) (path_join (st_Dir st) rid) = None \<and>
    (\<forall>l < n. map_of (nodes s) (path_join (st_Dir st) (id_at (time_id now) l)) \<noteq> None) \<and> encode meta = Inr data \<and>
    map_of (nodes s') = (map_of (nodes s))(path_join (st_Dir st) rid \<mapsto> Dir,
      revision_path (st_Dir st) rid ConfigFile \<mapsto> File content,
      revision_path (st_Dir st) rid MetadataFile \<mapsto> File data, path_join (st_Dir st) ''current'' \<mapsto> Symlink rid)"
proof -
  let ?dir = "st_Dir st" and ?b = "time_id now"
  have dir: "is_dir (nodes s) ?dir" using store_tree_dir [OF assms(2)] by blast
  then have "resolve (nodes s) ?dir = ?dir" by (simp add: resolve_def is_dir_def)
  with dir assms(1) have mk: "os_MkdirAll ?dir s = (None, end_call (nodes s) s)"
    by (simp add: os_MkdirAll_def call_fate_def)
  let ?s1 = "end_call (nodes s) s"
  obtain k where k: "free_id (nodes s) ?dir ?b k" using free_id_eventually by blast
  obtain n s2 where loop: "id_loop ?dir ?b 1 ?b ?s1 = Some (id_at ?b n, s2)"
    "nodes s2 = nodes s" "faults s2 = (\<lambda>_. None)" "free_id (nodes s) ?dir ?b n"
    "\<forall>l < n. \<not> free_id (nodes s) ?dir ?b l"
    using id_loop_Some [of ?s1 k ?dir ?b 0] k assms(1) by (auto simp: id_at_def)
  have res: "resolve (nodes s) (path_join ?dir (id_at ?b l)) = path_join ?dir (id_at ?b l)" for l
  proof -
    have "map_of (nodes s) (path_join ?dir (id_at ?b l)) \<noteq> Some (Symlink g)" for g
      using assms(2) by (simp add: store_tree_def)
    then show ?thesis by (auto simp: resolve_def split: option.splits node.splits)
  qed
  let ?meta = "\<lparr>md_ID = id_at ?b n, md_Timestamp = now, md_SHA256 = digest content, md_Comment = comment\<rparr>"
  obtain data where data: "encode ?meta = Inr data" using assms(3) [of ?meta] by auto
  have "\<exists>s'. write_revision encode ?dir ?meta content s2 = (Inr (md_ID ?meta), s') \<and> faults s' = (\<lambda>_. None) \<and>
    map_of (nodes s') = (map_of (nodes s2))(path_join ?dir (md_ID ?meta) \<mapsto> Dir,
      revision_path ?dir (md_ID ?meta) ConfigFile \<mapsto> File content,
      revision_path ?dir (md_ID ?meta) MetadataFile \<mapsto> File data, path_join ?dir ''current'' \<mapsto> Symlink (md_ID ?meta))"
    by (rule write_revision_ok) (use loop assms(2) res data in \<open>auto simp: free_id_def\<close>)
  then obtain s' where s': "write_revision encode ?dir ?meta content s2 = (Inr (id_at ?b n), s')" "faults s' = (\<lambda>_. None)"
    "map_of (nodes s') = (map_of (nodes s))(path_join ?dir (id_at ?b n) \<mapsto> Dir,
      revision_path ?dir (id_at ?b n) ConfigFile \<mapsto> File content,
      revision_path ?dir (id_at ?b n) MetadataFile \<mapsto> File data, path_join ?dir ''current'' \<mapsto> Symlink (id_at ?b n))"
    using loop(2) by auto
  have "Save encode digest now st content comment s = Some (Inr (id_at ?b n), s')"
    using mk loop(1) s'(1) by (simp add: Save_def)
  with s' loop res data show ?thesis
    by (intro exI [of _ n] exI [of _ s'] exI [of _ data]) (simp add: Let_def free_id_def)
qed

section \<open>Identifiers\<close>

lemma nat_text_length: "length (nat_text n) \<le> k \<longleftrightarrow> (k \<noteq> 0 \<and> n < 10 ^ k)"
proof (induction n arbitrary: k rule: nat_text.induct)
  case (1 n)
  show ?case
  proof (cases "n < 10")
    case True
    then have "n < 10 ^ k" if "k \<noteq> 0"
      using that power_increasing [of 1 k "10::nat"] by simp
    with True show ?thesis by (auto simp: nat_text_less_ten Suc_le_eq)
  next
    case False
    show ?thesis
    proof (cases k)
      case (Suc j)
      have "n div 10 < 10 ^ j \<longleftrightarrow> n < 10 ^ Suc j" by (simp add: div_less_iff_less_mult mult.commute)
      moreover have "n < 10 ^ Suc j \<Longrightarrow> j \<noteq> 0" using False by (cases j) auto
      ultimately show ?thesis using False 1 Suc by (auto simp: nat_text_step)
    qed (use False in \<open>simp add: nat_text_step\<close>)
  qed
qed

lemma zero_pad_length: "w \<noteq> 0 \<Longrightarrow> length (zero_pad w n) = w \<longleftrightarrow> n < 10 ^ w"
  using nat_text_length [of n w] by (auto simp: zero_pad_def)

lemma zero_pad_digits: "list_all is_digit (zero_pad w n)"
  using zero_pad_chars by (auto simp: list_all_iff)

definition calendar_ok :: "utc_time \<Rightarrow> bool" where
  "calendar_ok t \<longleftrightarrow> Year t < 10000 \<and> Month t < 100 \<and> Day t < 100 \<and> Hour t < 100 \<and> Minute t < 100 \<and> Second t < 100"

lemma valid_revision_id_parts:
  assumes "length d = 8" "list_all is_digit d" "length h = 6" "list_all is_digit h"
  shows "valid_revision_id (d @ ''T'' @ h @ ''Z'' @ rest) \<longleftrightarrow>
    rest = [] \<or> length rest = 3 \<and> hd rest = CHR ''-'' \<and> list_all is_digit (tl rest)"
proof -
  have "(d @ CHR ''T'' # h @ CHR ''Z'' # rest) ! 8 = CHR ''T''" using nth_append_length [of d] assms(1) by simp
  moreover have "(d @ CHR ''T'' # h @ CHR ''Z'' # rest) ! 15 = CHR ''Z''"
    using nth_append_length [of "d @ CHR ''T'' # h" "CHR ''Z''" rest] assms(1,3) by simp
  ultimately show ?thesis using assms by (simp add: valid_revision_id_def Let_def)
qed

lemma valid_id_at:
  assumes "calendar_ok t"
  shows "valid_revision_id (id_at (time_id t) n) \<longleftrightarrow> n < 100"
proof -
  let ?d = "zero_pad 4 (Year t) @ zero_pad 2 (Month t) @ zero_pad 2 (Day t)"
  let ?h = "zero_pad 2 (Hour t) @ zero_pad 2 (Minute t) @ zero_pad 2 (Second t)"
  let ?rest = "if n = 0 then [] else ''-'' @ zero_pad 2 n"
  have len: "length (zero_pad 4 (Year t)) = 4" "length (zero_pad 2 k) = 2 \<longleftrightarrow> k < 100" for k
    using assms zero_pad_length [of 4 "Year t"] zero_pad_length [of 2 k] by (simp_all add: calendar_ok_def)
  have two: "length (zero_pad 2 k) = 2" if "k < 100" for k using len(2) that by simp
  have l: "length ?d = 8" "length ?h = 6" using assms by (simp_all add: calendar_ok_def len(1) two)
  have e: "id_at (time_id t) n = ?d @ ''T'' @ ?h @ ''Z'' @ ?rest" by (simp add: id_at_def time_id_def)
  have "valid_revision_id (id_at (time_id t) n) \<longleftrightarrow>
      ?rest = [] \<or> length ?rest = 3 \<and> hd ?rest = CHR ''-'' \<and> list_all is_digit (tl ?rest)"
    unfolding e by (rule valid_revision_id_parts [OF l(1) _ l(2)]) (simp_all add: zero_pad_digits)
  also have "\<dots> \<longleftrightarrow> n < 100" using len(2) [of n] zero_pad_digits by auto
  finally show ?thesis .
qed

section \<open>Reading back\<close>

definition revision_at ::
  "(bytes \<Rightarrow> string + metadata) \<Rightarrow> tree \<Rightarrow> string \<Rightarrow> string \<Rightarrow> bytes \<Rightarrow> metadata \<Rightarrow> bool" where
  "revision_at decode t dir rid content meta \<longleftrightarrow> is_dir t (path_join dir rid) \<and>
     (\<exists>d. map_of t (revision_path dir rid MetadataFile) = Some (File d) \<and> decode d = Inr meta) \<and>
     map_of t (revision_path dir rid ConfigFile) = Some (File content)"

lemma Get_revision_at:
  assumes "faults s = (\<lambda>_. None)" "valid_revision_id rid" "revision_at decode (nodes s) (st_Dir st) rid content meta"
  shows "fst (Get decode st rid s) = Inr (content, meta)"
proof -
  let ?r = "path_join (st_Dir st) rid"
  have d: "map_of (nodes s) ?r = Some Dir" using assms(3) by (simp add: revision_at_def is_dir_def)
  have stat: "os_Stat ?r s = (Inr True, end_call (nodes s) s)"
    using assms(1) d by (simp add: os_Stat_def call_fate_def resolve_def)
  obtain data where m: "map_of (nodes s) (path_join ?r MetadataFile) = Some (File data)" "decode data = Inr meta"
    and c: "map_of (nodes s) (path_join ?r ConfigFile) = Some (File content)"
    using assms(3) by (auto simp: revision_at_def revision_path_def)
  have "os_ReadFile (path_join ?r MetadataFile) x = (Inr data, end_call (nodes x) x)"
    "os_ReadFile (path_join ?r ConfigFile) x = (Inr content, end_call (nodes x) x)"
    if "nodes x = nodes s" "faults x = (\<lambda>_. None)" for x
    using os_ReadFile_ok [of x _ data] os_ReadFile_ok [of x _ content] that m c by (simp_all add: call_fate_def)
  with stat m(2) assms(1,2) show ?thesis by (simp add: Get_def Let_def)
qed

lemma Current_link:
  "faults s = (\<lambda>_. None) \<Longrightarrow> map_of (nodes s) (path_join (st_Dir st) ''current'') = Some (Symlink rid) \<Longrightarrow>
   fst (Current st s) = rid"
  by (simp add: Current_def os_Readlink_def call_fate_def)

section \<open>Listing\<close>

text \<open>The metadata that an entry of the store contributes.\<close>

definition entry_meta :: "(bytes \<Rightarrow> string + metadata) \<Rightarrow> tree \<Rightarrow> string \<Rightarrow> string \<times> bool \<Rightarrow> metadata option" where
  "entry_meta decode t dir e =
     (if snd e then (case map_of t (resolve t (revision_path dir (fst e) MetadataFile)) of
        Some (File d) \<Rightarrow> (case decode d of Inr m \<Rightarrow> Some m | Inl _ \<Rightarrow> None) | _ \<Rightarrow> None) else None)"

lemma list_loop_ok:
  "faults s = (\<lambda>_. None) \<Longrightarrow> list_loop decode dir es s = (ms, s') \<Longrightarrow>
   ms = List.map_filter (entry_meta decode (nodes s) dir) es \<and> nodes s' = nodes s \<and> faults s' = (\<lambda>_. None)"
proof (induction es arbitrary: s ms s')
  case (Cons e es)
  obtain name d where e: "e = (name, d)" by fastforce
  show ?case
  proof (cases d)
    case False
    then show ?thesis using Cons.IH [OF Cons.prems(1), of ms s'] Cons.prems(2) e
      by (simp add: map_filter_simps entry_meta_def)
  next
    case True
    let ?p = "path_join (path_join dir name) MetadataFile"
    obtain r s1 where r: "os_ReadFile ?p s = (r, s1)" by fastforce
    have s1: "nodes s1 = nodes s" "faults s1 = (\<lambda>_. None)" using os_ReadFile_call [OF r] Cons.prems(1) by simp_all
    have v: "r = (case map_of (nodes s) (resolve (nodes s) ?p) of Some (File d) \<Rightarrow> Inr d
        | Some Dir \<Rightarrow> Inl EISDIR | Some (Symlink _) \<Rightarrow> Inl EIO | None \<Rightarrow> Inl ENOENT)"
      using r Cons.prems(1) by (auto simp: os_ReadFile_def Let_def call_fate_def split: option.splits node.splits)
    obtain ms' s2 where l: "list_loop decode dir es s1 = (ms', s2)" by fastforce
    note IH = Cons.IH [OF s1(2) l]
    show ?thesis
      using Cons.prems(2) r v l IH True e s1(1)
      by (auto simp: map_filter_simps entry_meta_def revision_path_def split: option.splits node.splits sum.splits)
  qed
qed (simp add: map_filter_simps)

text \<open>A directory of the store that holds readable metadata.\<close>

definition stored :: "(bytes \<Rightarrow> string + metadata) \<Rightarrow> tree \<Rightarrow> string \<Rightarrow> string \<Rightarrow> metadata \<Rightarrow> bool" where
  "stored decode t dir n m \<longleftrightarrow> CHR ''/'' \<notin> set n \<and> is_dir t (path_join dir n) \<and>
     (\<exists>d. map_of t (resolve t (revision_path dir n MetadataFile)) = Some (File d) \<and> decode d = Inr m)"

lemma path_base_no_slash: "CHR ''/'' \<notin> set (path_base p)"
  using last_index_Some [of "CHR ''/''" p] by (auto simp: path_base_def last_index_None_iff split: option.splits)

lemma dir_entries_iff:
  assumes "dir \<noteq> []"
  shows "(n, True) \<in> set (dir_entries t dir) \<longleftrightarrow> CHR ''/'' \<notin> set n \<and> is_dir t (path_join dir n)"
proof
  assume "(n, True) \<in> set (dir_entries t dir)"
  then show "CHR ''/'' \<notin> set n \<and> is_dir t (path_join dir n)"
    using path_base_no_slash by (auto simp: dir_entries_def is_dir_def)
next
  assume a: "CHR ''/'' \<notin> set n \<and> is_dir t (path_join dir n)"
  then have "path_join dir n \<in> set (keys_of t)" by (simp add: is_dir_def set_keys_of domIff)
  moreover have "path_dir (path_join dir n) = dir" "path_base (path_join dir n) = n"
    using a path_join_dir [OF assms] path_join_base by blast+
  ultimately have "n \<in> path_base ` {p \<in> set (keys_of t). path_dir p = dir \<and> p \<noteq> dir}"
    by (intro image_eqI [of _ _ "path_join dir n"]) simp_all
  then have "(\<lambda>n. (n, map_of t (path_join dir n) = Some Dir)) n \<in> set (dir_entries t dir)"
    unfolding dir_entries_def set_map by (intro image_eqI [of _ _ n]) (simp_all add: image_image)
  with a show "(n, True) \<in> set (dir_entries t dir)" by (simp add: is_dir_def)
qed

definition sorts_newest :: "slice_sort \<Rightarrow> bool" where
  "sorts_newest sorter \<longleftrightarrow> (\<forall>ms. mset (sorter newer ms) = mset ms \<and>
     sorted_wrt (\<lambda>a b. \<not> newer b a) (sorter newer ms))"

text \<open>One sort that meets it.\<close>

definition by_timestamp :: slice_sort where
  "by_timestamp lt ms = rev (sort_key md_Timestamp ms)"

lemma by_timestamp_sorts: "sorts_newest by_timestamp"
proof -
  have "sorted_wrt (\<lambda>a b. \<not> newer b a) (rev (sort_key md_Timestamp ms))" for ms
    using sorted_sort_key [of md_Timestamp ms]
    by (simp add: sorted_wrt_rev sorted_wrt_map newer_def not_less)
  then show ?thesis by (simp add: sorts_newest_def by_timestamp_def)
qed

lemma List_revisions_ok:
  assumes "faults s = (\<lambda>_. None)" "is_dir (nodes s) (st_Dir st)"
    "List_revisions decode sorter st s = (r, s')"
  shows "nodes s' = nodes s" "faults s' = (\<lambda>_. None)"
    "r = Inr (sorter newer (List.map_filter (entry_meta decode (nodes s) (st_Dir st)) (dir_entries (nodes s) (st_Dir st))))"
proof -
  have "os_ReadDir (st_Dir st) s = (Inr (dir_entries (nodes s) (st_Dir st)), end_call (nodes s) s)"
    using assms(1,2) by (simp add: os_ReadDir_def call_fate_def is_dir_def resolve_def)
  moreover obtain ms s2 where l: "list_loop decode (st_Dir st) (dir_entries (nodes s) (st_Dir st)) (end_call (nodes s) s) = (ms, s2)"
    by fastforce
  moreover note list_loop_ok [OF _ l]
  ultimately show "nodes s' = nodes s" "faults s' = (\<lambda>_. None)"
    "r = Inr (sorter newer (List.map_filter (entry_meta decode (nodes s) (st_Dir st)) (dir_entries (nodes s) (st_Dir st))))"
    using assms(1,3) by (simp_all add: List_revisions_def)
qed

lemma entry_meta_Some:
  "entry_meta decode t dir (n, b) = Some m \<longleftrightarrow>
     b \<and> (\<exists>d. map_of t (resolve t (revision_path dir n MetadataFile)) = Some (File d) \<and> decode d = Inr m)"
  by (auto simp: entry_meta_def split: option.splits node.splits sum.splits)

lemma entry_meta_stored:
  assumes "dir \<noteq> []" "entry_meta decode t dir e = Some m" "e \<in> set (dir_entries t dir)"
  shows "stored decode t dir (fst e) m"
proof -
  obtain n b where e: "e = (n, b)" by fastforce
  with assms(2) have "b" "\<exists>d. map_of t (resolve t (revision_path dir n MetadataFile)) = Some (File d) \<and> decode d = Inr m"
    by (simp_all add: entry_meta_Some)
  with e assms(3) dir_entries_iff [OF assms(1), of n t] show ?thesis by (simp add: stored_def)
qed

lemma set_entries:
  assumes "dir \<noteq> []"
  shows "set (List.map_filter (entry_meta decode t dir) (dir_entries t dir)) = {m. \<exists>n. stored decode t dir n m}"
proof (intro set_eqI iffI)
  fix m assume "m \<in> set (List.map_filter (entry_meta decode t dir) (dir_entries t dir))"
  then show "m \<in> {m. \<exists>n. stored decode t dir n m}"
    using entry_meta_stored [OF assms] by (fastforce simp: List.map_filter_def)
next
  fix m assume "m \<in> {m. \<exists>n. stored decode t dir n m}"
  then obtain n where n: "stored decode t dir n m" by blast
  then have "(n, True) \<in> set (dir_entries t dir)" using dir_entries_iff [OF assms] by (simp add: stored_def)
  moreover have "entry_meta decode t dir (n, True) = Some m" using n by (simp add: entry_meta_Some stored_def)
  ultimately show "m \<in> set (List.map_filter (entry_meta decode t dir) (dir_entries t dir))"
    unfolding List.map_filter_def by (force intro: image_eqI [of _ _ "(n, True)"])
qed

lemma distinct_entries: "distinct (map fst (dir_entries t dir))"
  by (simp add: dir_entries_def comp_def)

lemma entries_distinct:
  assumes "dir \<noteq> []" "\<And>n m. stored decode t dir n m \<Longrightarrow> md_ID m = n"
  shows "distinct (map md_ID (List.map_filter (entry_meta decode t dir) (dir_entries t dir)))"
proof -
  have "distinct (map md_ID (List.map_filter (entry_meta decode t dir) es))"
    if "distinct (map fst es)" "set es \<subseteq> set (dir_entries t dir)" for es
    using that
  proof (induction es)
    case (Cons e es)
    have id: "md_ID m = fst e'" if "entry_meta decode t dir e' = Some m" "e' \<in> set (e # es)" for e' m
      using assms(2) [OF entry_meta_stored [OF assms(1) that(1)]] that(2) Cons.prems(2) by auto
    show ?case
    proof (cases "entry_meta decode t dir e")
      case (Some m)
      have "md_ID m \<notin> md_ID ` set (List.map_filter (entry_meta decode t dir) es)"
      proof
        assume "md_ID m \<in> md_ID ` set (List.map_filter (entry_meta decode t dir) es)"
        then obtain e' m' where "e' \<in> set es" "entry_meta decode t dir e' = Some m'" "md_ID m' = md_ID m"
          by (auto simp: List.map_filter_def)
        with id [of e' m'] id [OF Some] Cons.prems(1) show False by auto
      qed
      with Some Cons show ?thesis by (simp add: map_filter_simps)
    qed (use Cons in \<open>simp add: map_filter_simps\<close>)
  qed (simp add: map_filter_simps)
  from this [OF distinct_entries subset_refl] show ?thesis .
qed

section \<open>The previous revision\<close>

lemma previous_loop_split:
  "current \<notin> md_ID ` set xs \<Longrightarrow> previous_loop current (xs @ r # ys) =
     (if md_ID r = current then case ys of [] \<Rightarrow> [] | y # _ \<Rightarrow> md_ID y else previous_loop current (r # ys))"
  by (induction xs rule: induct_list012) (auto split: list.splits)

text \<open>In a list of distinct identifiers and times, newest first, it finds the newest entry older than
  the current one.\<close>

lemma previous_loop_newest:
  assumes "sorted_wrt (\<lambda>a b. \<not> newer b a) ms" "distinct (map md_ID ms)" "inj_on md_Timestamp (set ms)"
    "cur \<in> set ms" "m \<in> set ms" "newer cur m" "\<And>m'. m' \<in> set ms \<Longrightarrow> newer cur m' \<Longrightarrow> \<not> newer m' m"
  shows "previous_loop (md_ID cur) ms = md_ID m"
proof -
  obtain xs ys where ms: "ms = xs @ cur # ys" using assms(4) split_list by metis
  have xs: "md_ID cur \<notin> md_ID ` set xs" using assms(2) by (auto simp: ms)
  have "m \<in> set ys"
    using assms(1,5,6) by (auto simp: ms sorted_wrt_append newer_def)
  then obtain y zs where ys: "ys = y # zs" by (cases ys) auto
  have "\<not> newer y cur" "\<not> newer m y" "y \<in> set ms" using assms(1) \<open>m \<in> set ys\<close> by (auto simp: ms ys sorted_wrt_append newer_def)
  moreover have "y \<noteq> cur" using assms(2) by (auto simp: ms ys)
  ultimately have "newer cur y" using assms(3,4) unfolding newer_def inj_on_def by (metis linorder_cases)
  with assms(7) \<open>y \<in> set ms\<close> have "\<not> newer y m" by blast
  with \<open>\<not> newer m y\<close> have "y = m"
    using assms(3,5) \<open>y \<in> set ms\<close> unfolding newer_def inj_on_def by (metis linorder_cases)
  then show ?thesis using previous_loop_split [OF xs] by (simp add: ms ys)
qed

lemma previous_loop_oldest:
  assumes "sorted_wrt (\<lambda>a b. \<not> newer b a) ms" "distinct (map md_ID ms)" "inj_on md_Timestamp (set ms)"
    "cur \<in> set ms" "\<And>m. m \<in> set ms \<Longrightarrow> \<not> newer cur m"
  shows "previous_loop (md_ID cur) ms = []"
proof -
  obtain xs ys where ms: "ms = xs @ cur # ys" using assms(4) split_list by metis
  have "md_ID cur \<notin> md_ID ` set xs" using assms(2) by (auto simp: ms)
  moreover have "ys = []"
  proof (cases ys)
    case (Cons y zs)
    then have "\<not> newer y cur" "\<not> newer cur y" "y \<in> set ms" "y \<noteq> cur"
      using assms(1,2,5) by (auto simp: ms sorted_wrt_append)
    with assms(3,4) show ?thesis unfolding newer_def inj_on_def by (metis linorder_cases)
  qed
  ultimately show ?thesis using previous_loop_split [of "md_ID cur" xs cur ys] by (simp add: ms)
qed

text \<open>A store as \<^const>\<open>Save\<close> fills it: the metadata name their directory, are no links and have
  different times.\<close>

definition store_filled :: "(bytes \<Rightarrow> string + metadata) \<Rightarrow> tree \<Rightarrow> string \<Rightarrow> bool" where
  "store_filled decode t dir \<longleftrightarrow>
     (\<forall>n g. map_of t (revision_path dir n MetadataFile) \<noteq> Some (Symlink g)) \<and>
     (\<forall>n m. stored decode t dir n m \<longrightarrow> md_ID m = n) \<and>
     (\<forall>n m n' m'. stored decode t dir n m \<longrightarrow> stored decode t dir n' m' \<longrightarrow> md_Timestamp m = md_Timestamp m' \<longrightarrow> m = m')"

lemma stored_after_save:
  assumes "store_tree t dir" "entry_name rid" "map_of t (path_join dir rid) = None"
    "map_of t' = (map_of t)(path_join dir rid \<mapsto> Dir, revision_path dir rid ConfigFile \<mapsto> File content,
      revision_path dir rid MetadataFile \<mapsto> File data, path_join dir ''current'' \<mapsto> Symlink rid)"
    "store_filled decode t dir" "decode data = Inr meta"
  shows "stored decode t' dir n m \<longleftrightarrow> (n = rid \<and> m = meta) \<or> stored decode t dir n m"
proof (cases "CHR ''/'' \<in> set n")
  case True
  with assms(2) entry_name_def show ?thesis by (auto simp: stored_def)
next
  case slash: False
  have rid: "CHR ''/'' \<notin> set rid" "rid \<noteq> ''current''"
    using assms(2) entry_name_not_current by (auto simp: entry_name_def)
  have dir: "dir \<noteq> []" "\<not> is_dir t (path_join dir ''current'')" using assms(1) by (auto simp: store_tree_def)
  have inj: "path_join dir a = path_join dir b \<longleftrightarrow> a = b" if "CHR ''/'' \<notin> set a" "CHR ''/'' \<notin> set b" for a b
    using path_join_inject [OF that dir(1) dir(1)] by simp
  have sub: "revision_path dir a f \<noteq> path_join dir b" if "CHR ''/'' \<notin> set b" "CHR ''/'' \<notin> set f" for a b f
    using path_join_inject [of f b "path_join dir a" dir] that dir(1) by (simp add: revision_path_def)
  have rev: "revision_path dir a f = revision_path dir b g \<longleftrightarrow> a = b \<and> f = g"
    if "CHR ''/'' \<notin> set a" "CHR ''/'' \<notin> set b" "CHR ''/'' \<notin> set f" "CHR ''/'' \<notin> set g" for a b f g
    using path_join_inject [of f g "path_join dir a" "path_join dir b"] inj that by (simp add: revision_path_def)
  let ?p = "revision_path dir n MetadataFile"
  have meta: "map_of t' ?p = (if n = rid then Some (File data) else map_of t ?p)"
    using rid(1) slash sub [of rid MetadataFile n] sub [of "''current''" MetadataFile n]
      rev [of n rid MetadataFile MetadataFile] rev [of n rid MetadataFile ConfigFile]
    by (auto simp: assms(4))
  have entry: "is_dir t' (path_join dir n) \<longleftrightarrow> n = rid \<or> is_dir t (path_join dir n)"
    using rid slash inj [of n rid] inj [of n "''current''"] inj [of rid "''current''"] dir(2)
      sub [of n ConfigFile rid] sub [of n MetadataFile rid] by (auto simp: assms(4) is_dir_def)
  have nolink: "resolve t ?p = ?p" using assms(5) by (auto simp: store_filled_def resolve_def split: option.splits node.splits)
  then have nolink': "resolve t' ?p = ?p"
    using meta assms(5) by (auto simp: store_filled_def resolve_def split: option.splits node.splits)
  have "\<not> is_dir t (path_join dir rid)" using assms(3) by (simp add: is_dir_def)
  with meta entry nolink nolink' slash assms(6) show ?thesis by (auto simp: stored_def)
qed

lemma previous_core:
  assumes "faults s = (\<lambda>_. None)" "is_dir (nodes s) (st_Dir st)" "st_Dir st \<noteq> []" "sorts_newest sorter"
    "store_filled decode (nodes s) (st_Dir st)"
    "stored decode (nodes s) (st_Dir st) (fst (Current st s)) cur"
  shows "if \<exists>n m. stored decode (nodes s) (st_Dir st) n m \<and> newer cur m
    then \<exists>m. stored decode (nodes s) (st_Dir st) (fst (Previous decode sorter st s)) m \<and> newer cur m \<and>
      (\<forall>n' m'. stored decode (nodes s) (st_Dir st) n' m' \<and> newer cur m' \<longrightarrow> \<not> newer m' m)
    else fst (Previous decode sorter st s) = []"
proof -
  let ?S = "{m. \<exists>n. stored decode (nodes s) (st_Dir st) n m}"
  let ?ms = "List.map_filter (entry_meta decode (nodes s) (st_Dir st)) (dir_entries (nodes s) (st_Dir st))"
  define revs where "revs = sorter newer ?ms"
  obtain s1 where l: "List_revisions decode sorter st s = (Inr revs, s1)" "nodes s1 = nodes s" "faults s1 = (\<lambda>_. None)"
    using List_revisions_ok [OF assms(1,2), of decode sorter] unfolding revs_def by (metis prod.collapse)
  have named: "\<And>n m. stored decode (nodes s) (st_Dir st) n m \<Longrightarrow> md_ID m = n" using assms(5) by (simp add: store_filled_def)
  have mset: "mset revs = mset ?ms" and sorted: "sorted_wrt (\<lambda>a b. \<not> newer b a) revs"
    using assms(4) by (auto simp: revs_def sorts_newest_def)
  have set: "set revs = ?S" using set_entries [OF assms(3)] mset by (metis set_mset_mset)
  have dist: "distinct (map md_ID revs)"
    using entries_distinct [OF assms(3) named] mset by (metis mset_map mset_eq_imp_distinct_iff)
  have inj: "inj_on md_Timestamp (set revs)"
    using assms(5) unfolding inj_on_def set store_filled_def by blast
  have cur: "cur \<in> set revs" "md_ID cur = fst (Current st s)" using assms(6) named by (auto simp: set)
  have c1: "Current st s1 = (fst (Current st s), snd (Current st s1))"
    using l assms(1) by (simp add: Current_def os_Readlink_def call_fate_def Let_def split: option.splits node.splits)
  have prev: "fst (Previous decode sorter st s) = (if length revs < 2 then [] else previous_loop (md_ID cur) revs)"
  proof -
    obtain s2 where "Current st s1 = (md_ID cur, s2)" using c1 cur(2) by metis
    with l(1) show ?thesis by (simp add: Previous_def)
  qed
  show ?thesis
  proof (cases "\<exists>n m. stored decode (nodes s) (st_Dir st) n m \<and> newer cur m")
    case True
    let ?O = "{m \<in> set revs. newer cur m}"
    have "finite ?O" by (rule finite_subset [of _ "set revs"]) auto
    have "?O \<noteq> {}" using True unfolding set by auto
    then have "Max (md_Timestamp ` ?O) \<in> md_Timestamp ` ?O" using \<open>finite ?O\<close> by (intro Max_in) simp_all
    then obtain m where m: "m \<in> ?O" "md_Timestamp m = Max (md_Timestamp ` ?O)" by auto
    have top: "\<not> newer m' m" if "m' \<in> set revs" "newer cur m'" for m'
      using Max_ge [of "md_Timestamp ` ?O" "md_Timestamp m'"] m(2) that \<open>finite ?O\<close> by (auto simp: newer_def not_less)
    have "2 \<le> length revs"
    proof (rule ccontr)
      assume "\<not> 2 \<le> length revs"
      then have "set revs \<subseteq> {cur}" using cur(1) by (cases revs; cases "tl revs") auto
      with m(1) show False by (auto simp: newer_def)
    qed
    moreover have "previous_loop (md_ID cur) revs = md_ID m"
      by (rule previous_loop_newest [OF sorted dist inj cur(1)]) (use m(1) top in auto)
    moreover obtain n where "stored decode (nodes s) (st_Dir st) n m" using m(1) by (auto simp: set)
    ultimately have "stored decode (nodes s) (st_Dir st) (fst (Previous decode sorter st s)) m"
      using named by (simp add: prev)
    with True top m(1) show ?thesis by (auto simp: set)
  next
    case False
    then have "previous_loop (md_ID cur) revs = []"
      by (intro previous_loop_oldest [OF sorted dist inj cur(1)]) (auto simp: set)
    with False show ?thesis by (auto simp: prev)
  qed
qed

text \<open>A save into a filled store: it stays filled, holds one revision more and keeps everything else.\<close>

lemma store_filled_after_save:
  assumes filled: "store_filled decode t dir"
    and st: "\<And>k m. stored decode t' dir k m \<longleftrightarrow> (k = rid \<and> m = meta) \<or> stored decode t dir k m"
    and meta: "md_ID meta = rid" "\<And>k m. stored decode t dir k m \<Longrightarrow> md_Timestamp m < md_Timestamp meta"
    and nolink: "\<And>k g. map_of t' (revision_path dir k MetadataFile) \<noteq> Some (Symlink g)"
  shows "store_filled decode t' dir"
  unfolding store_filled_def
proof (intro conjI allI impI)
  show "map_of t' (revision_path dir k MetadataFile) \<noteq> Some (Symlink g)" for k g by (rule nolink)
  show "md_ID m = k" if "stored decode t' dir k m" for k m
    using that filled meta(1) by (auto simp: st store_filled_def)
  show "m = m'" if "stored decode t' dir k m" "stored decode t' dir k' m'" "md_Timestamp m = md_Timestamp m'" for k m k' m'
  proof (cases "m = meta \<or> m' = meta")
    case True
    have "m = meta \<or> stored decode t dir k m" "m' = meta \<or> stored decode t dir k' m'" using that st by blast+
    then show ?thesis using True that(3) meta(2) by (metis less_irrefl)
  next
    case False
    with that have "stored decode t dir k m" "stored decode t dir k' m'" by (auto simp: st)
    with that(3) filled show ?thesis unfolding store_filled_def by blast
  qed
qed

lemma revision_at_after_save:
  assumes "CHR ''/'' \<notin> set rid" "rid \<noteq> ''current''" "dir \<noteq> []" "decode data = Inr meta"
    and t': "map_of t' = t(path_join dir rid \<mapsto> Dir, revision_path dir rid ConfigFile \<mapsto> File content,
      revision_path dir rid MetadataFile \<mapsto> File data, path_join dir ''current'' \<mapsto> Symlink rid)"
  shows "revision_at decode t' dir rid content meta"
proof -
  have sub: "revision_path dir rid f \<noteq> path_join dir ''current''" "revision_path dir rid f \<noteq> path_join dir rid"
    if "CHR ''/'' \<notin> set f" for f
    using path_join_inject [of f _ "path_join dir rid" dir] assms(1,3) that by (auto simp: revision_path_def)
  have "path_join dir rid \<noteq> path_join dir ''current''"
    using path_join_inject [of rid "''current''" dir dir] assms(1-3) by simp
  moreover have "revision_path dir rid ConfigFile \<noteq> revision_path dir rid MetadataFile"
    by (simp add: revision_path_def path_join_def)
  ultimately show ?thesis using sub sub(2) [THEN not_sym] assms(4) by (simp add: revision_at_def t' is_dir_def)
qed

lemma Save_filled:
  assumes "faults s = (\<lambda>_. None)" "store_tree (nodes s) (st_Dir st)" "store_filled decode (nodes s) (st_Dir st)"
    "\<And>m. md_Timestamp m = now \<Longrightarrow> md_SHA256 m = digest content \<Longrightarrow> md_Comment m = comment \<Longrightarrow>
       \<exists>d. encode m = Inr d \<and> decode d = Inr m"
    "\<And>n' m'. stored decode (nodes s) (st_Dir st) n' m' \<Longrightarrow> md_Timestamp m' < now"
  obtains n rid meta s' where "Save encode digest now st content comment s = Some (Inr rid, s')" "rid = id_at (time_id now) n"
    "meta = \<lparr>md_ID = rid, md_Timestamp = now, md_SHA256 = digest content, md_Comment = comment\<rparr>"
    "faults s' = (\<lambda>_. None)" "store_tree (nodes s') (st_Dir st)" "store_filled decode (nodes s') (st_Dir st)"
    "fst (Current st s') = rid"
    "\<And>k m. stored decode (nodes s') (st_Dir st) k m \<longleftrightarrow> (k = rid \<and> m = meta) \<or> stored decode (nodes s) (st_Dir st) k m"
    "revision_at decode (nodes s') (st_Dir st) rid content meta"
    "\<And>q. map_of (nodes s) q \<noteq> None \<Longrightarrow> q \<noteq> path_join (st_Dir st) ''current'' \<Longrightarrow> map_of (nodes s') q = map_of (nodes s) q"
    "\<And>q. take (length (st_Dir st)) q \<noteq> st_Dir st \<Longrightarrow> map_of (nodes s') q = map_of (nodes s) q"
    "\<forall>l < n. map_of (nodes s) (path_join (st_Dir st) (id_at (time_id now) l)) \<noteq> None"
proof -
  let ?dir = "st_Dir st"
  have enc: "\<exists>d. encode m = Inr d" if "md_Timestamp m = now" "md_SHA256 m = digest content" "md_Comment m = comment" for m
    using assms(4) [OF that] by blast
  obtain n s' data where S: "let rid = id_at (time_id now) n;
      meta = \<lparr>md_ID = rid, md_Timestamp = now, md_SHA256 = digest content, md_Comment = comment\<rparr> in
    Save encode digest now st content comment s = Some (Inr rid, s') \<and> faults s' = (\<lambda>_. None) \<and>
    map_of (nodes s) (path_join ?dir rid) = None \<and>
    (\<forall>l < n. map_of (nodes s) (path_join ?dir (id_at (time_id now) l)) \<noteq> None) \<and> encode meta = Inr data \<and>
    map_of (nodes s') = (map_of (nodes s))(path_join ?dir rid \<mapsto> Dir,
      revision_path ?dir rid ConfigFile \<mapsto> File content,
      revision_path ?dir rid MetadataFile \<mapsto> File data, path_join ?dir ''current'' \<mapsto> Symlink rid)"
    using Save_ok [where encode = encode and digest = digest and now = now and content = content and comment = comment,
      OF assms(1,2) enc] by blast
  define rid where "rid = id_at (time_id now) n"
  define meta where "meta = \<lparr>md_ID = rid, md_Timestamp = now, md_SHA256 = digest content, md_Comment = comment\<rparr>"
  have save: "Save encode digest now st content comment s = Some (Inr rid, s')" and f': "faults s' = (\<lambda>_. None)"
    and none: "map_of (nodes s) (path_join ?dir rid) = None" and data: "encode meta = Inr data"
    and t': "map_of (nodes s') = (map_of (nodes s))(path_join ?dir rid \<mapsto> Dir, revision_path ?dir rid ConfigFile \<mapsto> File content,
      revision_path ?dir rid MetadataFile \<mapsto> File data, path_join ?dir ''current'' \<mapsto> Symlink rid)"
    using S unfolding Let_def rid_def meta_def by blast+
  have entry: "entry_name rid" and slash: "CHR ''/'' \<notin> set rid" "rid \<noteq> ''current''" by (simp_all add: rid_def)
  have dec: "decode data = Inr meta" using assms(4) [of meta] data by (auto simp: meta_def)
  note st = stored_after_save [OF assms(2) entry none t' assms(3) dec]
  note tree = store_tree_save(1) [OF assms(2) entry none t']
  have dir: "is_dir (nodes s') ?dir" "?dir \<noteq> []" using store_tree_dir [OF tree] by simp_all
  have cur: "fst (Current st s') = rid" by (rule Current_link [OF f']) (simp add: t')
  have nolink: "map_of (nodes s') (revision_path ?dir k MetadataFile) \<noteq> Some (Symlink g)" for k g
    using assms(3) dir(2) path_join_inject [of MetadataFile "''current''" "path_join ?dir k" ?dir]
    by (auto simp: t' store_filled_def revision_path_def)
  have filled: "store_filled decode (nodes s') ?dir"
    by (rule store_filled_after_save [OF assms(3) st _ _ nolink]) (use assms(5) in \<open>simp_all add: meta_def\<close>)
  have rev: "revision_at decode (nodes s') ?dir rid content meta"
    using revision_at_after_save [OF slash dir(2)] dec t' by blast
  have far: "map_of (nodes s') q = map_of (nodes s) q" if "take (length ?dir) q \<noteq> ?dir" for q
    using that by (auto simp: t' path_join_def revision_path_def)
  have first: "\<forall>l < n. map_of (nodes s) (path_join ?dir (id_at (time_id now) l)) \<noteq> None" using S by (simp add: Let_def)
  show thesis
    by (rule that [OF save rid_def meta_def f' tree filled cur st rev store_tree_save(2) [OF assms(2) entry none t'] far first])
qed

text \<open>When all but the current revision are no newer than a given one, that one is the previous.\<close>

lemma Previous_second:
  assumes "faults s = (\<lambda>_. None)" "store_tree (nodes s) (st_Dir st)" "sorts_newest sorter"
    "store_filled decode (nodes s) (st_Dir st)"
    "stored decode (nodes s) (st_Dir st) (fst (Current st s)) meta"
    "stored decode (nodes s) (st_Dir st) k cur" "newer meta cur"
    "\<And>n' m'. stored decode (nodes s) (st_Dir st) n' m' \<Longrightarrow> m' = meta \<or> \<not> newer m' cur"
  shows "fst (Previous decode sorter st s) = k"
proof -
  let ?dir = "st_Dir st"
  have dir: "is_dir (nodes s) ?dir" "?dir \<noteq> []" using store_tree_dir [OF assms(2)] by simp_all
  have P: "if \<exists>n m. stored decode (nodes s) ?dir n m \<and> newer meta m
    then \<exists>m. stored decode (nodes s) ?dir (fst (Previous decode sorter st s)) m \<and> newer meta m \<and>
      (\<forall>n' m'. stored decode (nodes s) ?dir n' m' \<and> newer meta m' \<longrightarrow> \<not> newer m' m)
    else fst (Previous decode sorter st s) = []"
    by (rule previous_core [OF assms(1) dir assms(3,4,5)])
  with assms(6,7) obtain m where m: "stored decode (nodes s) ?dir (fst (Previous decode sorter st s)) m" "newer meta m" "\<not> newer cur m"
    by (auto split: if_splits)
  with assms(8) [OF m(1)] have "md_Timestamp m = md_Timestamp cur" by (metis newer_def linorder_cases less_irrefl)
  with assms(4,6) m(1) have "m = cur" unfolding store_filled_def by blast
  with assms(4,6) m(1) show ?thesis unfolding store_filled_def by metis
qed

text \<open>The operations that only read.\<close>

lemma list_loop_reads: "list_loop decode dir es s = (ms, s') \<Longrightarrow> nodes s' = nodes s \<and> faults s' = faults s \<and> answer s' = answer s"
  by (induction es arbitrary: s ms s' rule: list.induct)
     (auto split: if_splits prod.splits sum.splits dest!: os_ReadFile_call)

lemma List_revisions_reads:
  "List_revisions decode sorter st s = (r, s') \<Longrightarrow> nodes s' = nodes s \<and> faults s' = faults s \<and> answer s' = answer s"
  by (auto simp: List_revisions_def os_ReadDir_def Let_def split: if_splits prod.splits sum.splits option.splits node.splits
      dest!: list_loop_reads)

lemma Current_reads: "Current st s = (r, s') \<Longrightarrow> nodes s' = nodes s \<and> faults s' = faults s \<and> answer s' = answer s"
  by (auto simp: Current_def os_Readlink_def Let_def split: option.splits node.splits)

lemma Previous_reads:
  "Previous decode sorter st s = (r, s') \<Longrightarrow> nodes s' = nodes s \<and> faults s' = faults s \<and> answer s' = answer s"
  by (auto simp: Previous_def split: if_splits prod.splits sum.splits dest!: List_revisions_reads Current_reads)

lemma Get_reads: "Get decode st rid s = (r, s') \<Longrightarrow> nodes s' = nodes s \<and> faults s' = faults s \<and> answer s' = answer s"
  by (auto simp: Get_def Let_def os_Stat_call split: if_splits prod.splits sum.splits
      dest!: os_ReadFile_call arg_cong [where f = snd and x = "os_Stat _ _"])

text \<open>Saving runs no command.\<close>

lemma id_loop_answer: "id_loop dir b n rid s = Some r \<Longrightarrow> answer (snd r) = answer s"
proof (erule id_loop.raw_induct [where P = "\<lambda>dir b n rid s r. answer (snd r) = answer s", rotated])
  fix f dir b n rid s r
  assume IH: "\<And>dir b n rid s r. f dir b n rid s = Some r \<Longrightarrow> answer (snd r) = answer s"
    and ret: "(let r = os_Stat (path_join dir rid) s in
      if fst r = Inl ENOENT then Some (rid, snd r)
      else f dir b (Suc n) (b @ ''-'' @ zero_pad 2 n) (snd r)) = Some r"
  show "answer (snd r) = answer s"
    using ret IH by (auto simp: Let_def os_Stat_call split: if_splits)
qed

lemma Save_answer:
  assumes "Save encode digest now st content comment s = Some (r, s')"
  shows "answer s' = answer s"
proof -
  have mk: "answer y = answer x" if "os_MkdirAll d x = (e, y)" for d x e y using that by (auto dest: os_MkdirAll_call)
  have wr: "answer y = answer x" if "os_WriteFile p d x = (e, y)" for p d x e y using that by (auto dest: os_WriteFile_call)
  have sl: "answer y = answer x" if "os_Symlink t l x = (e, y)" for t l x e y
    using that by (auto simp: os_Symlink_def split: if_splits)
  have rm: "answer (snd (os_Remove p x)) = answer x" for p x
    using os_Remove_call [OF prod.collapse [symmetric], of p x] by auto
  have "answer y = answer x" if "write_revision encode dir m c x = (q, y)" for dir m c x q y
    using that unfolding write_revision_def Let_def
    by (auto split: prod.splits option.splits sum.splits dest!: mk wr sl simp: rm)
  with assms show ?thesis
    by (auto simp: Save_def split: prod.splits option.splits dest!: mk id_loop_answer)
qed

section \<open>Sample stores\<close>

definition sample_time :: utc_time where
  "sample_time = UTC 2026 1 2 15 4 5 0"

definition crowded_tree :: "nat \<Rightarrow> tree" where
  "crowded_tree k = (''/r'', Dir) # map (\<lambda>i. (path_join ''/r'' (id_at (time_id sample_time) i), Dir)) [0..<k]"

definition crowded_store :: "nat \<Rightarrow> os" where
  "crowded_store k = \<lparr>nodes = crowded_tree k, faults = (\<lambda>_. None), tick = 0, seen = [], cmds = [],
     answer = (\<lambda>_. (True, []))\<rparr>"

lemma crowded_tree_lookup:
  "map_of (crowded_tree k) p \<noteq> None \<longleftrightarrow> p = ''/r'' \<or> (\<exists>i < k. p = path_join ''/r'' (id_at (time_id sample_time) i))"
  "map_of (crowded_tree k) p = Some x \<Longrightarrow> x = Dir"
proof -
  show "map_of (crowded_tree k) p \<noteq> None \<longleftrightarrow> p = ''/r'' \<or> (\<exists>i < k. p = path_join ''/r'' (id_at (time_id sample_time) i))"
    unfolding map_of_eq_None_iff by (auto simp: crowded_tree_def image_image)
  show "map_of (crowded_tree k) p = Some x \<Longrightarrow> x = Dir"
    by (auto simp: crowded_tree_def dest!: map_of_SomeD split: if_splits)
qed

lemma crowded_store_tree: "store_tree (nodes (crowded_store k)) ''/r''"
proof -
  let ?t = "crowded_tree k" and ?b = "time_id sample_time"
  have p: "path_prefixes ''/r'' = [''/r'']" by code_simp
  have none: "map_of ?t p = None" if "p \<noteq> ''/r''" "\<And>i. p \<noteq> path_join ''/r'' (id_at ?b i)" for p
    using that crowded_tree_lookup(1) [of k p] by blast
  have "map_of ?t (path_join ''/r'' ''current'') = None"
    by (rule none) (use path_join_inject [of "''current''" _ "''/r''" "''/r''"] id_at_not_current [of sample_time, THEN not_sym]
      in \<open>auto simp: path_join_def\<close>)
  moreover have "map_of ?t (revision_path ''/r'' n f) = None" if "CHR ''/'' \<notin> set f" for n f
    by (rule none) (use path_join_inject [of f _ "path_join ''/r'' n" "''/r''"] that in \<open>auto simp: revision_path_def path_join_def\<close>)
  moreover have "is_dir ?t ''/r''" by (simp add: crowded_tree_def is_dir_def)
  ultimately show ?thesis using crowded_tree_lookup(2) [of k]
    by (fastforce simp: store_tree_def crowded_store_def is_dir_def p)
qed

text \<open>An encoding of the metadata that differ only in their identifier.\<close>

definition id_encode :: "metadata \<Rightarrow> string + bytes" where
  "id_encode m = Inr (md_ID m)"

definition id_decode :: "utc_time \<Rightarrow> string \<Rightarrow> string \<Rightarrow> bytes \<Rightarrow> string + metadata" where
  "id_decode now sha comment d = Inr \<lparr>md_ID = d, md_Timestamp = now, md_SHA256 = sha, md_Comment = comment\<rparr>"

section \<open>Properties\<close>

text \<open>C23. Saving returns exactly when the store directory cannot be made or some candidate, the
  \<open>k\<close>-th in order, is missing and the \<open>k\<close>-th \<^verbatim>\<open>os.Stat\<close> reports it. So it returns whenever
  only finitely many calls fail; but while \<^verbatim>\<open>os.Stat\<close> fails in any other way, a permission or
  input-output error say, it loops and never reports the error.\<close>

theorem save_returns:
  fixes encode digest now st content comment s
  defines "t \<equiv> nodes (snd (os_MkdirAll (st_Dir st) s))"
  shows "(Save encode digest now st content comment s \<noteq> None \<longleftrightarrow>
      fst (os_MkdirAll (st_Dir st) s) \<noteq> None \<or>
      (\<exists>k. faults s (Suc (tick s) + k) = None \<and>
        map_of t (resolve t (path_join (st_Dir st) (id_at (time_id now) k))) = None)) \<and>
    ((\<exists>N. \<forall>n \<ge> N. faults s n = None) \<longrightarrow> Save encode digest now st content comment s \<noteq> None)"
proof -
  let ?save = "Save encode digest now st content comment s"
  obtain e s1 where mk: "os_MkdirAll (st_Dir st) s = (e, s1)" by fastforce
  obtain t' where t': "s1 = end_call t' s" using os_MkdirAll_call [OF mk] by blast
  have t: "t = t'" using mk t' by (simp add: t_def)
  let ?ok = "\<lambda>k. faults s (Suc (tick s) + k) = None \<and> free_id t (st_Dir st) (time_id now) k"
  have iff: "?save \<noteq> None \<longleftrightarrow> e \<noteq> None \<or> (\<exists>k. ?ok k)"
  proof (cases e)
    case None
    have b: "time_id now = id_at (time_id now) 0" by (simp add: id_at_def)
    have "?save \<noteq> None \<longleftrightarrow> id_loop (st_Dir st) (time_id now) (Suc 0) (id_at (time_id now) 0) s1 \<noteq> None"
      using mk None b by (auto simp: Save_def split: option.splits)
    also have "\<dots> \<longleftrightarrow> (\<exists>k. ?ok k)"
    proof
      assume "id_loop (st_Dir st) (time_id now) (Suc 0) (id_at (time_id now) 0) s1 \<noteq> None"
      then obtain r where "id_loop (st_Dir st) (time_id now) (Suc 0) (id_at (time_id now) 0) s1 = Some r" by blast
      from id_loop_SomeD [OF this] show "\<exists>k. ?ok k" by (simp add: t t')
    next
      assume "\<exists>k. ?ok k"
      then obtain k where "faults s1 (tick s1 + k) = None" "free_id (nodes s1) (st_Dir st) (time_id now) (0 + k)"
        by (auto simp: t t')
      from id_loop_Some [OF this] show "id_loop (st_Dir st) (time_id now) (Suc 0) (id_at (time_id now) 0) s1 \<noteq> None"
        by auto
    qed
    finally show ?thesis using None by simp
  qed (simp add: Save_def mk)
  moreover have "\<exists>k. ?ok k" if "\<forall>n \<ge> N. faults s n = None" for N
  proof -
    obtain i where "i \<ge> N" "free_id t (st_Dir st) (time_id now) i" using free_id_eventually by blast
    with that show ?thesis by (intro exI [of _ i]) simp
  qed
  ultimately show ?thesis using mk by (auto simp: free_id_def)
qed

theorem save_returns_witness:
  "Save id_encode (\<lambda>_. []) sample_time (NewStore ''/r'') ''x'' [] (crowded_store 3) \<noteq> None \<and>
   Save id_encode (\<lambda>_. []) sample_time (NewStore ''/r'') ''x'' []
     (crowded_store 3 \<lparr>faults := \<lambda>n. if n = 0 then None else Some Refused\<rparr>) = None"
proof -
  let ?s = "crowded_store 3 \<lparr>faults := \<lambda>n. if n = 0 then None else Some Refused\<rparr>"
  have "\<forall>n \<ge> 0. faults (crowded_store 3) n = None" by (simp add: crowded_store_def)
  then have "Save id_encode (\<lambda>_. []) sample_time (NewStore ''/r'') ''x'' [] (crowded_store 3) \<noteq> None"
    using save_returns [of id_encode "\<lambda>_. []" sample_time "NewStore ''/r''" "''x''" "[]" "crowded_store 3"] by blast
  moreover have "os_MkdirAll ''/r'' ?s = (None, end_call (nodes ?s) ?s)"
    by (simp add: os_MkdirAll_def call_fate_def crowded_store_def crowded_tree_def is_dir_def resolve_def)
  then have "\<not> (fst (os_MkdirAll (st_Dir (NewStore ''/r'')) ?s) \<noteq> None \<or> (\<exists>k. faults ?s (Suc (tick ?s) + k) = None \<and> P k))" for P
    by (simp add: NewStore_def)
  then have "Save id_encode (\<lambda>_. []) sample_time (NewStore ''/r'') ''x'' [] ?s = None"
    using conjunct1 [OF save_returns [of id_encode "\<lambda>_. []" sample_time "NewStore ''/r''" "''x''" "[]" ?s]] by blast
  ultimately show ?thesis by blast
qed

text \<open>C10. Saving into a well-formed store without failing calls succeeds under the first free identifier,
  keeps the store well-formed and every older file as it was, makes the new revision current, and,
  for the first hundred revisions of a second, reading it back gives the content and its metadata.\<close>

theorem save_get:
  assumes "faults s = (\<lambda>_. None)" "store_tree (nodes s) (st_Dir st)" "calendar_ok now"
    "\<And>m. md_Timestamp m = now \<Longrightarrow> md_SHA256 m = digest content \<Longrightarrow> md_Comment m = comment \<Longrightarrow>
       \<exists>d. encode m = Inr d \<and> decode d = Inr m"
    "n = (LEAST n. map_of (nodes s) (path_join (st_Dir st) (id_at (time_id now) n)) = None)"
  shows "\<exists>s'. let rid = id_at (time_id now) n in
    Save encode digest now st content comment s = Some (Inr rid, s') \<and>
    store_tree (nodes s') (st_Dir st) \<and> faults s' = (\<lambda>_. None) \<and>
    (\<forall>q d. map_of (nodes s) q = Some (File d) \<and> q \<noteq> path_join (st_Dir st) ''current'' \<longrightarrow> map_of (nodes s') q = Some (File d)) \<and>
    fst (Current st s') = rid \<and>
    (n < 100 \<longrightarrow> fst (Get decode st rid s') =
       Inr (content, \<lparr>md_ID = rid, md_Timestamp = now, md_SHA256 = digest content, md_Comment = comment\<rparr>)) \<and>
    (n \<ge> 100 \<longrightarrow> fst (Get decode st rid s') = Inl (InvalidRevisionID rid))"
proof -
  let ?dir = "st_Dir st" and ?t = "nodes s"
  have enc: "\<exists>d. encode m = Inr d" if "md_Timestamp m = now" "md_SHA256 m = digest content" "md_Comment m = comment" for m
    using assms(4) [OF that] by blast
  obtain n' s' data where S: "let rid = id_at (time_id now) n';
      meta = \<lparr>md_ID = rid, md_Timestamp = now, md_SHA256 = digest content, md_Comment = comment\<rparr> in
    Save encode digest now st content comment s = Some (Inr rid, s') \<and> faults s' = (\<lambda>_. None) \<and>
    map_of ?t (path_join ?dir rid) = None \<and>
    (\<forall>l < n'. map_of ?t (path_join ?dir (id_at (time_id now) l)) \<noteq> None) \<and> encode meta = Inr data \<and>
    map_of (nodes s') = (map_of ?t)(path_join ?dir rid \<mapsto> Dir,
      revision_path ?dir rid ConfigFile \<mapsto> File content,
      revision_path ?dir rid MetadataFile \<mapsto> File data, path_join ?dir ''current'' \<mapsto> Symlink rid)"
    using Save_ok [where encode = encode and digest = digest and now = now and content = content and comment = comment,
      OF assms(1,2) enc] by blast
  define rid where "rid = id_at (time_id now) n'"
  let ?meta = "\<lparr>md_ID = rid, md_Timestamp = now, md_SHA256 = digest content, md_Comment = comment\<rparr>"
  note S' = S [unfolded Let_def, folded rid_def]
  then have save: "Save encode digest now st content comment s = Some (Inr rid, s')" and f': "faults s' = (\<lambda>_. None)"
    and none: "map_of ?t (path_join ?dir rid) = None"
    and first: "\<forall>l < n'. map_of ?t (path_join ?dir (id_at (time_id now) l)) \<noteq> None"
    and data: "encode ?meta = Inr data"
    and t': "map_of (nodes s') = (map_of ?t)(path_join ?dir rid \<mapsto> Dir, revision_path ?dir rid ConfigFile \<mapsto> File content,
      revision_path ?dir rid MetadataFile \<mapsto> File data, path_join ?dir ''current'' \<mapsto> Symlink rid)" by blast+
  have n: "n = n'" unfolding assms(5)
    by (rule Least_equality) (use none first in \<open>auto simp: rid_def not_less [symmetric]\<close>)
  have entry: "entry_name rid" and slash: "CHR ''/'' \<notin> set rid" "rid \<noteq> ''current''" by (simp_all add: rid_def)
  note st = store_tree_save [OF assms(2) entry none t']
  have decoded: "decode data = Inr ?meta" using assms(4) [of ?meta] data by auto
  have cur: "fst (Current st s') = rid" by (rule Current_link [OF f']) (simp add: t')
  have dir: "?dir \<noteq> []" using assms(2) by (simp add: store_tree_def)
  have "revision_at decode (nodes s') ?dir rid content ?meta"
    using decoded slash dir path_join_inject [of _ "''current''" "path_join ?dir rid" ?dir]
      path_join_inject [of "''current''" rid ?dir ?dir] path_join_inject [of ConfigFile MetadataFile "path_join ?dir rid" "path_join ?dir rid"]
    by (simp add: revision_at_def t' revision_path_def is_dir_def)
  then have get: "valid_revision_id rid \<Longrightarrow> fst (Get decode st rid s') = Inr (content, ?meta)"
    using Get_revision_at [OF f'] by blast
  have invalid: "\<not> valid_revision_id rid \<Longrightarrow> fst (Get decode st rid s') = Inl (InvalidRevisionID rid)"
    by (simp add: Get_def)
  have valid: "valid_revision_id rid \<longleftrightarrow> n < 100" using valid_id_at [OF assms(3)] by (simp add: rid_def n)
  have keep: "\<forall>q d. map_of ?t q = Some (File d) \<and> q \<noteq> path_join ?dir ''current'' \<longrightarrow> map_of (nodes s') q = Some (File d)"
    using st(2) by (metis option.distinct(1))
  show ?thesis
    by (intro exI [of _ s']) (use save f' st(1) cur get invalid valid keep in \<open>simp add: Let_def n [symmetric] rid_def [symmetric, unfolded n [symmetric]]\<close>)
qed

lemma crowded_least:
  "(LEAST n. map_of (nodes (crowded_store k)) (path_join ''/r'' (id_at (time_id sample_time) n)) = None) = k"
proof -
  have eq: "path_join ''/r'' (id_at (time_id sample_time) i) = path_join ''/r'' (id_at (time_id sample_time) j) \<longleftrightarrow> i = j" for i j
    by (simp add: path_join_def)
  have in_iff: "map_of (nodes (crowded_store k)) (path_join ''/r'' (id_at (time_id sample_time) n)) \<noteq> None \<longleftrightarrow> n < k" for n
    using crowded_tree_lookup(1) [of k "path_join ''/r'' (id_at (time_id sample_time) n)"] eq
    by (auto simp: crowded_store_def path_join_def)
  then have "\<And>n. map_of (nodes (crowded_store k)) (path_join ''/r'' (id_at (time_id sample_time) n)) = None \<longleftrightarrow> k \<le> n"
    by (metis not_less)
  then show ?thesis by (auto intro: Least_equality)
qed

theorem save_get_witness:
  "\<exists>s'. let rid = id_at (time_id sample_time) 100 in
     Save id_encode (\<lambda>_. []) sample_time (NewStore ''/r'') ''x'' [] (crowded_store 100) = Some (Inr rid, s') \<and>
     fst (Current (NewStore ''/r'') s') = rid \<and>
     fst (Get (id_decode sample_time [] []) (NewStore ''/r'') rid s') = Inl (InvalidRevisionID rid)"
proof -
  let ?s = "crowded_store 100" and ?st = "NewStore ''/r''"
  have f: "faults ?s = (\<lambda>_. None)" by (simp add: crowded_store_def)
  have t: "store_tree (nodes ?s) (st_Dir ?st)" using crowded_store_tree by (simp add: NewStore_def)
  have c: "calendar_ok sample_time" by code_simp
  have e: "\<exists>d. id_encode m = Inr d \<and> id_decode sample_time [] [] d = Inr m"
    if "md_Timestamp m = sample_time" "md_SHA256 m = (\<lambda>_. []) ''x''" "md_Comment m = []" for m
    using that by (cases m) (simp add: id_encode_def id_decode_def)
  have n: "100 = (LEAST n. map_of (nodes ?s) (path_join (st_Dir ?st) (id_at (time_id sample_time) n)) = None)"
    using crowded_least [of 100] by (simp add: NewStore_def)
  from save_get [where digest = "\<lambda>_. []" and content = "''x''" and comment = "[]", OF f t c e n] order_refl [of "100 :: nat"]
  show ?thesis unfolding Let_def by blast
qed

text \<open>C29. Listing a readable store gives exactly the metadata that the directories of the store hold, each
  with its file readable and well-formed, the newest first; entries without are passed over.\<close>

theorem list_revisions:
  assumes "faults s = (\<lambda>_. None)" "is_dir (nodes s) (st_Dir st)" "st_Dir st \<noteq> []" "sorts_newest sorter"
  shows "\<exists>ms. fst (List_revisions decode sorter st s) = Inr ms \<and>
    set ms = {m. \<exists>n. stored decode (nodes s) (st_Dir st) n m} \<and> sorted_wrt (\<lambda>a b. \<not> newer b a) ms"
proof -
  let ?es = "List.map_filter (entry_meta decode (nodes s) (st_Dir st)) (dir_entries (nodes s) (st_Dir st))"
  have "fst (List_revisions decode sorter st s) = Inr (sorter newer ?es)"
    using List_revisions_ok(3) [OF assms(1,2), of decode sorter] by (metis prod.collapse)
  moreover have "set (sorter newer ?es) = set ?es"
    using assms(4) unfolding sorts_newest_def by (metis set_mset_mset)
  ultimately show ?thesis using assms(4) set_entries [OF assms(3)] by (auto simp: sorts_newest_def)
qed

definition two_revisions :: os where
  "two_revisions = \<lparr>nodes = [(''/r'', Dir), (''/r/b'', Dir), (''/r/b/metadata.json'', File ''b''), (''/r/a'', Dir),
     (''/r/a/metadata.json'', File ''a''), (''/r/c'', Dir), (''/r/current'', Symlink ''b'')],
     faults = (\<lambda>_. None), tick = 0, seen = [], cmds = [], answer = (\<lambda>_. (True, []))\<rparr>"

definition letter_decode :: "bytes \<Rightarrow> string + metadata" where
  "letter_decode d = Inr \<lparr>md_ID = d, md_Timestamp = UTC 2026 1 (if d = ''a'' then 1 else 2) 0 0 0 0, md_SHA256 = [],
     md_Comment = []\<rparr>"

theorem list_revisions_witness:
  "case fst (List_revisions letter_decode by_timestamp (NewStore ''/r'') two_revisions) of
     Inr ms \<Rightarrow> map md_ID ms = [''b'', ''a''] \<and> sorted_wrt (\<lambda>a b. \<not> newer b a) ms | Inl _ \<Rightarrow> False"
proof -
  have h: "faults two_revisions = (\<lambda>_. None)" "is_dir (nodes two_revisions) (st_Dir (NewStore ''/r''))"
    "st_Dir (NewStore ''/r'') \<noteq> []"
    by (simp_all add: two_revisions_def NewStore_def is_dir_def)
  have "map_sum (\<lambda>_. ()) (map md_ID) (fst (List_revisions letter_decode by_timestamp (NewStore ''/r'') two_revisions))
      = Inr [''b'', ''a'']" by code_simp
  with list_revisions [OF h by_timestamp_sorts, of letter_decode] show ?thesis by auto
qed

text \<open>C14. The revision before the current one, in a filled store, is the newest of those older than it, and
  there is none when the current one is the oldest.\<close>

theorem previous_revision:
  assumes "faults s = (\<lambda>_. None)" "is_dir (nodes s) (st_Dir st)" "st_Dir st \<noteq> []" "sorts_newest sorter"
    "store_filled decode (nodes s) (st_Dir st)"
    "stored decode (nodes s) (st_Dir st) (fst (Current st s)) cur"
  shows "if \<exists>n m. stored decode (nodes s) (st_Dir st) n m \<and> newer cur m
    then \<exists>m. stored decode (nodes s) (st_Dir st) (fst (Previous decode sorter st s)) m \<and> newer cur m \<and>
      (\<forall>n' m'. stored decode (nodes s) (st_Dir st) n' m' \<and> newer cur m' \<longrightarrow> \<not> newer m' m)
    else fst (Previous decode sorter st s) = []"
  using assms by (rule previous_core)

lemma two_revisions_facts:
  "faults two_revisions = (\<lambda>_. None)" "store_tree (nodes two_revisions) ''/r''"
  "map_of (nodes two_revisions) (revision_path ''/r'' n MetadataFile) \<noteq> Some (Symlink g)"
  "(\<exists>d. map_of (nodes two_revisions) (resolve (nodes two_revisions) (revision_path ''/r'' n MetadataFile)) = Some (File d) \<and> P d)
     \<longleftrightarrow> n \<in> {''a'', ''b''} \<and> P n"
  "is_dir (nodes two_revisions) (path_join ''/r'' n) \<longleftrightarrow> n \<in> {''a'', ''b'', ''c''}"
proof -
  let ?t = "nodes two_revisions"
  have look: "map_of ?t = [''/r'' \<mapsto> Dir, ''/r/b'' \<mapsto> Dir, ''/r/b/metadata.json'' \<mapsto> File ''b'', ''/r/a'' \<mapsto> Dir,
     ''/r/a/metadata.json'' \<mapsto> File ''a'', ''/r/c'' \<mapsto> Dir, ''/r/current'' \<mapsto> Symlink ''b'']"
    by (simp add: two_revisions_def fun_upd_twist)
  show "faults two_revisions = (\<lambda>_. None)" by (simp add: two_revisions_def)
  show "map_of ?t (revision_path ''/r'' n MetadataFile) \<noteq> Some (Symlink g)"
    by (auto simp: look revision_path_def path_join_def MetadataFile_def split: if_splits)
  have "map_of ?t (resolve ?t (revision_path ''/r'' n MetadataFile)) = (if n \<in> {''a'', ''b''} then Some (File n) else None)"
    by (auto simp: look revision_path_def path_join_def resolve_def MetadataFile_def split: if_splits)
  then show "(\<exists>d. map_of ?t (resolve ?t (revision_path ''/r'' n MetadataFile)) = Some (File d) \<and> P d) \<longleftrightarrow> n \<in> {''a'', ''b''} \<and> P n"
    by simp
  show d: "is_dir ?t (path_join ''/r'' n) \<longleftrightarrow> n \<in> {''a'', ''b'', ''c''}" for n
    by (auto simp: is_dir_def look path_join_def split: if_splits)
  have "map_of ?t (path_join ''/r'' k) = Some (Symlink g) \<Longrightarrow> k = ''current''" for k g
    by (auto simp: look path_join_def split: if_splits)
  moreover have "map_of ?t (path_join ''/r'' k) = None \<Longrightarrow> map_of ?t (revision_path ''/r'' k ConfigFile) = None \<and>
      map_of ?t (revision_path ''/r'' k MetadataFile) = None" for k
    by (auto simp: look path_join_def revision_path_def ConfigFile_def MetadataFile_def split: if_splits)
  moreover have "path_prefixes ''/r'' = [''/r'']" by code_simp
  moreover have "is_dir ?t ''/r''" by (simp add: look is_dir_def)
  ultimately show "store_tree ?t ''/r''"
    using d [of "''current''"] entry_name_not_current by (fastforce simp: store_tree_def)
qed

theorem previous_revision_witness:
  "fst (Previous letter_decode by_timestamp (NewStore ''/r'') two_revisions) = ''a''"
proof -
  let ?st = "NewStore ''/r''" and ?t = "nodes two_revisions"
  have h: "faults two_revisions = (\<lambda>_. None)" "is_dir ?t (st_Dir ?st)" "st_Dir ?st \<noteq> []"
    by (simp_all add: two_revisions_def NewStore_def is_dir_def)
  have st: "stored letter_decode ?t ''/r'' n m \<longleftrightarrow> n \<in> {''a'', ''b''} \<and> letter_decode n = Inr m" for n m
    by (auto simp: stored_def two_revisions_facts(4,5))
  note nolink = two_revisions_facts(3)
  have filled: "store_filled letter_decode ?t (st_Dir ?st)"
    using nolink by (auto simp: store_filled_def st NewStore_def letter_decode_def)
  have cur: "stored letter_decode ?t (st_Dir ?st) (fst (Current ?st two_revisions)) (projr (letter_decode ''b''))"
  proof -
    have "fst (Current ?st two_revisions) = ''b''" by code_simp
    then show ?thesis by (simp add: st NewStore_def letter_decode_def)
  qed
  have old: "stored letter_decode ?t (st_Dir ?st) ''a'' (projr (letter_decode ''a'')) \<and>
      newer (projr (letter_decode ''b'')) (projr (letter_decode ''a''))"
    by (simp add: st NewStore_def letter_decode_def newer_def less_utc_time_def time_key_def)
  from previous_revision [OF h by_timestamp_sorts filled cur] old obtain m where
    "stored letter_decode ?t ''/r'' (fst (Previous letter_decode by_timestamp ?st two_revisions)) m"
    "newer (projr (letter_decode ''b'')) m"
    by (auto simp: NewStore_def split: if_splits)
  then show ?thesis by (auto simp: st letter_decode_def newer_def less_utc_time_def time_key_def)
qed


definition letter_encode :: "metadata \<Rightarrow> string + bytes" where
  "letter_encode m = Inr (CHR ''x'' # md_ID m)"

definition any_decode :: "bytes \<Rightarrow> string + metadata" where
  "any_decode d = (if take 1 d = ''x'' then id_decode sample_time [] [] (tl d) else letter_decode d)"


text \<open>The link to the current revision is not replaced atomically: just before the last call of every
  successful save the store has no current revision, so after a crash there, as after a failing
  \<^verbatim>\<open>os.Symlink\<close>, the program believes that nothing was ever applied.\<close>

theorem save_gap:
  assumes "Save encode digest now st content comment s = Some (Inr rid, s')"
  shows "map_of (seen s' ! 1) (path_join (st_Dir st) ''current'') = None \<and>
    (\<forall>u. nodes u = seen s' ! 1 \<longrightarrow> fst (Current st u) = [])"
proof -
  let ?l = "path_join (st_Dir st) ''current''"
  obtain r2 s2 where w: "write_revision encode (st_Dir st)
      \<lparr>md_ID = r2, md_Timestamp = now, md_SHA256 = digest content, md_Comment = comment\<rparr> content s2 = (Inr rid, s')"
    using assms by (auto simp: Save_def split: prod.splits option.splits)
  then obtain s3 where l: "os_Symlink r2 ?l (snd (os_Remove ?l s3)) = (None, s')"
    by (auto simp: write_revision_def Let_def split: prod.splits option.splits sum.splits)
  obtain t where t: "snd (os_Remove ?l s3) = end_call t s3" using os_Remove_call by (metis prod.collapse)
  with l have "map_of t ?l = None" "s' = end_call (AList.update ?l (Symlink r2) t) (end_call t s3)"
    by (auto simp: os_Symlink_def split: if_splits)
  then show ?thesis by (auto simp: Current_def os_Readlink_def Let_def split: option.splits)
qed

theorem save_gap_witness:
  "\<exists>s'. Save letter_encode (\<lambda>_. []) sample_time (NewStore ''/r'') ''y'' [] two_revisions = Some (Inr (time_id sample_time), s') \<and>
     fst (Current (NewStore ''/r'') (s'\<lparr>nodes := seen s' ! 1\<rparr>)) = []"
proof -
  let ?st = "NewStore ''/r''"
  have dir: "st_Dir ?st = ''/r''" by (simp add: NewStore_def)
  have tree: "store_tree (nodes two_revisions) (st_Dir ?st)" using two_revisions_facts(2) by (simp add: dir)
  have enc: "\<And>m. \<exists>d. letter_encode m = Inr d" by (simp add: letter_encode_def)
  from Save_ok [where encode = letter_encode and digest = "\<lambda>_. []" and now = sample_time and content = "''y''" and comment = "[]",
    OF two_revisions_facts(1) tree enc]
  obtain n s' where S: "Save letter_encode (\<lambda>_. []) sample_time ?st ''y'' [] two_revisions = Some (Inr (id_at (time_id sample_time) n), s')"
    "\<forall>l < n. map_of (nodes two_revisions) (path_join ''/r'' (id_at (time_id sample_time) l)) \<noteq> None"
    unfolding Let_def dir by blast
  have "map_of (nodes two_revisions) (path_join ''/r'' (id_at (time_id sample_time) 0)) = None" by code_simp
  with S(2) have "n = 0" by (metis gr0I)
  with S(1) have s: "Save letter_encode (\<lambda>_. []) sample_time ?st ''y'' [] two_revisions = Some (Inr (time_id sample_time), s')"
    by (simp only: id_at_def if_True simp_thms)
  show ?thesis using s save_gap [OF s] by (intro exI [of _ s']) simp
qed

end
