(* ===== verification/Lock.thy ===== *)
theory Lock
  imports GoOS
begin

text \<open>
  \<^verbatim>\<open>AcquireLock\<close> of \<^verbatim>\<open>internal/apply/apply.go\<close>: the file lock that keeps two runs of
  \<^verbatim>\<open>warp apply\<close> or \<^verbatim>\<open>warp rollback\<close> apart. First the calls one process makes, for the
  commands; then all processes together, as a step relation at the level of inodes: \<^verbatim>\<open>flock\<close> locks the
  open inode, while the path may come to name another one.
\<close>

section \<open>One process\<close>

definition LockFilePath :: string where "LockFilePath = ''/run/warp-apply.lock''"

datatype lock_error = OpeningLockFile errno | AlreadyRunning

text \<open>\<^verbatim>\<open>os.OpenFile\<close> with \<^verbatim>\<open>O_CREATE|O_RDWR\<close>: an existing file is opened as it is.\<close>

definition os_OpenCreate :: "string \<Rightarrow> os \<Rightarrow> errno option \<times> os" where
  "os_OpenCreate p s =
     (if call_fate s \<noteq> None then (Some EIO, end_call (nodes s) s)
      else if is_dir (nodes s) p then (Some EISDIR, end_call (nodes s) s)
      else if map_of (nodes s) p \<noteq> None then (None, end_call (nodes s) s)
      else if \<not> is_dir (nodes s) (path_dir p) then (Some ENOENT, end_call (nodes s) s)
      else (None, end_call (AList.update p (File []) (nodes s)) s))"

text \<open>\<open>busy\<close>: whether \<^verbatim>\<open>flock\<close> is refused.\<close>

definition AcquireLock :: "bool \<Rightarrow> os \<Rightarrow> lock_error option \<times> os" where
  "AcquireLock busy s =
     (case os_OpenCreate LockFilePath s of
        (Some e, s1) \<Rightarrow> (Some (OpeningLockFile e), s1)
      | (None, s1) \<Rightarrow> (if busy then (Some AlreadyRunning, s1) else (None, s1)))"

text \<open>The cleanup function it returns.\<close>

definition unlock :: "os \<Rightarrow> os" where
  "unlock s = snd (os_Remove LockFilePath s)"

section \<open>All processes\<close>

text \<open>Where a process is in \<^verbatim>\<open>AcquireLock\<close> or in the cleanup, and the inode it has open.\<close>

datatype place =
    Outside
  | Opened nat
  | Holding nat
  | Unlocked nat
  | Closed

record lock_state =
  linked :: "nat option"
  inodes :: nat
  owner :: "nat \<Rightarrow> nat option"
  place_of :: "nat \<Rightarrow> place"

definition lock_init :: lock_state where
  "lock_init = \<lparr>linked = None, inodes = 0, owner = (\<lambda>_. None), place_of = (\<lambda>_. Outside)\<rparr>"

definition move :: "nat \<Rightarrow> place \<Rightarrow> lock_state \<Rightarrow> lock_state" where
  "move p l s = s\<lparr>place_of := (place_of s)(p := l)\<rparr>"

text \<open>What closing a file, by the program or at process exit, does to its lock.\<close>

definition release :: "nat \<Rightarrow> lock_state \<Rightarrow> lock_state" where
  "release p s = s\<lparr>owner := (\<lambda>i. if owner s i = Some p then None else owner s i)\<rparr>"

text \<open>A step, and whether it removes the file.\<close>

inductive lock_step :: "lock_state \<Rightarrow> bool \<Rightarrow> lock_state \<Rightarrow> bool" where
  open_existing: "place_of s p = Outside \<Longrightarrow> linked s = Some i \<Longrightarrow> lock_step s False (move p (Opened i) s)"
| open_new: "place_of s p = Outside \<Longrightarrow> linked s = None \<Longrightarrow>
    lock_step s False (move p (Opened (inodes s)) (s\<lparr>linked := Some (inodes s), inodes := Suc (inodes s)\<rparr>))"
| flock: "place_of s p = Opened i \<Longrightarrow> owner s i = None \<Longrightarrow>
    lock_step s False (move p (Holding i) (s\<lparr>owner := (owner s)(i \<mapsto> p)\<rparr>))"
| flock_refused: "place_of s p = Opened i \<Longrightarrow> owner s i = Some q \<Longrightarrow> lock_step s False (move p Outside s)"
| unlock: "place_of s p = Holding i \<Longrightarrow> lock_step s False (move p (Unlocked i) (release p s))"
| close: "place_of s p = Unlocked i \<Longrightarrow> lock_step s False (move p Closed s)"
| remove: "place_of s p = Closed \<Longrightarrow> lock_step s True (move p Outside (s\<lparr>linked := None\<rparr>))"
| exit: "lock_step s False (move p Outside (release p s))"

text \<open>A run, with the number of times the cleanup removed the file.\<close>

inductive lock_run :: "nat \<Rightarrow> lock_state \<Rightarrow> bool" where
  start: "lock_run 0 lock_init"
| step: "lock_run n s \<Longrightarrow> lock_step s removed s' \<Longrightarrow> lock_run (if removed then Suc n else n) s'"

lemmas lock_simps = move_def release_def fun_upd_def

section \<open>What the lock guarantees\<close>

text \<open>A holder owns the lock of its inode; only existing inodes are linked or open; and while the file was
  never removed there is one inode at most.\<close>

definition lock_inv :: "nat \<Rightarrow> lock_state \<Rightarrow> bool" where
  "lock_inv n s \<longleftrightarrow> (\<forall>p i. place_of s p = Holding i \<longrightarrow> owner s i = Some p) \<and>
     (\<forall>p i. place_of s p \<in> {Opened i, Holding i} \<longrightarrow> i < inodes s) \<and>
     (\<forall>i. linked s = Some i \<longrightarrow> i < inodes s) \<and>
     (n = 0 \<longrightarrow> inodes s \<le> 1 \<and> (linked s = None \<longrightarrow> inodes s = 0))"

lemma lock_inv_init: "lock_inv 0 lock_init"
  by (simp add: lock_inv_def lock_init_def)

lemma lock_inv_step: "lock_step s removed s' \<Longrightarrow> lock_inv n s \<Longrightarrow> lock_inv (if removed then Suc n else n) s'"
proof (induction rule: lock_step.induct)
  case (open_new s p)
  then show ?case by (auto simp: lock_inv_def lock_simps less_Suc_eq)
qed (auto simp: lock_inv_def lock_simps)

lemma lock_run_inv: "lock_run n s \<Longrightarrow> lock_inv n s"
  by (induction rule: lock_run.induct) (simp_all only: lock_inv_init lock_inv_step)

text \<open>Runs, step by step, for the examples.\<close>

lemma lock_run_step: "lock_run n s \<Longrightarrow> lock_step s removed s' \<Longrightarrow> n' = (if removed then Suc n else n) \<Longrightarrow> lock_run n' s'"
  using lock_run.step by simp

section \<open>Properties\<close>

text \<open>C31. Two processes hold the lock at the same time only on two inodes, and as long as no cleanup has
  removed the lock file, at most one process holds it.\<close>

theorem lock_excludes:
  assumes "lock_run n s" "place_of s p = Holding i" "place_of s q = Holding j" "p \<noteq> q"
  shows "i \<noteq> j \<and> n \<noteq> 0"
proof -
  have inv: "lock_inv n s" by (rule lock_run_inv [OF assms(1)])
  then have "owner s i = Some p" "owner s j = Some q" "i < inodes s" "j < inodes s"
    using assms(2,3) unfolding lock_inv_def by blast+
  moreover have "n = 0 \<Longrightarrow> inodes s \<le> 1" using inv by (simp add: lock_inv_def)
  ultimately have "i \<noteq> j" "n = 0 \<Longrightarrow> i = 0 \<and> j = 0" using assms(4) by auto
  then show ?thesis by auto
qed

definition race :: lock_state where
  "race = \<lparr>linked = Some 1, inodes = 2, owner = [0 \<mapsto> 1, 1 \<mapsto> 2],
     place_of = (\<lambda>p. if p = 1 then Holding 0 else if p = 2 then Holding 1 else Outside)\<rparr>"

lemma lock_race_run: "lock_run 1 race"
proof -
  note go = lock_run_step [where removed = False]
  let ?s0 = "\<lparr>linked = Some 0, inodes = 1, owner = Map.empty, place_of = (\<lambda>_. Outside)(0 := Opened 0)\<rparr>"
  have "lock_run 0 ?s0"
    by (rule go [OF lock_run.start, of _ 0]) (use lock_step.open_new [of lock_init 0] in \<open>simp_all add: lock_init_def move_def\<close>)
  let ?s1 = "?s0\<lparr>owner := [0 \<mapsto> 0], place_of := (\<lambda>_. Outside)(0 := Holding 0)\<rparr>"
  have "lock_run 0 ?s1"
    by (rule go [OF \<open>lock_run 0 ?s0\<close>]) (use lock_step.flock [of ?s0 0 0] in \<open>simp_all add: move_def\<close>)
  let ?s2 = "?s1\<lparr>place_of := (\<lambda>_. Outside)(0 := Holding 0, 1 := Opened 0)\<rparr>"
  have "lock_run 0 ?s2"
    by (rule go [OF \<open>lock_run 0 ?s1\<close>]) (use lock_step.open_existing [of ?s1 1 0] in \<open>simp_all add: move_def\<close>)
  let ?s3 = "?s2\<lparr>owner := Map.empty, place_of := (\<lambda>_. Outside)(0 := Unlocked 0, 1 := Opened 0)\<rparr>"
  have "release 0 ?s2 = ?s2\<lparr>owner := Map.empty\<rparr>" by (auto simp: release_def)
  then have "lock_run 0 ?s3"
    by (intro go [OF \<open>lock_run 0 ?s2\<close>])
       (use lock_step.unlock [of ?s2 0 0] in \<open>simp_all add: move_def fun_upd_twist\<close>)
  let ?s4 = "?s3\<lparr>owner := [0 \<mapsto> 1], place_of := (\<lambda>_. Outside)(0 := Unlocked 0, 1 := Holding 0)\<rparr>"
  have "lock_run 0 ?s4"
    by (rule go [OF \<open>lock_run 0 ?s3\<close>]) (use lock_step.flock [of ?s3 1 0] in \<open>simp_all add: move_def\<close>)
  let ?s5 = "?s4\<lparr>place_of := (\<lambda>_. Outside)(0 := Closed, 1 := Holding 0)\<rparr>"
  have "lock_run 0 ?s5"
    by (rule go [OF \<open>lock_run 0 ?s4\<close>]) (use lock_step.close [of ?s4 0 0] in \<open>simp_all add: move_def fun_upd_twist\<close>)
  let ?s6 = "?s5\<lparr>linked := None, place_of := (\<lambda>_. Outside)(1 := Holding 0)\<rparr>"
  have "lock_run 1 ?s6"
    by (rule lock_run_step [OF \<open>lock_run 0 ?s5\<close>, where removed = True])
       (use lock_step.remove [of ?s5 0] in \<open>simp_all add: move_def fun_upd_twist fun_upd_idem\<close>)
  let ?s7 = "?s6\<lparr>linked := Some 1, inodes := 2, place_of := (\<lambda>_. Outside)(1 := Holding 0, 2 := Opened 1)\<rparr>"
  have "lock_run 1 ?s7"
    by (rule go [OF \<open>lock_run 1 ?s6\<close>]) (use lock_step.open_new [of ?s6 2] in \<open>simp_all add: move_def numeral_2_eq_2\<close>)
  have "race = move 2 (Holding 1) (?s7\<lparr>owner := (owner ?s7)(1 \<mapsto> 2)\<rparr>)"
    by (auto simp: race_def move_def)
  then have "lock_step ?s7 False race" using lock_step.flock [of ?s7 2 1] by simp
  then show ?thesis by (rule go [OF \<open>lock_run 1 ?s7\<close>]) simp
qed

theorem lock_excludes_witness:
  "place_of race 1 = Holding 0 \<and> place_of race 2 = Holding 1 \<and> (0 :: nat) \<noteq> 1 \<and> (1 :: nat) \<noteq> 0"
proof -
  have "place_of race 1 = Holding 0" "place_of race 2 = Holding 1" by (simp_all add: race_def)
  with lock_excludes [OF lock_race_run this] show ?thesis by simp
qed

text \<open>C21. Mutual exclusion fails: the cleanup removes the lock file after it gave the lock up. A process that
  opened the file before the removal locks the removed inode, and the next one creates and locks a new
  file, while the first still runs.\<close>

theorem lock_race:
  "\<exists>s p q i j. lock_run 1 s \<and> p \<noteq> q \<and> place_of s p = Holding i \<and> place_of s q = Holding j"
  using lock_race_run by (intro exI [of _ race] exI [of _ 1] exI [of _ 2] exI [of _ 0] exI [of _ 1]) (simp add: race_def)

end
