(* ===== verification/Cli.thy ===== *)
theory Cli
  imports Footprint Revision Lock Monitor
begin

text \<open>
  The commands of \<^verbatim>\<open>cmd/warp/main.go\<close>. A command takes the machine and ends with an exit
  code, what it printed and the machine; what it prints is a list of values that hold the arguments
  of the message. \<^verbatim>\<open>os.Exit\<close> does not run deferred calls, so only a command that returns
  gives the lock up itself.
\<close>

section \<open>Environment and outcome\<close>

text \<open>What a run of the program is given besides its arguments and the machine: the libraries' decoders
  and encoders, the iteration orders and random names, the clock when a revision is saved, and whether
  another process holds the lock.\<close>

record env =
  ev_Yaml :: yaml_decoder
  ev_Encode :: "metadata \<Rightarrow> string + bytes"
  ev_Decode :: "bytes \<Rightarrow> string + metadata"
  ev_Digest :: "bytes \<Rightarrow> string"
  ev_Sorter :: slice_sort
  ev_Report :: "bytes \<Rightarrow> string + status_report"
  ev_Pick :: "os \<Rightarrow> string"
  ev_Its :: orders
  ev_Now :: utc_time
  ev_Busy :: bool

datatype message =
    Usage
  | UnknownCommand string
  | LoadError load_error
  | ValidationErrors "config_error list"
  | ConfigIsValid string
  | LockError lock_error
  | StepDone string
  | StepFailed string "apply_error option"
  | ReadingConfigFile errno
  | SaveWarning save_error
  | SavedRevision string
  | ApplyComplete
  | NoPreviousRevision
  | ReadingRevision string get_error
  | RollingBack string utc_time
  | ParsingStored load_error
  | RollbackComplete
  | ListingRevisions errno
  | NoRevisions
  | RevisionRow string utc_time string bool
  | NothingApplied
  | ReadingCurrent get_error
  | CurrentRevision string utc_time string
  | Comment string
  | UplinkRow string string string "rat option" int int

text \<open>\<^verbatim>\<open>NeverReturns\<close> stands for the endless search of \<^const>\<open>Save\<close>; the daemon of
  \<^const>\<open>cmdMonitor\<close> runs on once it has started.\<close>

datatype run =
    Exits nat "message list" os
  | NeverReturns
  | Daemon "monitor_error + monitor"

section \<open>The commands\<close>

definition defaultConfigPath :: string where "defaultConfigPath = ''/etc/warp/site.yaml''"

definition configPath :: "string list \<Rightarrow> string" where
  "configPath args = (if length args > 2 then args ! 2 else defaultConfigPath)"

definition cmdValidate :: "env \<Rightarrow> string \<Rightarrow> os \<Rightarrow> run" where
  "cmdValidate E path s =
     (case LoadFile (ev_Yaml E) path s of
        (Inl e, s1) \<Rightarrow> Exits 1 [LoadError e] s1
      | (Inr cfg, s1) \<Rightarrow>
          let errs = Validate cfg in
          if length errs > 0 then Exits 1 [ValidationErrors errs] s1
          else Exits 0 [ConfigIsValid path] s1)"

text \<open>The part that \<^verbatim>\<open>cmdApply\<close> and \<^verbatim>\<open>cmdRollback\<close> write out twice: take the lock, run the
  pipeline, report its steps.\<close>

definition locked_run :: "env \<Rightarrow> site_config \<Rightarrow> os \<Rightarrow> (message list + message list) \<times> os" where
  "locked_run E cfg s =
     (case AcquireLock (ev_Busy E) s of
        (Some e, s1) \<Rightarrow> (Inl [LockError e], s1)
      | (None, s1) \<Rightarrow>
          (case Execute (ev_Pick E) (ev_Its E) (NewPipeline (Some systemd_Reload)) cfg s1 of
             (result, s2) \<Rightarrow>
               let out = map StepDone (rs_Completed result) in
               if rs_Failed result \<noteq> []
               then (Inl (out @ [StepFailed (rs_Failed result) (rs_Err result)]), s2)
               else (Inr out, s2)))"

definition save_in :: "env \<Rightarrow> bytes \<Rightarrow> string \<Rightarrow> os \<Rightarrow> ((save_error + string) \<times> os) option" where
  "save_in E content comment s =
     Save (ev_Encode E) (ev_Digest E) (ev_Now E) (NewStore DefaultStoreDir) content comment s"

definition cmdApply :: "env \<Rightarrow> string \<Rightarrow> os \<Rightarrow> run" where
  "cmdApply E path s =
     (case LoadFile (ev_Yaml E) path s of
        (Inl e, s1) \<Rightarrow> Exits 1 [LoadError e] s1
      | (Inr cfg, s1) \<Rightarrow>
          let errs = Validate cfg in
          if length errs > 0 then Exits 1 [ValidationErrors errs] s1
          else case locked_run E cfg s1 of
              (Inl out, s2) \<Rightarrow> Exits 1 out s2
            | (Inr out, s2) \<Rightarrow>
                (case os_ReadFile path s2 of
                   (Inl e, s3) \<Rightarrow> Exits 1 (out @ [ReadingConfigFile e]) s3
                 | (Inr yamlData, s3) \<Rightarrow>
                     (case save_in E yamlData (''apply from '' @ path) s3 of
                        None \<Rightarrow> NeverReturns
                      | Some (saved, s4) \<Rightarrow>
                          Exits 0 (out @ [case saved of Inl e \<Rightarrow> SaveWarning e | Inr revID \<Rightarrow> SavedRevision revID,
                              ApplyComplete])
                            (unlock s4))))"

definition cmdRollback :: "env \<Rightarrow> os \<Rightarrow> run" where
  "cmdRollback E s =
     (let store = NewStore DefaultStoreDir in
      case Previous (ev_Decode E) (ev_Sorter E) store s of (prevID, s1) \<Rightarrow>
      if prevID = [] then Exits 1 [NoPreviousRevision] s1
      else case Get (ev_Decode E) store prevID s1 of
          (Inl e, s2) \<Rightarrow> Exits 1 [ReadingRevision prevID e] s2
        | (Inr (content, meta), s2) \<Rightarrow>
            let back = RollingBack (md_ID meta) (md_Timestamp meta) in
            case Parse (ev_Yaml E) content of
              Inl e \<Rightarrow> Exits 1 [back, ParsingStored e] s2
            | Inr cfg \<Rightarrow>
                (case locked_run E cfg s2 of
                   (Inl out, s3) \<Rightarrow> Exits 1 (back # out) s3
                 | (Inr out, s3) \<Rightarrow>
                     (case save_in E content (''rollback to '' @ prevID) s3 of
                        None \<Rightarrow> NeverReturns
                      | Some (saved, s4) \<Rightarrow>
                          Exits 0 (back # out @ (case saved of Inl e \<Rightarrow> [SaveWarning e] | Inr _ \<Rightarrow> []) @ [RollbackComplete])
                            (unlock s4))))"

definition cmdRevisions :: "env \<Rightarrow> os \<Rightarrow> run" where
  "cmdRevisions E s =
     (let store = NewStore DefaultStoreDir in
      case List_revisions (ev_Decode E) (ev_Sorter E) store s of
        (Inl e, s1) \<Rightarrow> Exits 1 [ListingRevisions e] s1
      | (Inr revisions, s1) \<Rightarrow>
          if length revisions = 0 then Exits 0 [NoRevisions] s1
          else case Current store s1 of
            (current, s2) \<Rightarrow>
              Exits 0 (map (\<lambda>rev. RevisionRow (md_ID rev) (md_Timestamp rev) (md_Comment rev) (md_ID rev = current)) revisions) s2)"

definition uplink_row :: "uplink_status \<Rightarrow> message" where
  "uplink_row u = UplinkRow (ul_Name u) (ul_Status u) (ul_Target u)
     (if ul_LastLatencyMs u > 0 then Some (ul_LastLatencyMs u) else None) (ul_TotalProbes u) (ul_TotalFailures u)"

definition cmdStatus :: "env \<Rightarrow> os \<Rightarrow> run" where
  "cmdStatus E s =
     (let store = NewStore DefaultStoreDir in
      case Current store s of (current, s1) \<Rightarrow>
      if current = [] then Exits 0 [NothingApplied] s1
      else case Get (ev_Decode E) store current s1 of
          (Inl e, s2) \<Rightarrow> Exits 1 [ReadingCurrent e] s2
        | (Inr (_, meta), s2) \<Rightarrow>
            let out = CurrentRevision (md_ID meta) (md_Timestamp meta) (md_SHA256 meta) #
                (if md_Comment meta \<noteq> [] then [Comment (md_Comment meta)] else [])
            in case ReadStatusFile (ev_Report E) StatusFilePath s2 of
                 (Inl _, s3) \<Rightarrow> Exits 0 out s3
               | (Inr report, s3) \<Rightarrow>
                   Exits 0 (if length (sr_Uplinks report) > 0 then out @ map uplink_row (sr_Uplinks report) else out) s3)"

text \<open>\<open>args\<close> is \<^verbatim>\<open>os.Args\<close>.\<close>

definition main :: "env \<Rightarrow> string list \<Rightarrow> os \<Rightarrow> run" where
  "main E args s =
     (if length args < 2 then Exits 1 [Usage] s
      else let command = args ! 1 in
        if command = ''validate'' then cmdValidate E (configPath args) s
        else if command = ''apply'' then cmdApply E (configPath args) s
        else if command = ''rollback'' then cmdRollback E s
        else if command = ''revisions'' then cmdRevisions E s
        else if command = ''status'' then cmdStatus E s
        else if command = ''monitor'' then Daemon (cmdMonitor (ev_Yaml E) (ev_Its E) (configPath args) s)
        else Exits 1 [UnknownCommand command, Usage] s)"

section \<open>Taking the lock\<close>

lemma AcquireLock_keeps:
  assumes "AcquireLock b s = (r, s')"
  shows "q \<noteq> LockFilePath \<Longrightarrow> map_of (nodes s') q = map_of (nodes s) q" "faults s' = faults s" "answer s' = answer s"
  using assms by (auto simp: AcquireLock_def os_OpenCreate_def split: prod.splits option.splits if_splits)

lemma lock_paths: "take 4 LockFilePath \<noteq> ''/etc''" "take (length DefaultStoreDir) LockFilePath \<noteq> DefaultStoreDir"
  by code_simp+

lemma lock_same_etc: "AcquireLock b s = (r, s') \<Longrightarrow> same_etc (nodes s) (nodes s')" "same_etc (nodes s) (nodes (unlock s))"
proof -
  show "AcquireLock b s = (r, s') \<Longrightarrow> same_etc (nodes s) (nodes s')"
    using AcquireLock_keeps(1) lock_paths(1) unfolding same_etc_def by metis
  show "same_etc (nodes s) (nodes (unlock s))"
    unfolding same_etc_def unlock_def using os_calls_keep_snd(2) lock_paths(1) by metis
qed

lemma AcquireLock_ok:
  assumes "faults s = (\<lambda>_. None)" "is_dir (nodes s) ''/run''" "\<not> is_dir (nodes s) LockFilePath"
  shows "\<exists>s'. AcquireLock False s = (None, s') \<and> \<not> is_dir (nodes s') LockFilePath"
proof -
  have "path_dir LockFilePath = ''/run''" by code_simp
  with assms show ?thesis by (auto simp: AcquireLock_def os_OpenCreate_def call_fate_def is_dir_def)
qed

lemma unlock_keeps:
  "q \<noteq> LockFilePath \<Longrightarrow> map_of (nodes (unlock s)) q = map_of (nodes s) q" "faults (unlock s) = faults s" "answer (unlock s) = answer s"
  by (simp_all add: unlock_def os_calls_keep_snd(2))

lemma etc_not_store: "take 4 q = ''/etc'' \<Longrightarrow> take (length DefaultStoreDir) q \<noteq> DefaultStoreDir"
proof
  assume q: "take 4 q = ''/etc''" "take (length DefaultStoreDir) q = DefaultStoreDir"
  have D: "take 4 DefaultStoreDir = ''/var''" "min 4 (length DefaultStoreDir) = 4" by code_simp+
  have "take 4 (take (length DefaultStoreDir) q) = ''/var''" using q(2) D(1) by simp
  with q(1) D(2) show False by (simp add: take_take)
qed


section \<open>The files of a run\<close>

text \<open>Every configuration file holds what its renderer makes of the configuration.\<close>

definition installed :: "site_config \<Rightarrow> tree \<Rightarrow> bool" where
  "installed cfg t \<longleftrightarrow> (\<forall>st \<in> set (pl_Steps default_pipeline). \<exists>c. st_Render st cfg = Inr c \<and>
     map_of t (st_ConfigPath st) = Some (File c))"

lemma installed_same_etc: "installed cfg t \<Longrightarrow> same_etc t t' \<Longrightarrow> installed cfg t'"
  using default_paths(1) unfolding installed_def same_etc_def paths_of_def by (metis imageI)

definition env_ok :: "env \<Rightarrow> bool" where
  "env_ok E \<longleftrightarrow> pick_ok (ev_Pick E) \<and> good_orders (ev_Its E) \<and> sorts_newest (ev_Sorter E)"

lemma default_names: "\<forall>st \<in> set (pl_Steps default_pipeline). st_Name st \<noteq> []"
  "pl_Steps default_pipeline \<noteq> []"
  by (simp_all add: default_pipeline_def NewPipeline_def)

lemma locked_run_Inr:
  assumes "locked_run E cfg s = (Inr out, s')" "env_ok E" "ready (pl_Steps default_pipeline) (nodes s)"
  obtains s1 res where "AcquireLock (ev_Busy E) s = (None, s1)"
    "Execute (ev_Pick E) (ev_Its E) default_pipeline cfg s1 = (res, s')" "rs_Err res = None"
    "out = map (StepDone \<circ> st_Name) (pl_Steps default_pipeline)" "same_etc (nodes s) (nodes s1)"
    "ready (pl_Steps default_pipeline) (nodes s1)" "installed cfg (nodes s')"
proof -
  obtain s1 where a: "AcquireLock (ev_Busy E) s = (None, s1)"
    using assms(1) by (cases "AcquireLock (ev_Busy E) s") (auto simp: locked_run_def split: option.splits)
  obtain res s2 where x: "Execute (ev_Pick E) (ev_Its E) default_pipeline cfg s1 = (res, s2)" by fastforce
  from assms(1) a x have o: "rs_Failed res = []" "out = map StepDone (rs_Completed res)" "s2 = s'"
    by (auto simp: locked_run_def default_pipeline_def Let_def split: if_splits)
  have env: "pick_ok (ev_Pick E)" "some_order (ev_Its E 2)" using assms(2) by (simp_all add: env_ok_def)
  have ok: "rs_Err res = None"
    using Execute_failed [OF x default_pipeline_ok(1) env(1) default_pipeline_ok(2) default_names(1)] o(1) by blast
  note etc = lock_same_etc(1) [OF a]
  have r1: "ready (pl_Steps default_pipeline) (nodes s1)" by (rule same_etc_default(1) [OF etc assms(3)])
  note X = Execute_installs [OF x ok default_pipeline_ok(1) r1 env(1) default_pipeline_ok(2) env(2)]
  have "rs_Completed res = map st_Name (pl_Steps default_pipeline)" using X default_names(2) by (metis list.set_sel(1))
  moreover have "installed cfg (nodes s2)" using X unfolding installed_def by blast
  ultimately show thesis using that [OF a _ ok _ etc r1] x o by simp
qed

text \<open>Outside its footprint and the lock file a run changes nothing, whether it ends well or not.\<close>

lemma locked_run_keeps:
  assumes "locked_run E cfg s = (r, s')" "env_ok E" "ready (pl_Steps default_pipeline) (nodes s)"
    "\<not> footprint (pl_Steps default_pipeline) q" "q \<noteq> LockFilePath"
  shows "map_of (nodes s') q = map_of (nodes s) q" "faults s' = faults s" "answer s' = answer s"
proof -
  obtain e s1 where a: "AcquireLock (ev_Busy E) s = (e, s1)" by fastforce
  note A = AcquireLock_keeps [OF a]
  have "map_of (nodes s') q = map_of (nodes s) q \<and> faults s' = faults s \<and> answer s' = answer s"
  proof (cases e)
    case (Some x)
    with a assms(1) A assms(5) show ?thesis by (auto simp: locked_run_def)
  next
    case None
    obtain res s2 where x: "Execute (ev_Pick E) (ev_Its E) default_pipeline cfg s1 = (res, s2)" by fastforce
    have "s' = s2" using a None x assms(1) by (auto simp: locked_run_def default_pipeline_def Let_def split: if_splits)
    moreover have "ready (pl_Steps default_pipeline) (nodes s1)"
      by (rule same_etc_default(1) [OF lock_same_etc(1) [OF a] assms(3)])
    note Execute_keeps [OF x default_pipeline_ok(1) this _ default_pipeline_ok(2) _ assms(4)]
      Execute_answer [OF x default_reloader]
    ultimately show ?thesis using assms(2,5) A by (simp add: env_ok_def)
  qed
  then show "map_of (nodes s') q = map_of (nodes s) q" "faults s' = faults s" "answer s' = answer s" by simp_all
qed

section \<open>The store of the commands\<close>

abbreviation the_store :: store where
  "the_store \<equiv> NewStore DefaultStoreDir"

definition same_var :: "tree \<Rightarrow> tree \<Rightarrow> bool" where
  "same_var t t' \<longleftrightarrow> (\<forall>q. take 4 q = ''/var'' \<longrightarrow> map_of t' q = map_of t q)"

lemma same_var_trans: "same_var t t' \<Longrightarrow> same_var t' t'' \<Longrightarrow> same_var t t''"
  by (simp add: same_var_def)

lemma var_paths: "take 4 (path_join DefaultStoreDir n) = ''/var''" "take 4 (revision_path DefaultStoreDir n f) = ''/var''"
  "\<forall>q \<in> set (path_prefixes DefaultStoreDir). take 4 q = ''/var''" "st_Dir the_store = DefaultStoreDir"
proof -
  show "\<forall>q \<in> set (path_prefixes DefaultStoreDir). take 4 q = ''/var''" by code_simp
qed (simp_all add: path_join_def revision_path_def DefaultStoreDir_def NewStore_def)

lemma same_var_store:
  assumes "same_var t t'"
  shows "store_tree t DefaultStoreDir \<Longrightarrow> store_tree t' DefaultStoreDir"
    "store_filled decode t DefaultStoreDir \<Longrightarrow> stored decode t' DefaultStoreDir n m \<longleftrightarrow> stored decode t DefaultStoreDir n m"
    "store_filled decode t DefaultStoreDir \<Longrightarrow> store_filled decode t' DefaultStoreDir"
    "revision_at decode t DefaultStoreDir n c m \<Longrightarrow> revision_at decode t' DefaultStoreDir n c m"
proof -
  have same: "map_of t' q = map_of t q" if "take 4 q = ''/var''" for q using assms that by (simp add: same_var_def)
  note eqs = same [OF var_paths(1)] same [OF var_paths(2)]
  show "store_tree t DefaultStoreDir \<Longrightarrow> store_tree t' DefaultStoreDir"
    using same var_paths(3) by (simp add: store_tree_def is_dir_def eqs)
  show st: "stored decode t' DefaultStoreDir n m \<longleftrightarrow> stored decode t DefaultStoreDir n m"
    if "store_filled decode t DefaultStoreDir" for n m
  proof -
    have "map_of t (revision_path DefaultStoreDir n MetadataFile) \<noteq> Some (Symlink g)" for g
      using that by (simp add: store_filled_def)
    then have "resolve t (revision_path DefaultStoreDir n MetadataFile) = revision_path DefaultStoreDir n MetadataFile"
      "resolve t' (revision_path DefaultStoreDir n MetadataFile) = revision_path DefaultStoreDir n MetadataFile"
      by (auto simp: resolve_def eqs split: option.splits node.splits)
    then show ?thesis by (simp add: stored_def is_dir_def eqs)
  qed
  show "store_filled decode t DefaultStoreDir \<Longrightarrow> store_filled decode t' DefaultStoreDir"
    by (simp add: store_filled_def [of decode t'] st eqs) (simp add: store_filled_def)
  show "revision_at decode t DefaultStoreDir n c m \<Longrightarrow> revision_at decode t' DefaultStoreDir n c m"
    by (simp add: revision_at_def is_dir_def eqs)
qed

lemma Current_same: "faults s = (\<lambda>_. None) \<Longrightarrow> faults s' = (\<lambda>_. None) \<Longrightarrow> same_var (nodes s) (nodes s') \<Longrightarrow>
    fst (Current the_store s') = fst (Current the_store s)"
  using var_paths(1) [of "''current''"]
  by (simp add: Current_def os_Readlink_def call_fate_def Let_def var_paths(4) same_var_def split: option.splits node.splits)

lemma unlock_same_var: "same_var (nodes s) (nodes (unlock s))"
proof -
  have "take 4 LockFilePath \<noteq> ''/var''" by code_simp
  then show ?thesis using unlock_keeps(1) unfolding same_var_def by metis
qed

lemma locked_run_same_var:
  assumes "locked_run E cfg s = (r, s')" "env_ok E" "ready (pl_Steps default_pipeline) (nodes s)"
  shows "same_var (nodes s) (nodes s')"
  unfolding same_var_def
proof (intro allI impI)
  fix q assume q: "take 4 q = ''/var''"
  have "take 4 LockFilePath \<noteq> ''/var''" by code_simp
  with q have "q \<noteq> LockFilePath" by auto
  moreover have "\<not> footprint (pl_Steps default_pipeline) q" using default_footprint [of q] q by auto
  ultimately show "map_of (nodes s') q = map_of (nodes s) q" using locked_run_keeps(1) [OF assms] by blast
qed

text \<open>The encoding of the metadata of one save can be read back.\<close>

definition saves_ok :: "env \<Rightarrow> bytes \<Rightarrow> string \<Rightarrow> bool" where
  "saves_ok E content comment \<longleftrightarrow> (\<forall>m. md_Timestamp m = ev_Now E \<longrightarrow> md_SHA256 m = ev_Digest E content \<longrightarrow>
     md_Comment m = comment \<longrightarrow> (\<exists>d. ev_Encode E m = Inr d \<and> ev_Decode E d = Inr m))"

text \<open>A machine for the commands: no call fails, the files of the pipeline and the store are in order, and
  the clock is past the times of all revisions.\<close>

definition prepared :: "env \<Rightarrow> os \<Rightarrow> bool" where
  "prepared E s \<longleftrightarrow> env_ok E \<and> faults s = (\<lambda>_. None) \<and> ready (pl_Steps default_pipeline) (nodes s) \<and>
     store_tree (nodes s) DefaultStoreDir \<and> store_filled (ev_Decode E) (nodes s) DefaultStoreDir \<and>
     (\<forall>n m. stored (ev_Decode E) (nodes s) DefaultStoreDir n m \<longrightarrow> md_Timestamp m < ev_Now E)"

lemma prepared_same:
  assumes "prepared E s" "same_etc (nodes s) (nodes s')" "same_var (nodes s) (nodes s')" "faults s' = faults s"
  shows "prepared E s'"
  using assms same_etc_default(1) [OF assms(2)] same_var_store [OF assms(3)] by (simp add: prepared_def)

lemma revision_at_save:
  assumes "revision_at decode t dir k c m" "\<not> is_dir t (path_join dir ''current'')" "dir \<noteq> []"
    "\<And>q. map_of t q \<noteq> None \<Longrightarrow> q \<noteq> path_join dir ''current'' \<Longrightarrow> map_of t' q = map_of t q"
  shows "revision_at decode t' dir k c m"
proof -
  have "revision_path dir k f \<noteq> path_join dir ''current''" if "CHR ''/'' \<notin> set f" "f \<noteq> ''current''" for f
    using path_join_inject [of f "''current''" "path_join dir k" dir] that assms(3) by (auto simp: revision_path_def)
  then have "revision_path dir k MetadataFile \<noteq> path_join dir ''current''" "revision_path dir k ConfigFile \<noteq> path_join dir ''current''"
    by (simp_all add: MetadataFile_def ConfigFile_def)
  moreover have "path_join dir k \<noteq> path_join dir ''current''" using assms(1,2) by (auto simp: revision_at_def)
  ultimately show ?thesis
    using assms(1) assms(4) [of "path_join dir k"] assms(4) [of "revision_path dir k MetadataFile"]
      assms(4) [of "revision_path dir k ConfigFile"]
    by (auto simp: revision_at_def is_dir_def)
qed

text \<open>A completed run and the save after it.\<close>

lemma run_and_save:
  assumes "prepared E s" "locked_run E cfg s = (Inr out, s2)" "nodes s3 = nodes s2" "faults s3 = faults s2"
    "saves_ok E content comment" "save_in E content comment s3 = Some (saved, s4)"
  obtains n rid meta where "saved = Inr rid" "rid = id_at (time_id (ev_Now E)) n"
    "meta = \<lparr>md_ID = rid, md_Timestamp = ev_Now E, md_SHA256 = ev_Digest E content, md_Comment = comment\<rparr>"
    "faults (unlock s4) = (\<lambda>_. None)" "store_tree (nodes (unlock s4)) DefaultStoreDir"
    "store_filled (ev_Decode E) (nodes (unlock s4)) DefaultStoreDir" "fst (Current the_store (unlock s4)) = rid"
    "\<And>k m. stored (ev_Decode E) (nodes (unlock s4)) DefaultStoreDir k m \<longleftrightarrow>
       (k = rid \<and> m = meta) \<or> stored (ev_Decode E) (nodes s) DefaultStoreDir k m"
    "revision_at (ev_Decode E) (nodes (unlock s4)) DefaultStoreDir rid content meta"
    "\<And>k c m. revision_at (ev_Decode E) (nodes s) DefaultStoreDir k c m \<Longrightarrow>
       revision_at (ev_Decode E) (nodes (unlock s4)) DefaultStoreDir k c m"
    "installed cfg (nodes (unlock s4))" "same_etc (nodes s2) (nodes (unlock s4))"
    "out = map (StepDone \<circ> st_Name) (pl_Steps default_pipeline)"
    "\<And>q. take (length DefaultStoreDir) q \<noteq> DefaultStoreDir \<Longrightarrow> map_of (nodes s4) q = map_of (nodes s2) q"
    "\<forall>l < n. map_of (nodes s) (path_join DefaultStoreDir (id_at (time_id (ev_Now E)) l)) \<noteq> None"
proof -
  let ?D = DefaultStoreDir
  have p: "env_ok E" "faults s = (\<lambda>_. None)" "ready (pl_Steps default_pipeline) (nodes s)" "store_tree (nodes s) ?D"
    "store_filled (ev_Decode E) (nodes s) ?D" "\<And>n m. stored (ev_Decode E) (nodes s) ?D n m \<Longrightarrow> md_Timestamp m < ev_Now E"
    using assms(1) by (simp_all add: prepared_def)
  obtain s1 res where r: "out = map (StepDone \<circ> st_Name) (pl_Steps default_pipeline)" "installed cfg (nodes s2)"
    by (rule locked_run_Inr [OF assms(2) p(1,3)])
  have v: "same_var (nodes s) (nodes s3)" using locked_run_same_var [OF assms(2) p(1,3)] assms(3) by simp
  have f3: "faults s3 = (\<lambda>_. None)"
    using locked_run_keeps(2) [OF assms(2) p(1,3), of "''/var''"] default_footprint [of "''/var''"] p(2) assms(4)
    by (auto simp: LockFilePath_def)
  have st3: "store_tree (nodes s3) (st_Dir the_store)" "store_filled (ev_Decode E) (nodes s3) (st_Dir the_store)"
    using same_var_store(1) [OF v p(4)] same_var_store(3) [OF v p(5)] var_paths(4) by simp_all
  have law: "\<exists>d. ev_Encode E m = Inr d \<and> ev_Decode E d = Inr m"
    if "md_Timestamp m = ev_Now E" "md_SHA256 m = ev_Digest E content" "md_Comment m = comment" for m
    using assms(5) that by (simp add: saves_ok_def)
  have times: "md_Timestamp m < ev_Now E" if "stored (ev_Decode E) (nodes s3) (st_Dir the_store) n m" for n m
    using that p(6) same_var_store(2) [OF v p(5)] var_paths(4) by simp
  show thesis
  proof (rule Save_filled [where encode = "ev_Encode E" and digest = "ev_Digest E" and now = "ev_Now E" and content = content
        and comment = comment, OF f3 st3], erule (2) law, erule times, goal_cases)
    case (1 n rid meta s')
    have s4: "saved = Inr rid" "s4 = s'" using 1(1) assms(6) by (simp_all add: save_in_def)
    note S = 1(2-12) [folded s4(2), unfolded var_paths(4)]
    note u = unlock_same_var [of s4]
    have etc: "same_etc (nodes s2) (nodes (unlock s4))"
    proof -
      have "map_of (nodes s4) q = map_of (nodes s2) q" if "take 4 q = ''/etc''" for q
        using S(10) [OF etc_not_store [OF that]] assms(3) by simp
      then show ?thesis using lock_same_etc(2) [of s4] by (simp add: same_etc_def)
    qed
    have cur: "fst (Current the_store (unlock s4)) = rid"
      using Current_same [OF S(3) _ u] S(3,6) by (simp add: unlock_keeps(2))
    have at: "revision_at (ev_Decode E) (nodes (unlock s4)) ?D k c m"
      if "revision_at (ev_Decode E) (nodes s) ?D k c m" for k c m
      using revision_at_save [OF same_var_store(4) [OF v that] _ _ S(9)] st3(1) same_var_store(4) [OF u] var_paths(4)
      by (simp add: store_tree_def)
    have far: "map_of (nodes s4) q = map_of (nodes s2) q" if "take (length ?D) q \<noteq> ?D" for q
      using S(10) [OF that] assms(3) by simp
    have first: "\<forall>l < n. map_of (nodes s) (path_join ?D (id_at (time_id (ev_Now E)) l)) \<noteq> None"
      using S(11) v var_paths(1) by (simp add: same_var_def)
    show thesis
      by (rule that [OF s4(1) S(1,2) _ same_var_store(1) [OF u S(4)] same_var_store(3) [OF u S(5)] cur _
            same_var_store(4) [OF u S(8)] at installed_same_etc [OF r(2) etc] etc r(1) far first])
        (use S(3,7) same_var_store(2) [OF u S(5)] same_var_store(2) [OF v p(5)] in \<open>simp_all add: unlock_keeps(2)\<close>)
  qed
qed

section \<open>The commands that change the machine\<close>

text \<open>The site configuration is a regular file that a run does not write.\<close>

definition site_file :: "tree \<Rightarrow> string \<Rightarrow> bytes \<Rightarrow> bool" where
  "site_file t path data \<longleftrightarrow> map_of t path = Some (File data) \<and>
     \<not> footprint (pl_Steps default_pipeline) path \<and> path \<noteq> LockFilePath"

lemma LoadFile_site:
  assumes "site_file (nodes s) path data" "faults s = (\<lambda>_. None)"
  shows "LoadFile (ev_Yaml E) path s = (Parse (ev_Yaml E) data, end_call (nodes s) s)"
  using os_ReadFile_ok [of s path data] assms by (simp add: LoadFile_def site_file_def call_fate_def)

lemma prepared_call: "prepared E s \<Longrightarrow> prepared E (end_call (nodes s) s)"
  by (rule prepared_same) (simp_all add: same_etc_def same_var_def)

lemma Parse_Inr: "Parse decode data = Inr cfg \<longleftrightarrow> decode data = Inr cfg"
  by (simp add: Parse_def split: sum.split)

text \<open>A successful \<^const>\<open>cmdApply\<close>, taken apart.\<close>

lemma cmdApply_cases:
  assumes "cmdApply E path s = r" "prepared E s" "site_file (nodes s) path data"
  obtains (refused) out where "r = Exits 1 out (end_call (nodes s) s)"
  | (failed) cfg out s2 where "ev_Yaml E data = Inr cfg" "Validate cfg = []"
      "locked_run E cfg (end_call (nodes s) s) = (Inl out, s2)" "r = Exits 1 out s2"
  | (endless) "r = NeverReturns"
  | (saved) cfg out s2 saved s4 where "ev_Yaml E data = Inr cfg" "Validate cfg = []"
      "locked_run E cfg (end_call (nodes s) s) = (Inr out, s2)"
      "save_in E data (''apply from '' @ path) (end_call (nodes s2) s2) = Some (saved, s4)"
      "r = Exits 0 (out @ [case saved of Inl e \<Rightarrow> SaveWarning e | Inr revID \<Rightarrow> SavedRevision revID, ApplyComplete]) (unlock s4)"
proof -
  let ?s1 = "end_call (nodes s) s"
  have p: "env_ok E" "faults s = (\<lambda>_. None)" "ready (pl_Steps default_pipeline) (nodes ?s1)"
    using assms(2) by (simp_all add: prepared_def)
  note load = LoadFile_site [OF assms(3) p(2), of E]
  show thesis
  proof (cases "ev_Yaml E data")
    case (Inl e)
    with assms(1) [symmetric] load show thesis
      by (intro refused [of "[LoadError (ParseYAMLError e)]"]) (simp add: cmdApply_def Parse_def)
  next
    case (Inr cfg)
    then have cfg: "LoadFile (ev_Yaml E) path s = (Inr cfg, ?s1)" using load by (simp add: Parse_def)
    show thesis
    proof (cases "Validate cfg = []")
      case False
      with assms(1) [symmetric] cfg show thesis
        by (intro refused [of "[ValidationErrors (Validate cfg)]"]) (simp add: cmdApply_def Let_def)
    next
      case True
      obtain l s2 where l: "locked_run E cfg ?s1 = (l, s2)" by fastforce
      show thesis
      proof (cases l)
        case (Inl out)
        with assms(1) [symmetric] cfg True l Inr show thesis by (intro failed) (simp_all add: cmdApply_def)
      next
        case (Inr out)
        have site: "map_of (nodes s2) path = Some (File data)" "faults s2 = (\<lambda>_. None)"
          using locked_run_keeps [OF l p(1,3), of path] assms(3) p(2) by (simp_all add: site_file_def)
        then have rd: "os_ReadFile path s2 = (Inr data, end_call (nodes s2) s2)"
          by (intro os_ReadFile_ok) (simp_all add: call_fate_def)
        show thesis
        proof (cases "save_in E data (''apply from '' @ path) (end_call (nodes s2) s2)")
          case None
          with assms(1) [symmetric] cfg True l Inr rd show thesis by (intro endless) (simp add: cmdApply_def)
        next
          case (Some x)
          then obtain saved s4 where "x = (saved, s4)" by fastforce
          with Some assms(1) [symmetric] cfg True l Inr rd \<open>ev_Yaml E data = Inr cfg\<close> show thesis
            by (intro saved [of cfg out s2 saved s4]) (simp_all add: cmdApply_def)
        qed
      qed
    qed
  qed
qed

text \<open>What a successful apply leaves, for the properties and for the commands after it.\<close>

lemma cmdApply_done:
  assumes "cmdApply E path s = Exits 0 out s'" "prepared E s" "site_file (nodes s) path data"
    "saves_ok E data (''apply from '' @ path)"
  obtains cfg n rid meta where "ev_Yaml E data = Inr cfg" "Validate cfg = []" "installed cfg (nodes s')"
    "out = map (StepDone \<circ> st_Name) (pl_Steps default_pipeline) @ [SavedRevision rid, ApplyComplete]"
    "rid = id_at (time_id (ev_Now E)) n"
    "meta = \<lparr>md_ID = rid, md_Timestamp = ev_Now E, md_SHA256 = ev_Digest E data, md_Comment = ''apply from '' @ path\<rparr>"
    "fst (Current the_store s') = rid" "revision_at (ev_Decode E) (nodes s') DefaultStoreDir rid data meta"
    "faults s' = (\<lambda>_. None)" "store_tree (nodes s') DefaultStoreDir" "store_filled (ev_Decode E) (nodes s') DefaultStoreDir"
    "\<And>k m. stored (ev_Decode E) (nodes s') DefaultStoreDir k m \<longleftrightarrow>
       (k = rid \<and> m = meta) \<or> stored (ev_Decode E) (nodes s) DefaultStoreDir k m"
    "\<And>k c m. revision_at (ev_Decode E) (nodes s) DefaultStoreDir k c m \<Longrightarrow>
       revision_at (ev_Decode E) (nodes s') DefaultStoreDir k c m"
    "\<forall>l < n. map_of (nodes s) (path_join DefaultStoreDir (id_at (time_id (ev_Now E)) l)) \<noteq> None"
    "ready (pl_Steps default_pipeline) (nodes s')"
proof (rule cmdApply_cases [OF assms(1-3)], goal_cases)
  case (4 cfg out1 s2 saved s4)
  have s': "s' = unlock s4" using 4 by simp
  have p: "env_ok E" "ready (pl_Steps default_pipeline) (nodes (end_call (nodes s) s))"
    using assms(2) by (simp_all add: prepared_def)
  show thesis
  proof (rule run_and_save [OF prepared_call [OF assms(2)] 4(4) _ _ assms(4) 4(5)], goal_cases)
    case (3 n rid meta)
    obtain s1 res where x: "Execute (ev_Pick E) (ev_Its E) default_pipeline cfg s1 = (res, s2)" "rs_Err res = None"
      "ready (pl_Steps default_pipeline) (nodes s1)"
      by (rule locked_run_Inr [OF 4(4) p])
    have "ready (pl_Steps default_pipeline) (nodes s2)"
      using Execute_ready [OF x(1) default_pipeline_ok(1) x(3) _ default_pipeline_ok(2)] p(1) by (simp add: env_ok_def)
    then have r: "ready (pl_Steps default_pipeline) (nodes s')" using same_etc_default(1) [OF 3(12)] s' by simp
    show thesis
      by (rule that [OF 4(2,3) 3(11) [folded s'] _ 3(2,3) 3(7) [folded s'] 3(9) [folded s'] 3(4) [folded s'] 3(5) [folded s']
            3(6) [folded s'] 3(8) [folded s', simplified] 3(10) [folded s', simplified] 3(15) [unfolded end_call_simps] r])
        (use 3(1,13) 4(6) in simp_all)
  qed simp_all
qed (use assms(1) in simp_all)

text \<open>A failed run under the lock: no configuration file that existed has changed.\<close>

lemma locked_run_Inl:
  assumes "locked_run E cfg s = (Inl out, s')" "env_ok E" "ready (pl_Steps default_pipeline) (nodes s)" "faults s = (\<lambda>_. None)"
    "st \<in> set (pl_Steps default_pipeline)" "map_of (nodes s) (st_ConfigPath st) = Some (File d)"
  shows "map_of (nodes s') (st_ConfigPath st) = Some (File d)"
proof -
  obtain e s1 where a: "AcquireLock (ev_Busy E) s = (e, s1)" by fastforce
  have "st_ConfigPath st \<in> paths_of (pl_Steps default_pipeline)" using assms(5) by (simp add: paths_of_def)
  then have old: "map_of (nodes s1) (st_ConfigPath st) = Some (File d)"
    using lock_same_etc(1) [OF a] default_paths(1) assms(6) by (simp add: same_etc_def)
  show ?thesis
  proof (cases e)
    case (Some x)
    with a assms(1) old show ?thesis by (auto simp: locked_run_def)
  next
    case None
    obtain res s2 where x: "Execute (ev_Pick E) (ev_Its E) default_pipeline cfg s1 = (res, s2)" by fastforce
    have f: "rs_Failed res \<noteq> []" "s' = s2"
      using a None x assms(1) by (auto simp: locked_run_def default_pipeline_def Let_def split: if_splits)
    have env: "pick_ok (ev_Pick E)" "some_order (ev_Its E 2)" using assms(2) by (simp_all add: env_ok_def)
    have err: "rs_Err res \<noteq> None"
      using Execute_failed [OF x default_pipeline_ok(1) env(1) default_pipeline_ok(2) default_names(1)] f(1) by blast
    have "faults s1 = (\<lambda>_. None)" using AcquireLock_keeps(2) [OF a] assms(4) by simp
    from Execute_restores [OF x err this default_pipeline_ok(1) same_etc_default(1) [OF lock_same_etc(1) [OF a] assms(3)]
        env(1) default_pipeline_ok(2) env(2) assms(5) old] f(2)
    show ?thesis by simp
  qed
qed

section \<open>Rolling back\<close>

lemma cmdRollback_done:
  assumes "cmdRollback E s = Exits 0 out s'" "prepared E s" "\<And>c k. saves_ok E c (''rollback to '' @ k)"
  obtains prev s1 content meta cfg rid meta' where "fst (Previous (ev_Decode E) (ev_Sorter E) the_store s) = prev"
    "nodes s1 = nodes s" "faults s1 = (\<lambda>_. None)"
    "fst (Get (ev_Decode E) the_store prev s1) = Inr (content, meta)" "ev_Yaml E content = Inr cfg"
    "installed cfg (nodes s')" "fst (Current the_store s') = rid"
    "revision_at (ev_Decode E) (nodes s') DefaultStoreDir rid content meta'" "md_Comment meta' = ''rollback to '' @ prev"
    "hd out = RollingBack (md_ID meta) (md_Timestamp meta)"
proof -
  obtain prev s1 where p: "Previous (ev_Decode E) (ev_Sorter E) the_store s = (prev, s1)" by fastforce
  obtain g s2 where g: "Get (ev_Decode E) the_store prev s1 = (g, s2)" by fastforce
  have prev: "prev \<noteq> []" using assms(1) p by (auto simp: cmdRollback_def Let_def)
  obtain content meta where g': "g = Inr (content, meta)" using assms(1) p g prev
    by (cases g) (auto simp: cmdRollback_def Let_def)
  obtain cfg where y: "ev_Yaml E content = Inr cfg" using assms(1) p g prev g'
    by (cases "ev_Yaml E content") (auto simp: cmdRollback_def Let_def Parse_def)
  obtain l s3 where l: "locked_run E cfg s2 = (l, s3)" by fastforce
  obtain out1 where l': "l = Inr out1" using assms(1) p g prev g' y l
    by (cases l) (auto simp: cmdRollback_def Let_def Parse_def)
  obtain saved s4 where sv: "save_in E content (''rollback to '' @ prev) s3 = Some (saved, s4)"
    using assms(1) p g prev g' y l l'
    by (cases "save_in E content (''rollback to '' @ prev) s3") (auto simp: cmdRollback_def Let_def Parse_def)
  have s': "s' = unlock s4" "hd out = RollingBack (md_ID meta) (md_Timestamp meta)"
    using assms(1) p g prev g' y l l' sv by (auto simp: cmdRollback_def Let_def Parse_def)
  note r1 = Previous_reads [OF p] and r2 = Get_reads [OF g]
  have p2: "prepared E s2" by (rule prepared_same [OF assms(2)]) (use r1 r2 in \<open>simp_all add: same_etc_def same_var_def\<close>)
  have get: "nodes s1 = nodes s" "faults s1 = (\<lambda>_. None)" "fst (Get (ev_Decode E) the_store prev s1) = Inr (content, meta)"
    using r1 g g' assms(2) by (simp_all add: prepared_def)
  show thesis
  proof (rule run_and_save [OF p2 l [unfolded l'] _ _ assms(3) sv], goal_cases)
    case (3 n rid meta')
    show thesis
      by (rule that [OF _ get y 3(11) [folded s'(1)] 3(7) [folded s'(1)] 3(9) [folded s'(1)] _ s'(2)]) (use p 3(3) in simp_all)
  qed simp_all
qed

section \<open>When the commands succeed\<close>

text \<open>Nothing stands in the way of a run: no call fails, the commands it needs succeed, the lock is free, and
  the directories are directories or missing.\<close>

definition unhindered :: "env \<Rightarrow> os \<Rightarrow> bool" where
  "unhindered E s \<longleftrightarrow> sound_machine s \<and> fresh_pick (ev_Pick E) \<and> writable (pl_Steps default_pipeline) (nodes s) \<and>
     \<not> ev_Busy E \<and> is_dir (nodes s) ''/run'' \<and> \<not> is_dir (nodes s) LockFilePath"

lemma run_dir_free: "\<not> footprint (pl_Steps default_pipeline) ''/run''" "\<not> footprint (pl_Steps default_pipeline) LockFilePath"
  "''/run'' \<noteq> LockFilePath" "take (length DefaultStoreDir) ''/run'' \<noteq> DefaultStoreDir"
proof -
  show "\<not> footprint (pl_Steps default_pipeline) ''/run''" using default_footprint [of "''/run''"] by auto
  show "\<not> footprint (pl_Steps default_pipeline) LockFilePath"
    using default_footprint [of LockFilePath] lock_paths(1) by blast
  show "''/run'' \<noteq> LockFilePath" "take (length DefaultStoreDir) ''/run'' \<noteq> DefaultStoreDir" by code_simp+
qed

lemma parent_of_valid:
  assumes "Validate cfg = []" "f \<in> set (Interfaces cfg)" "if_VLAN f > 0" "hd (if_Device f) \<noteq> CHR ''.''"
  shows "ParentDevice (if_Device f) \<noteq> []"
proof -
  have "validateInterfaces cfg = []" using assms(1) by (simp add: Validate_def)
  then have "valid_interface f" using assms(2) by (simp add: validateInterfaces_iff valid_interfaces_def)
  then have dot: "CHR ''.'' \<in> set (if_Device f)" "if_Device f \<noteq> []" using assms(3) by (simp_all add: valid_interface_def)
  then obtain i where i: "last_index (CHR ''.'') (if_Device f) = Some i" using last_index_None_iff by fastforce
  then have "i \<noteq> 0" using last_index_Some [OF i] assms(4) dot(2) by (cases i) (auto simp: hd_conv_nth)
  with i dot(2) show ?thesis by (simp add: ParentDevice_def)
qed

lemma locked_run_ok:
  assumes "prepared E s" "unhindered E s" "\<forall>f \<in> set (Interfaces cfg). if_VLAN f > 0 \<longrightarrow> ParentDevice (if_Device f) \<noteq> []"
  obtains out s' where "locked_run E cfg s = (Inr out, s')" "writable (pl_Steps default_pipeline) (nodes s')"
    "sound_machine s'" "is_dir (nodes s') ''/run''" "\<not> is_dir (nodes s') LockFilePath"
proof -
  have p: "env_ok E" "faults s = (\<lambda>_. None)" "ready (pl_Steps default_pipeline) (nodes s)"
    using assms(1) by (simp_all add: prepared_def)
  obtain s1 where a: "AcquireLock (ev_Busy E) s = (None, s1)" "\<not> is_dir (nodes s1) LockFilePath"
    using AcquireLock_ok [OF p(2)] assms(2) by (auto simp: unhindered_def)
  note A = AcquireLock_keeps [OF a(1)]
  have etc: "same_etc (nodes s) (nodes s1)" by (rule lock_same_etc(1) [OF a(1)])
  have s1: "sound_machine s1" "ready (pl_Steps default_pipeline) (nodes s1)" "writable (pl_Steps default_pipeline) (nodes s1)"
    using assms(2) A(2,3) same_etc_default [OF etc] p(3) by (simp_all add: unhindered_def sound_machine_def)
  obtain res s2 where x: "Execute (ev_Pick E) (ev_Its E) default_pipeline cfg s1 = (res, s2)" by fastforce
  have pick: "fresh_pick (ev_Pick E)" "pick_ok (ev_Pick E)" "some_order (ev_Its E 2)"
    using assms(2) p(1) by (simp_all add: unhindered_def env_ok_def)
  have ok: "rs_Err res = None"
    by (rule Execute_ok [OF s1(1) pick(1) default_pipeline_ok(1) s1(2,3) default_reloader default_renders assms(3) x])
  then have "rs_Failed res = []"
    using Execute_failed [OF x default_pipeline_ok(1) pick(2) default_pipeline_ok(2) default_names(1)] by blast
  then have run: "locked_run E cfg s = (Inr (map StepDone (rs_Completed res)), s2)"
    using a(1) x by (simp add: locked_run_def default_pipeline_def)
  note K = Execute_keeps [OF x default_pipeline_ok(1) s1(2) pick(2) default_pipeline_ok(2) pick(3)]
  have w: "writable (pl_Steps default_pipeline) (nodes s2)"
    by (rule Execute_writable [OF x ok default_pipeline_ok(1) s1(2) pick(2) default_pipeline_ok(2) pick(3) s1(3)])
  have "sound_machine s2" "is_dir (nodes s2) ''/run''" "\<not> is_dir (nodes s2) LockFilePath"
    using s1(1) K [OF run_dir_free(1)] K [OF run_dir_free(2)] Execute_answer [OF x default_reloader] a(2) assms(2)
      A(1) [OF run_dir_free(3)]
    by (simp_all add: sound_machine_def is_dir_def unhindered_def)
  with run w show thesis using that by blast
qed

lemma cmdApply_ok:
  assumes "prepared E s" "unhindered E s" "site_file (nodes s) path data" "saves_ok E data (''apply from '' @ path)"
    "ev_Yaml E data = Inr cfg" "Validate cfg = []" "\<forall>f \<in> set (Interfaces cfg). if_VLAN f > 0 \<longrightarrow> hd (if_Device f) \<noteq> CHR ''.''"
  obtains out s' where "cmdApply E path s = Exits 0 out s'" "unhindered E s'"
    "\<And>q. take 4 q \<noteq> ''/etc'' \<Longrightarrow> q \<noteq> LockFilePath \<Longrightarrow> take (length DefaultStoreDir) q \<noteq> DefaultStoreDir \<Longrightarrow>
       map_of (nodes s') q = map_of (nodes s) q"
proof -
  let ?s1 = "end_call (nodes s) s"
  have p1: "prepared E ?s1" by (rule prepared_call [OF assms(1)])
  have u1: "unhindered E ?s1" using assms(2) by (simp add: unhindered_def sound_machine_def)
  have parents: "\<forall>f \<in> set (Interfaces cfg). if_VLAN f > 0 \<longrightarrow> ParentDevice (if_Device f) \<noteq> []"
    using parent_of_valid [OF assms(6)] assms(7) by blast
  obtain out s2 where l: "locked_run E cfg ?s1 = (Inr out, s2)" "writable (pl_Steps default_pipeline) (nodes s2)"
    "sound_machine s2" "is_dir (nodes s2) ''/run''" "\<not> is_dir (nodes s2) LockFilePath"
    by (rule locked_run_ok [OF p1 u1 parents])
  let ?s3 = "end_call (nodes s2) s2"
  have env: "env_ok E" "ready (pl_Steps default_pipeline) (nodes ?s1)" "faults s = (\<lambda>_. None)"
    using p1 assms(1) by (simp_all add: prepared_def)
  have path: "map_of (nodes s2) path = Some (File data)" "faults s2 = (\<lambda>_. None)"
    using locked_run_keeps [OF l(1) env(1,2), of path] assms(3) env(3) by (simp_all add: site_file_def)
  have v: "same_var (nodes s) (nodes ?s3)" using locked_run_same_var [OF l(1) env(1,2)] by simp
  have "store_tree (nodes ?s3) (st_Dir the_store)"
    using same_var_store(1) [OF v] assms(1) var_paths(4) by (simp add: prepared_def)
  from Save_ok [OF _ this, of "ev_Now E" "ev_Digest E" data "''apply from '' @ path" "ev_Encode E"]
  obtain saved s4 where sv: "save_in E data (''apply from '' @ path) ?s3 = Some (saved, s4)"
    using path(2) assms(4) unfolding save_in_def saves_ok_def Let_def by (metis end_call_simps(2))
  have load: "LoadFile (ev_Yaml E) path s = (Inr cfg, ?s1)"
    using LoadFile_site [OF assms(3) env(3), of E] assms(5) by (simp add: Parse_def)
  have rd: "os_ReadFile path s2 = (Inr data, ?s3)" by (rule os_ReadFile_ok) (use path in \<open>simp_all add: call_fate_def\<close>)
  have run: "cmdApply E path s = Exits 0 (out @ [case saved of Inl e \<Rightarrow> SaveWarning e | Inr revID \<Rightarrow> SavedRevision revID,
      ApplyComplete]) (unlock s4)"
    using load assms(6) l(1) rd sv by (simp add: cmdApply_def)
  show thesis
  proof (rule run_and_save [OF p1 l(1) _ _ assms(4) sv], goal_cases)
    case (3 n rid meta)
    have "answer (unlock s4) = answer s2"
      using Save_answer [OF sv [unfolded save_in_def]] unlock_keeps(3) by simp
    moreover have "map_of (nodes (unlock s4)) ''/run'' = map_of (nodes s2) ''/run''"
      using 3(14) [OF run_dir_free(4)] unlock_keeps(1) [OF run_dir_free(3)] by simp
    moreover have "\<not> is_dir (nodes (unlock s4)) LockFilePath"
    proof -
      have "\<not> is_dir (nodes s4) LockFilePath" using 3(14) [OF lock_paths(2)] l(5) by (simp add: is_dir_def)
      then show ?thesis by (auto simp: unlock_def os_Remove_def is_dir_def split: option.splits node.splits)
    qed
    ultimately have "unhindered E (unlock s4)"
      using l(2-4) same_etc_default(2) [OF 3(12)] 3(4) assms(2)
      by (simp add: unhindered_def sound_machine_def is_dir_def)
    moreover have "map_of (nodes (unlock s4)) q = map_of (nodes s) q"
      if "take 4 q \<noteq> ''/etc''" "q \<noteq> LockFilePath" "take (length DefaultStoreDir) q \<noteq> DefaultStoreDir" for q
      using 3(14) [OF that(3)] unlock_keeps(1) [OF that(2), of s4] default_footprint [of q] that(1)
        locked_run_keeps(1) [OF l(1) env(1,2) _ that(2)] by auto
    ultimately show thesis using that run by blast
  qed simp_all
qed


lemma cmdRollback_ok:
  assumes "prepared E s" "unhindered E s" "\<And>c k. saves_ok E c (''rollback to '' @ k)"
    "fst (Previous (ev_Decode E) (ev_Sorter E) the_store s) = prev" "valid_revision_id prev"
    "revision_at (ev_Decode E) (nodes s) DefaultStoreDir prev content meta" "ev_Yaml E content = Inr cfg"
    "\<forall>f \<in> set (Interfaces cfg). if_VLAN f > 0 \<longrightarrow> ParentDevice (if_Device f) \<noteq> []"
  shows "\<exists>out s'. cmdRollback E s = Exits 0 out s'"
proof -
  have f: "faults s = (\<lambda>_. None)" using assms(1) by (simp add: prepared_def)
  obtain s1 where p: "Previous (ev_Decode E) (ev_Sorter E) the_store s = (prev, s1)" using assms(4) by (metis prod.collapse)
  note r1 = Previous_reads [OF p]
  obtain g s2 where g: "Get (ev_Decode E) the_store prev s1 = (g, s2)" by fastforce
  note r2 = Get_reads [OF g]
  have g': "g = Inr (content, meta)"
    using Get_revision_at [of s1 prev "ev_Decode E" the_store content meta] assms(5,6) r1 f g by (simp add: var_paths(4))
  have prev: "prev \<noteq> []" using assms(5) by (auto simp: valid_revision_id_def)
  have p2: "prepared E s2" by (rule prepared_same [OF assms(1)]) (use r1 r2 in \<open>simp_all add: same_etc_def same_var_def\<close>)
  have u2: "unhindered E s2" using assms(2) r1 r2 by (simp add: unhindered_def sound_machine_def)
  obtain out s3 where l: "locked_run E cfg s2 = (Inr out, s3)"
    by (rule locked_run_ok [OF p2 u2 assms(8)])
  have env: "env_ok E" "ready (pl_Steps default_pipeline) (nodes s2)" "faults s2 = (\<lambda>_. None)" using p2 by (simp_all add: prepared_def)
  have f3: "faults s3 = (\<lambda>_. None)" using locked_run_keeps(2) [OF l env(1,2) run_dir_free(1,3)] env(3) by simp
  have "store_tree (nodes s3) (st_Dir the_store)"
    using same_var_store(1) [OF locked_run_same_var [OF l env(1,2)]] p2 var_paths(4) by (simp add: prepared_def)
  from Save_ok [OF f3 this, of "ev_Now E" "ev_Digest E" content "''rollback to '' @ prev" "ev_Encode E"]
  obtain saved s4 where sv: "save_in E content (''rollback to '' @ prev) s3 = Some (saved, s4)"
    using assms(3) [of content prev] unfolding save_in_def saves_ok_def Let_def by metis
  show ?thesis using p prev g g' assms(7) l sv by (simp add: cmdRollback_def Let_def Parse_def)
qed

section \<open>What the commands preserve\<close>

lemma prepared_later:
  assumes "prepared E s" "env_ok E'" "ev_Decode E' = ev_Decode E" "ev_Now E < ev_Now E'"
  shows "prepared E' s"
  using assms less_trans [OF _ assms(4)] by (simp add: prepared_def)

lemma locked_run_prepared:
  assumes "prepared E s" "locked_run E cfg s = (r, s')"
  shows "prepared E s'"
proof -
  have p: "env_ok E" "ready (pl_Steps default_pipeline) (nodes s)" using assms(1) by (simp_all add: prepared_def)
  have f: "faults s' = faults s" by (rule locked_run_keeps(2) [OF assms(2) p run_dir_free(1,3)])
  have "ready (pl_Steps default_pipeline) (nodes s')"
  proof -
    obtain e s1 where a: "AcquireLock (ev_Busy E) s = (e, s1)" by fastforce
    have r1: "ready (pl_Steps default_pipeline) (nodes s1)" by (rule same_etc_default(1) [OF lock_same_etc(1) [OF a] p(2)])
    show ?thesis
    proof (cases e)
      case (Some x)
      with a assms(2) r1 show ?thesis by (auto simp: locked_run_def)
    next
      case None
      obtain res s2 where x: "Execute (ev_Pick E) (ev_Its E) default_pipeline cfg s1 = (res, s2)" by fastforce
      have "s' = s2" using a None x assms(2) by (auto simp: locked_run_def default_pipeline_def Let_def split: if_splits)
      then show ?thesis
        using Execute_ready [OF x default_pipeline_ok(1) r1 _ default_pipeline_ok(2)] p(1) by (simp add: env_ok_def)
    qed
  qed
  with f same_var_store [OF locked_run_same_var [OF assms(2) p]] assms(1) show ?thesis by (simp add: prepared_def)
qed

lemma save_prepared:
  assumes "prepared E s" "saves_ok E content comment" "save_in E content comment s = Some (saved, s')"
    "env_ok E'" "ev_Decode E' = ev_Decode E" "ev_Now E < ev_Now E'"
  shows "prepared E' (unlock s')"
proof -
  have f: "faults s = (\<lambda>_. None)" and st: "store_tree (nodes s) (st_Dir the_store)" "store_filled (ev_Decode E) (nodes s) (st_Dir the_store)"
    and times: "\<And>n m. stored (ev_Decode E) (nodes s) (st_Dir the_store) n m \<Longrightarrow> md_Timestamp m < ev_Now E"
    using assms(1) by (simp_all add: prepared_def var_paths(4))
  have law: "\<exists>d. ev_Encode E m = Inr d \<and> ev_Decode E d = Inr m"
    if "md_Timestamp m = ev_Now E" "md_SHA256 m = ev_Digest E content" "md_Comment m = comment" for m
    using assms(2) that by (simp add: saves_ok_def)
  show ?thesis
  proof (rule Save_filled [where encode = "ev_Encode E" and digest = "ev_Digest E" and now = "ev_Now E" and content = content
        and comment = comment, OF f st], erule (2) law, erule times, goal_cases)
    case (1 n rid meta s4)
    have s': "s' = s4" using 1(1) assms(3) by (simp add: save_in_def)
    note S = 1(2-12) [folded s', unfolded var_paths(4)]
    have "same_etc (nodes s) (nodes s')"
      using S(10) etc_not_store unfolding same_etc_def by blast
    from same_etc_default(1) [OF this] have "ready (pl_Steps default_pipeline) (nodes s')" using assms(1) by (simp add: prepared_def)
    moreover have "md_Timestamp m < ev_Now E'" if "stored (ev_Decode E) (nodes s') DefaultStoreDir k m" for k m
    proof -
      have "md_Timestamp m \<le> ev_Now E" using that times S(2,7) by (auto simp: var_paths(4) intro: less_imp_le)
      with assms(6) show ?thesis by simp
    qed
    ultimately have "prepared E' s'" using S(3,4,5) assms(4,5) by (simp add: prepared_def)
    then show ?case
      by (rule prepared_same) (simp_all add: lock_same_etc(2) unlock_same_var unlock_keeps(2))
  qed
qed

lemma cmdApply_prepared:
  assumes "cmdApply E path s = Exits code out s'" "prepared E s" "\<And>c k. saves_ok E c k"
    "env_ok E'" "ev_Decode E' = ev_Decode E" "ev_Now E < ev_Now E'"
  shows "prepared E' s'"
proof -
  obtain l s1 where load: "LoadFile (ev_Yaml E) path s = (l, s1)" by fastforce
  have same: "nodes s1 = nodes s" "faults s1 = faults s"
    using load by (auto simp: LoadFile_def split: prod.splits sum.splits dest!: os_ReadFile_call)
  have p1: "prepared E s1" by (rule prepared_same [OF assms(2)]) (simp_all add: same same_etc_def same_var_def)
  note later = prepared_later [OF _ assms(4-6)]
  show ?thesis
  proof (cases "\<exists>cfg. l = Inr cfg \<and> Validate cfg = []")
    case False
    then have "s' = s1" using assms(1) load by (cases l) (auto simp: cmdApply_def Let_def)
    with later p1 show ?thesis by simp
  next
    case True
    then obtain cfg where cfg: "l = Inr cfg" "Validate cfg = []" by auto
    obtain r s2 where run: "locked_run E cfg s1 = (r, s2)" by fastforce
    have p2: "prepared E s2" by (rule locked_run_prepared [OF p1 run])
    obtain d s3 where rd: "os_ReadFile path s2 = (d, s3)" by fastforce
    have p3: "prepared E s3" using os_ReadFile_call [OF rd] prepared_call [OF p2] by simp
    show ?thesis
    proof (cases "\<exists>o1 data. r = Inr o1 \<and> d = Inr data")
      case False
      then have "s' = s2 \<or> s' = s3" using assms(1) load cfg run rd by (cases r; cases d) (auto simp: cmdApply_def)
      with later p2 p3 show ?thesis by auto
    next
      case True
      then obtain o1 data where o: "r = Inr o1" "d = Inr data" by auto
      obtain saved s4 where sv: "save_in E data (''apply from '' @ path) s3 = Some (saved, s4)" "s' = unlock s4"
        using assms(1) load cfg run rd o
        by (cases "save_in E data (''apply from '' @ path) s3") (auto simp: cmdApply_def)
      show ?thesis unfolding sv(2) by (rule save_prepared [OF p3 assms(3) sv(1) assms(4-6)])
    qed
  qed
qed

lemma cmdRollback_prepared:
  assumes "cmdRollback E s = Exits code out s'" "prepared E s" "\<And>c k. saves_ok E c k"
    "env_ok E'" "ev_Decode E' = ev_Decode E" "ev_Now E < ev_Now E'"
  shows "prepared E' s'"
proof -
  obtain prev s1 where p: "Previous (ev_Decode E) (ev_Sorter E) the_store s = (prev, s1)" by fastforce
  obtain g s2 where g: "Get (ev_Decode E) the_store prev s1 = (g, s2)" by fastforce
  note r1 = Previous_reads [OF p] and r2 = Get_reads [OF g]
  have p1: "prepared E s1" "prepared E s2"
    by (rule prepared_same [OF assms(2)]; use r1 r2 in \<open>simp add: same_etc_def same_var_def\<close>)+
  note later = prepared_later [OF _ assms(4-6)]
  show ?thesis
  proof (cases "prev \<noteq> [] \<and> (\<exists>content meta cfg. g = Inr (content, meta) \<and> ev_Yaml E content = Inr cfg)")
    case False
    then have "s' = s1 \<or> s' = s2"
      using assms(1) p g by (auto simp: cmdRollback_def Let_def Parse_def split: if_splits sum.splits prod.splits)
    with later p1 show ?thesis by auto
  next
    case True
    then obtain content meta cfg where t: "prev \<noteq> []" "g = Inr (content, meta)" "ev_Yaml E content = Inr cfg" by auto
    obtain r s3 where run: "locked_run E cfg s2 = (r, s3)" by fastforce
    have p3: "prepared E s3" by (rule locked_run_prepared [OF p1(2) run])
    show ?thesis
    proof (cases r)
      case (Inl o1)
      then have "s' = s3" using assms(1) p g t run by (auto simp: cmdRollback_def Let_def Parse_def)
      with later p3 show ?thesis by simp
    next
      case (Inr o1)
      obtain saved s4 where sv: "save_in E content (''rollback to '' @ prev) s3 = Some (saved, s4)" "s' = unlock s4"
        using assms(1) p g t run Inr
        by (cases "save_in E content (''rollback to '' @ prev) s3") (auto simp: cmdRollback_def Let_def Parse_def)
      show ?thesis unfolding sv(2) by (rule save_prepared [OF p3 assms(3) sv(1) assms(4-6)])
    qed
  qed
qed

text \<open>The other commands only read.\<close>

lemma reading_commands:
  "cmdValidate E path s = Exits code out s' \<Longrightarrow> nodes s' = nodes s \<and> faults s' = faults s"
  "cmdRevisions E s = Exits code out s' \<Longrightarrow> nodes s' = nodes s \<and> faults s' = faults s"
  "cmdStatus E s = Exits code out s' \<Longrightarrow> nodes s' = nodes s \<and> faults s' = faults s"
proof -
  show "cmdValidate E path s = Exits code out s' \<Longrightarrow> nodes s' = nodes s \<and> faults s' = faults s"
    by (auto simp: cmdValidate_def LoadFile_def Let_def split: prod.splits sum.splits if_splits dest!: os_ReadFile_call)
  show "cmdRevisions E s = Exits code out s' \<Longrightarrow> nodes s' = nodes s \<and> faults s' = faults s"
    by (auto simp: cmdRevisions_def Let_def split: prod.splits sum.splits if_splits dest!: List_revisions_reads Current_reads)
  show "cmdStatus E s = Exits code out s' \<Longrightarrow> nodes s' = nodes s \<and> faults s' = faults s"
    by (auto simp: cmdStatus_def ReadStatusFile_def Let_def split: prod.splits sum.splits if_splits
        dest!: Get_reads Current_reads os_ReadFile_call)
qed

section \<open>A sample machine\<close>

text \<open>An encoding of metadata that can be read back: every field after its length in unary.\<close>

definition field_text :: "string \<Rightarrow> string" where
  "field_text w = replicate (length w) (CHR ''x'') @ ''.'' @ w"

definition next_field :: "string \<Rightarrow> string \<times> string" where
  "next_field d = (let n = length (takeWhile (\<lambda>c. c = CHR ''x'') d); r = drop (Suc n) d in (take n r, drop n r))"

lemma next_field_text [simp]: "next_field (field_text w @ r) = (w, r)" "next_field (field_text w) = (w, [])"
proof -
  have "takeWhile (\<lambda>c. c = CHR ''x'') (replicate n (CHR ''x'') @ CHR ''.'' # u) = replicate n (CHR ''x'')" for n u
    by (induction n) simp_all
  then show *: "next_field (field_text w @ r) = (w, r)" for r by (simp add: next_field_def field_text_def)
  show "next_field (field_text w) = (w, [])" using * [of "[]"] by simp
qed

definition num_text :: "nat \<Rightarrow> string" where "num_text n = field_text (replicate n (CHR ''1''))"

definition field_encode :: "metadata \<Rightarrow> string + bytes" where
  "field_encode m = (let t = md_Timestamp m in Inr (field_text (md_ID m) @ field_text (md_SHA256 m) @ field_text (md_Comment m) @
     num_text (Year t) @ num_text (Month t) @ num_text (Day t) @ num_text (Hour t) @ num_text (Minute t) @
     num_text (Second t) @ num_text (Nsec t)))"

definition field_decode :: "bytes \<Rightarrow> string + metadata" where
  "field_decode d = (let (i, d) = next_field d; (h, d) = next_field d; (c, d) = next_field d;
     (y, d) = next_field d; (mo, d) = next_field d; (da, d) = next_field d; (ho, d) = next_field d;
     (mi, d) = next_field d; (se, d) = next_field d; (ns, d) = next_field d in
     Inr \<lparr>md_ID = i, md_Timestamp = UTC (length y) (length mo) (length da) (length ho) (length mi) (length se) (length ns),
       md_SHA256 = h, md_Comment = c\<rparr>)"

lemma field_roundtrip: "\<exists>d. field_encode m = Inr d \<and> field_decode d = Inr m"
proof -
  have "field_decode (field_text (md_ID m) @ field_text (md_SHA256 m) @ field_text (md_Comment m) @
     num_text (Year t) @ num_text (Month t) @ num_text (Day t) @ num_text (Hour t) @ num_text (Minute t) @
     num_text (Second t) @ num_text (Nsec t)) = Inr m" if "t = md_Timestamp m" for t
    using that by (cases t) (simp add: field_decode_def num_text_def Let_def)
  then show ?thesis by (simp add: field_encode_def Let_def)
qed

definition cli_tree :: tree where
  "cli_tree = etc_tree @ [(''/run'', Dir), (''/var'', Dir), (''/var/lib'', Dir), (''/var/lib/warp'', Dir),
     (DefaultStoreDir, Dir), (''/a.yaml'', File ''A''), (''/b.yaml'', File ''B'')]"

definition cli_machine :: os where
  "cli_machine = \<lparr>nodes = cli_tree, faults = (\<lambda>_. None), tick = 0, seen = [], cmds = [], answer = all_well\<rparr>"

text \<open>A decoder of configurations that differ in their host name, and an environment at a second.\<close>

definition host_site :: "bytes \<Rightarrow> string + site_config" where
  "host_site d = Inr (dual_wan_site\<lparr>Hostname := d\<rparr>)"

definition cli_env :: "nat \<Rightarrow> bool \<Rightarrow> env" where
  "cli_env n busy = \<lparr>ev_Yaml = host_site, ev_Encode = field_encode, ev_Decode = field_decode, ev_Digest = (\<lambda>_. []),
     ev_Sorter = by_timestamp, ev_Report = (\<lambda>_. Inl []), ev_Pick = long_pick, ev_Its = (\<lambda>_. id),
     ev_Now = UTC 2026 1 2 15 4 n 0, ev_Busy = busy\<rparr>"

lemma cli_env_simps [simp]:
  "ev_Yaml (cli_env n b) = host_site" "ev_Decode (cli_env n b) = field_decode" "ev_Encode (cli_env n b) = field_encode"
  "ev_Now (cli_env n b) = UTC 2026 1 2 15 4 n 0" "ev_Busy (cli_env n b) = b" "ev_Pick (cli_env n b) = long_pick"
  by (simp_all add: cli_env_def)

lemma cli_env_ok: "env_ok (cli_env n b)" "saves_ok (cli_env n b) c k"
  using long_pick_fresh good_orders_id by_timestamp_sorts field_roundtrip
  by (simp_all add: env_ok_def cli_env_def fresh_pick_def saves_ok_def id_def)

lemma cli_valid: "Validate (dual_wan_site\<lparr>Hostname := ''A''\<rparr>) = []" "Validate (dual_wan_site\<lparr>Hostname := ''B''\<rparr>) = []"
  by code_simp+

lemma cli_sites: "site_file cli_tree ''/a.yaml'' ''A''" "site_file cli_tree ''/b.yaml'' ''B''"
  using default_footprint [of "''/a.yaml''"] default_footprint [of "''/b.yaml''"]
  by (auto simp: site_file_def cli_tree_def etc_tree_def LockFilePath_def DefaultStoreDir_def)

lemma cli_store_empty: "map_of cli_tree (path_join DefaultStoreDir n) = None" "map_of cli_tree (revision_path DefaultStoreDir n f) = None"
  by (simp_all add: cli_tree_def etc_tree_def path_join_def revision_path_def DefaultStoreDir_def)

lemma cli_prepared: "prepared (cli_env n b) cli_machine"
proof -
  have "\<forall>q \<in> set (path_prefixes DefaultStoreDir). is_dir cli_tree q" by code_simp
  then have "store_tree cli_tree DefaultStoreDir"
    by (simp add: store_tree_def cli_store_empty is_dir_def) (simp add: DefaultStoreDir_def)
  moreover have none: "\<not> stored field_decode cli_tree DefaultStoreDir k m" for k m
    by (simp add: stored_def is_dir_def cli_store_empty)
  moreover have "store_filled field_decode cli_tree DefaultStoreDir"
    by (simp add: store_filled_def none cli_store_empty)
  moreover have "ready (pl_Steps default_pipeline) cli_tree" by code_simp
  ultimately show ?thesis using cli_env_ok by (simp add: prepared_def cli_machine_def)
qed

lemma cli_unhindered: "unhindered (cli_env n False) cli_machine"
proof -
  have "writable (pl_Steps default_pipeline) cli_tree" "is_dir cli_tree ''/run''" "\<not> is_dir cli_tree LockFilePath"
    by code_simp+
  then show ?thesis
    using long_pick_fresh by (simp add: unhindered_def cli_machine_def sound_machine_def all_well_def)
qed

lemma cli_no_vlans: "\<forall>f \<in> set (Interfaces (dual_wan_site\<lparr>Hostname := h\<rparr>)). if_VLAN f > 0 \<longrightarrow> P f"
  by (simp add: sample_defs)

text \<open>Two applies, one second after the other: the machines that they leave.\<close>

lemma cli_later: "ev_Now (cli_env 5 False) < ev_Now (cli_env 6 False)" "ev_Now (cli_env 6 False) < ev_Now (cli_env 7 False)"
  by (simp_all add: less_utc_time_def time_key_def)

lemma cli_unhindered_again: "unhindered (cli_env m False) s \<Longrightarrow> unhindered (cli_env n False) s"
  by (simp add: unhindered_def)

lemma cli_first_apply:
  obtains out s rid meta where "cmdApply (cli_env 5 False) ''/a.yaml'' cli_machine = Exits 0 out s"
    "prepared (cli_env 6 False) s" "unhindered (cli_env 6 False) s" "site_file (nodes s) ''/b.yaml'' ''B''"
    "valid_revision_id rid" "revision_at field_decode (nodes s) DefaultStoreDir rid ''A'' meta"
    "\<And>k m. stored field_decode (nodes s) DefaultStoreDir k m \<longleftrightarrow> k = rid \<and> m = meta" "md_Timestamp meta = UTC 2026 1 2 15 4 5 0"
proof -
  let ?E = "cli_env 5 False"
  have sites: "site_file (nodes cli_machine) ''/a.yaml'' ''A''" "site_file (nodes cli_machine) ''/b.yaml'' ''B''"
    using cli_sites by (simp_all add: cli_machine_def)
  have cfg: "ev_Yaml ?E ''A'' = Inr (dual_wan_site\<lparr>Hostname := ''A''\<rparr>)" by (simp add: host_site_def)
  obtain out s where run: "cmdApply ?E ''/a.yaml'' cli_machine = Exits 0 out s" and u: "unhindered ?E s"
    and same: "\<And>q. take 4 q \<noteq> ''/etc'' \<Longrightarrow> q \<noteq> LockFilePath \<Longrightarrow> take (length DefaultStoreDir) q \<noteq> DefaultStoreDir \<Longrightarrow>
       map_of (nodes s) q = map_of (nodes cli_machine) q"
  proof (rule cmdApply_ok [where E = ?E, OF cli_prepared cli_unhindered sites(1) cli_env_ok(2) cfg cli_valid(1) cli_no_vlans], goal_cases)
    case (1 out s')
    show thesis by (rule 1(1) [OF 1(2-4)])
  qed
  have b: "take 4 ''/b.yaml'' \<noteq> ''/etc''" "''/b.yaml'' \<noteq> LockFilePath" "take (length DefaultStoreDir) ''/b.yaml'' \<noteq> DefaultStoreDir"
    by code_simp+
  have site: "site_file (nodes s) ''/b.yaml'' ''B''" using sites(2) same [OF b] by (simp add: site_file_def)
  have p: "prepared (cli_env 6 False) s"
    by (rule cmdApply_prepared [OF run cli_prepared cli_env_ok(2,1) _ cli_later(1)]) simp
  show thesis
  proof (rule cmdApply_done [OF run cli_prepared sites(1) cli_env_ok(2)], goal_cases)
    case (1 cfgA n rid meta)
    have none: "\<not> stored field_decode cli_tree DefaultStoreDir k m" for k m
      by (simp add: stored_def is_dir_def cli_store_empty)
    have n: "n = 0" using 1(14) cli_store_empty(1) by (cases n) (auto simp: cli_machine_def)
    have c: "calendar_ok (UTC 2026 1 2 15 4 5 0)" by code_simp
    have valid: "valid_revision_id rid" using valid_id_at [OF c, of n] n by (simp add: 1(5))
    have st: "stored field_decode (nodes s) DefaultStoreDir k m \<longleftrightarrow> k = rid \<and> m = meta" for k m
      using 1(12) none by (simp add: cli_machine_def)
    show thesis
      by (rule that [OF run p cli_unhindered_again [OF u] site valid _ st]) (use 1(6,8) in simp_all)
  qed
qed

lemma cli_second_apply:
  assumes p: "prepared (cli_env 6 False) s" "unhindered (cli_env 6 False) s" and site: "site_file (nodes s) ''/b.yaml'' ''B''"
    and "valid_revision_id rid" and at: "revision_at field_decode (nodes s) DefaultStoreDir rid ''A'' meta"
    and st: "\<And>k m. stored field_decode (nodes s) DefaultStoreDir k m \<longleftrightarrow> k = rid \<and> m = meta"
    and time: "md_Timestamp meta = UTC 2026 1 2 15 4 5 0"
  obtains out s' where "cmdApply (cli_env 6 False) ''/b.yaml'' s = Exits 0 out s'" "prepared (cli_env 7 False) s'"
    "unhindered (cli_env 7 False) s'" "fst (Previous (ev_Decode (cli_env 7 False)) (ev_Sorter (cli_env 7 False)) the_store s') = rid"
    "revision_at (ev_Decode (cli_env 7 False)) (nodes s') DefaultStoreDir rid ''A'' meta"
proof -
  let ?E = "cli_env 6 False" and ?F = "cli_env 7 False"
  have cfg: "ev_Yaml ?E ''B'' = Inr (dual_wan_site\<lparr>Hostname := ''B''\<rparr>)" by (simp add: host_site_def)
  obtain out s' where run: "cmdApply ?E ''/b.yaml'' s = Exits 0 out s'" and u: "unhindered ?E s'"
    by (rule cmdApply_ok [where E = ?E, OF p site cli_env_ok(2) cfg cli_valid(2) cli_no_vlans])
  have p': "prepared ?F s'"
    by (rule cmdApply_prepared [OF run p(1) cli_env_ok(2,1) _ cli_later(2)]) simp
  show thesis
  proof (rule cmdApply_done [OF run p(1) site cli_env_ok(2)], goal_cases)
    case (1 cfgB k rid' meta')
    have st2: "stored field_decode (nodes s') DefaultStoreDir j m \<longleftrightarrow> (j = rid' \<and> m = meta') \<or> (j = rid \<and> m = meta)" for j m
      using 1(12) st by simp
    have "UTC 2026 1 2 15 4 5 0 < UTC 2026 1 2 15 4 6 0" using cli_later(1) by simp
    then have prev: "fst (Previous (ev_Decode ?F) (ev_Sorter ?F) the_store s') = rid"
      by (intro Previous_second [where meta = meta' and cur = meta])
        (use 1(6,7,9,10,11) time cli_env_ok(1) [of 7 False] in
          \<open>auto simp: var_paths(4) st2 newer_def env_ok_def\<close>)
    have "revision_at (ev_Decode ?F) (nodes s') DefaultStoreDir rid ''A'' meta" using 1(13) at by simp
    then show thesis by (rule that [OF run p' cli_unhindered_again [OF u] prev])
  qed
qed

section \<open>Properties\<close>

text \<open>C2. A rollback undoes an apply. On a machine whose newest revision is current and holds the bytes
  \<open>data0\<close>, an apply of another configuration that succeeds, followed by a rollback that succeeds, leaves
  every configuration file as rendered from \<open>data0\<close> and a current revision with these bytes.\<close>

theorem rollback_undoes_apply:
  assumes "cmdApply E path s = Exits 0 out s1" "prepared E s" "site_file (nodes s) path data"
    "saves_ok E data (''apply from '' @ path)"
    "cmdRollback E' s1 = Exits 0 out' s2" "env_ok E'" "ev_Decode E' = ev_Decode E" "ev_Now E < ev_Now E'"
    "\<And>c k. saves_ok E' c (''rollback to '' @ k)"
    "stored (ev_Decode E) (nodes s) DefaultStoreDir rid0 meta0" "valid_revision_id rid0"
    "\<And>k m. stored (ev_Decode E) (nodes s) DefaultStoreDir k m \<Longrightarrow> \<not> newer m meta0"
    "revision_at (ev_Decode E) (nodes s) DefaultStoreDir rid0 data0 meta0"
  shows "\<exists>cfg0 rid meta. ev_Yaml E' data0 = Inr cfg0 \<and> installed cfg0 (nodes s2) \<and> fst (Current the_store s2) = rid \<and>
    revision_at (ev_Decode E) (nodes s2) DefaultStoreDir rid data0 meta \<and> md_Comment meta = ''rollback to '' @ rid0"
proof (rule cmdApply_done [OF assms(1-4)], goal_cases)
  case (1 cfg n rid meta)
  note times = assms(2) [unfolded prepared_def]
  have older: "md_Timestamp m < ev_Now E" if "stored (ev_Decode E) (nodes s) DefaultStoreDir k m" for k m
    using times that by blast
  have p1: "prepared E' s1" 
    using 1(9,10,11,15) assms(6,7,8) less_trans [OF older assms(8)] by (auto simp: prepared_def 1(6,12))
  have prev: "fst (Previous (ev_Decode E') (ev_Sorter E') the_store s1) = rid0"
  proof (rule Previous_second [where meta = meta and cur = meta0])
    show "sorts_newest (ev_Sorter E')" using assms(6) by (simp add: env_ok_def)
    show "m' = meta \<or> \<not> newer m' meta0" if "stored (ev_Decode E') (nodes s1) (st_Dir the_store) n' m'" for n' m'
      using that assms(7,12) by (auto simp: var_paths(4) 1(12))
    show "newer meta meta0" using older [OF assms(10)] by (simp add: newer_def 1(6))
  qed (use 1(7,9,10,11) assms(7,10) in \<open>simp_all add: var_paths(4) 1(12)\<close>)
  show ?case
  proof (rule cmdRollback_done [OF assms(5) p1 assms(9)], goal_cases)
    case (1 prev t content meta1 cfg0 rid' meta')
    have "fst (Get (ev_Decode E') the_store rid0 t) = Inr (data0, meta0)"
      using Get_revision_at [of t rid0 "ev_Decode E'" the_store data0 meta0] 1(2,3) assms(7,11)
        \<open>\<And>k c m. revision_at (ev_Decode E) (nodes s) DefaultStoreDir k c m \<Longrightarrow>
           revision_at (ev_Decode E) (nodes s1) DefaultStoreDir k c m\<close> [OF assms(13)] by (simp add: var_paths(4))
    then have "content = data0" using 1(1,4) prev by simp
    with 1 assms(7) prev show ?case by auto
  qed
qed

theorem rollback_undoes_apply_witness:
  "\<exists>out1 s1 out2 s2 out3 s3. cmdApply (cli_env 5 False) ''/a.yaml'' cli_machine = Exits 0 out1 s1 \<and>
     cmdApply (cli_env 6 False) ''/b.yaml'' s1 = Exits 0 out2 s2 \<and> cmdRollback (cli_env 7 False) s2 = Exits 0 out3 s3 \<and>
     installed (dual_wan_site\<lparr>Hostname := ''A''\<rparr>) (nodes s3)"
proof (rule cli_first_apply, goal_cases)
  case a: (1 out1 s1 rid meta)
  show ?case
  proof (rule cli_second_apply [OF a(2-8)], goal_cases)
    case b: (1 out2 s2)
    have cfg: "ev_Yaml (cli_env n False) h = Inr (dual_wan_site\<lparr>Hostname := h\<rparr>)" for n h by (simp add: host_site_def)
    obtain out3 s3 where run3: "cmdRollback (cli_env 7 False) s2 = Exits 0 out3 s3"
      using cmdRollback_ok [OF b(2,3) cli_env_ok(2) b(4) a(5) b(5) cfg cli_no_vlans] by auto
    have at: "revision_at (ev_Decode (cli_env 6 False)) (nodes s1) DefaultStoreDir rid ''A'' meta" using a(6) by simp
    have "installed (dual_wan_site\<lparr>Hostname := ''A''\<rparr>) (nodes s3)"
      using rollback_undoes_apply [OF b(1) a(2,4) cli_env_ok(2) run3 cli_env_ok(1) _ cli_later(2) cli_env_ok(2) _ a(5) _ at]
        a(7) cfg by (auto simp: newer_def)
    with a(1) b(1) run3 show ?case by blast
  qed
qed





text \<open>C15. Nothing but a failing call or command, another process or an invalid configuration makes an apply
  fail: when no call fails, the commands succeed that have to, the lock is free and the temporary names
  are fresh, every valid configuration whose VLAN devices have a parent is applied and saved.\<close>

theorem apply_completes:
  assumes "prepared E s" "unhindered E s" "site_file (nodes s) path data" "saves_ok E data (''apply from '' @ path)"
    "ev_Yaml E data = Inr cfg" "Validate cfg = []" "\<forall>f \<in> set (Interfaces cfg). if_VLAN f > 0 \<longrightarrow> hd (if_Device f) \<noteq> CHR ''.''"
  shows "\<exists>out s'. cmdApply E path s = Exits 0 out s' \<and> installed cfg (nodes s')"
proof (rule cmdApply_ok [OF assms], goal_cases)
  case (1 out s')
  show ?case
    by (rule cmdApply_done [OF 1(1) assms(1,3,4)]) (use 1(1) assms(5) in auto)
qed

theorem apply_completes_witness:
  "\<exists>out s'. cmdApply (cli_env 5 False) ''/b.yaml'' cli_machine = Exits 0 out s' \<and>
     installed (dual_wan_site\<lparr>Hostname := ''B''\<rparr>) (nodes s')"
proof -
  have site: "site_file (nodes cli_machine) ''/b.yaml'' ''B''" using cli_sites(2) by (simp add: cli_machine_def)
  have cfg: "ev_Yaml (cli_env 5 False) ''B'' = Inr (dual_wan_site\<lparr>Hostname := ''B''\<rparr>)" by (simp add: host_site_def)
  show ?thesis
    by (rule apply_completes [OF cli_prepared cli_unhindered site cli_env_ok(2) cfg cli_valid(2) cli_no_vlans])
qed




end
