(* ===== verification/Report.thy ===== *)
theory Report
  imports Cli
begin

text \<open>
  From the daemon to the status command: the goroutine of \<^verbatim>\<open>cmdMonitor\<close> that writes the health file once
  a second, and what \<^verbatim>\<open>cmdStatus\<close> shows of it.
\<close>

section \<open>The writer\<close>

text \<open>What its \<^verbatim>\<open>select\<close> takes: a second has passed, with the order of the map, the clock and the prober at
  that moment, or the end of the context. The errors of both calls are ignored.\<close>

datatype writer_event = WriteTick "string list \<Rightarrow> string list" int prober | WriterDone

fun status_writer :: "(status_report \<Rightarrow> string + bytes) \<Rightarrow> writer_event list \<Rightarrow> os \<Rightarrow> os" where
  "status_writer encode [] s = s"
| "status_writer encode (WriterDone # es) s = s"
| "status_writer encode (WriteTick it now p # es) s =
     status_writer encode es (snd (WriteStatusFile encode it now StatusFilePath p s))"

definition run_status_writer :: "(status_report \<Rightarrow> string + bytes) \<Rightarrow> writer_event list \<Rightarrow> os \<Rightarrow> os" where
  "run_status_writer encode es s = status_writer encode es (snd (os_MkdirAll (path_dir StatusFilePath) s))"

section \<open>What it leaves\<close>

text \<open>A machine on which the file can be written: the directory is there, the path is a file or free.\<close>

definition report_place :: "os \<Rightarrow> bool" where
  "report_place s \<longleftrightarrow> faults s = (\<lambda>_. None) \<and> is_dir (nodes s) (path_dir StatusFilePath) \<and>
     map_of (nodes s) StatusFilePath \<noteq> Some Dir \<and> (\<forall>g. map_of (nodes s) StatusFilePath \<noteq> Some (Symlink g))"

definition report_of :: "(string list \<Rightarrow> string list) \<Rightarrow> int \<Rightarrow> prober \<Rightarrow> status_report" where
  "report_of it now p = \<lparr>sr_Timestamp = now, sr_Uplinks = map uplink_report (GetAllStates it p)\<rparr>"

lemma report_place_resolve: "report_place s \<Longrightarrow> resolve (nodes s) StatusFilePath = StatusFilePath"
  by (auto simp: report_place_def resolve_def split: option.splits node.splits)

lemma report_dir: "path_dir StatusFilePath \<noteq> StatusFilePath" "take 4 StatusFilePath \<noteq> ''/var''"
  "\<forall>q \<in> set (path_prefixes (path_dir StatusFilePath)). take 4 q \<noteq> ''/var'' \<and> q \<noteq> StatusFilePath"
  by code_simp+

lemma WriteStatusFile_place:
  assumes "report_place s"
  shows "report_place (snd (WriteStatusFile encode it now StatusFilePath p s)) \<and>
    same_var (nodes s) (nodes (snd (WriteStatusFile encode it now StatusFilePath p s)))"
    "encode (report_of it now p) = Inr data \<Longrightarrow>
       map_of (nodes (snd (WriteStatusFile encode it now StatusFilePath p s))) StatusFilePath = Some (File data)"
proof -
  have ok: "os_WriteFile StatusFilePath d s = (None, end_call (AList.update StatusFilePath (File d) (nodes s)) s)" for d
    using assms report_place_resolve [OF assms] by (intro os_WriteFile_ok) (simp_all add: report_place_def call_fate_def is_dir_def)
  show "report_place (snd (WriteStatusFile encode it now StatusFilePath p s)) \<and>
      same_var (nodes s) (nodes (snd (WriteStatusFile encode it now StatusFilePath p s)))"
    using assms report_dir
    by (auto simp: WriteStatusFile_def ok report_place_def same_var_def is_dir_def split: sum.splits)
  show "map_of (nodes (snd (WriteStatusFile encode it now StatusFilePath p s))) StatusFilePath = Some (File data)"
    if "encode (report_of it now p) = Inr data"
    using that by (simp add: WriteStatusFile_def report_of_def ok)
qed

lemma status_writer_place:
  "report_place s \<Longrightarrow> report_place (status_writer encode es s) \<and> same_var (nodes s) (nodes (status_writer encode es s))"
proof (induction encode es s rule: status_writer.induct)
  case (3 encode it now p es s)
  from 3 WriteStatusFile_place(1) [OF 3(2), of encode it now p] show ?case by (auto intro: same_var_trans)
qed (simp_all add: same_var_def)

lemma status_writer_snoc:
  "WriterDone \<notin> set es \<Longrightarrow> status_writer encode (es @ [WriteTick it now p]) s =
     snd (WriteStatusFile encode it now StatusFilePath p (status_writer encode es s))"
  by (induction encode es s rule: status_writer.induct) simp_all

definition report_ready :: "os \<Rightarrow> bool" where
  "report_ready s \<longleftrightarrow> faults s = (\<lambda>_. None) \<and>
     (\<forall>q \<in> set (path_prefixes (path_dir StatusFilePath)). map_of (nodes s) q = None \<or> map_of (nodes s) q = Some Dir) \<and>
     map_of (nodes s) StatusFilePath \<noteq> Some Dir \<and> (\<forall>g. map_of (nodes s) StatusFilePath \<noteq> Some (Symlink g))"

lemma report_dir_made:
  assumes "report_ready s"
  shows "report_place (snd (os_MkdirAll (path_dir StatusFilePath) s)) \<and>
    same_var (nodes s) (nodes (snd (os_MkdirAll (path_dir StatusFilePath) s)))"
proof -
  obtain e s1 where mk: "os_MkdirAll (path_dir StatusFilePath) s = (e, s1)" by fastforce
  obtain t where t: "s1 = end_call t s"
    "untouched (\<lambda>q. q \<in> set (path_prefixes (path_dir StatusFilePath))) (\<lambda>_. False) (nodes s) t"
    using os_MkdirAll_call [OF mk] by blast
  have same: "map_of t q = map_of (nodes s) q" if "q = StatusFilePath \<or> take 4 q = ''/var''" for q
    using untouched_same [OF t(2)] report_dir(3) that by auto
  have "is_dir (nodes s1) (path_dir StatusFilePath)"
    by (rule os_MkdirAll_ok(2) [OF _ _ mk]) (use assms in \<open>simp_all add: report_ready_def call_fate_def\<close>)
  with assms same mk t(1) show ?thesis by (simp add: report_place_def report_ready_def same_var_def)
qed

lemma cmdStatus_shows:
  assumes "report_place s" "map_of (nodes s) StatusFilePath = Some (File data)" "ev_Report E data = Inr report"
    and "map_of (nodes s) (path_join DefaultStoreDir ''current'') = Some (Symlink rid)" "valid_revision_id rid"
    and "revision_at (ev_Decode E) (nodes s) DefaultStoreDir rid content meta"
  shows "\<exists>s'. cmdStatus E s = Exits 0 (CurrentRevision (md_ID meta) (md_Timestamp meta) (md_SHA256 meta) #
    (if md_Comment meta \<noteq> [] then [Comment (md_Comment meta)] else []) @ map uplink_row (sr_Uplinks report)) s'"
proof -
  have f: "faults s = (\<lambda>_. None)" using assms(1) by (simp add: report_place_def)
  obtain s1 where c: "Current the_store s = (rid, s1)" "nodes s1 = nodes s" "faults s1 = (\<lambda>_. None)"
    using Current_link [OF f, of the_store rid] assms(4) Current_reads f
    by (cases "Current the_store s") (auto simp: var_paths(4))
  obtain s2 where g: "Get (ev_Decode E) the_store rid s1 = (Inr (content, meta), s2)" "nodes s2 = nodes s" "faults s2 = (\<lambda>_. None)"
    using Get_revision_at [OF c(3) assms(5), of "ev_Decode E" the_store content meta] assms(6) c Get_reads
    by (cases "Get (ev_Decode E) the_store rid s1") (auto simp: var_paths(4))
  have r: "os_ReadFile StatusFilePath s2 = (Inr data, end_call (nodes s) s2)"
    using os_ReadFile_ok [of s2 StatusFilePath data] assms(2) g(2,3) by (simp add: call_fate_def)
  have "rid \<noteq> []" using assms(5) by (auto simp: valid_revision_id_def)
  with c g r assms(3) show ?thesis by (auto simp: cmdStatus_def Let_def ReadStatusFile_def)
qed

section \<open>Properties\<close>

text \<open>C36. \<^verbatim>\<open>warp status\<close> shows what the daemon sees: after any number of writes the command prints the current
  revision and one row per uplink, with the state that the prober had at the last write.\<close>

theorem status_shows_monitor:
  assumes "report_ready s" "WriterDone \<notin> set es" "some_order it"
    and json: "encode (report_of it now p) = Inr data" "ev_Report E data = Inr (report_of it now p)"
    and current: "map_of (nodes s) (path_join DefaultStoreDir ''current'') = Some (Symlink rid)" "valid_revision_id rid"
      "revision_at (ev_Decode E) (nodes s) DefaultStoreDir rid content meta"
  shows "\<exists>rows s'. cmdStatus E (run_status_writer encode (es @ [WriteTick it now p]) s) =
      Exits 0 (CurrentRevision (md_ID meta) (md_Timestamp meta) (md_SHA256 meta) #
        (if md_Comment meta \<noteq> [] then [Comment (md_Comment meta)] else []) @ rows) s' \<and>
    mset rows = mset (map (\<lambda>n. uplink_row (uplink_report (the (GetState p n)))) (keys_of (pr_states p)))"
proof -
  let ?s1 = "status_writer encode es (snd (os_MkdirAll (path_dir StatusFilePath) s))"
  let ?s2 = "snd (WriteStatusFile encode it now StatusFilePath p ?s1)"
  have p1: "report_place ?s1" and v1: "same_var (nodes s) (nodes ?s1)"
    using report_dir_made [OF assms(1)] status_writer_place [of _ encode es] by (auto intro: same_var_trans)
  note W = WriteStatusFile_place [OF p1, of encode it now p]
  have v2: "same_var (nodes s) (nodes ?s2)" using W(1) v1 by (auto intro: same_var_trans)
  then have link: "map_of (nodes ?s2) (path_join DefaultStoreDir ''current'') = Some (Symlink rid)"
    using current(1) var_paths(1) by (simp add: same_var_def)
  obtain s' where out: "cmdStatus E ?s2 = Exits 0 (CurrentRevision (md_ID meta) (md_Timestamp meta) (md_SHA256 meta) #
      (if md_Comment meta \<noteq> [] then [Comment (md_Comment meta)] else []) @ map uplink_row (sr_Uplinks (report_of it now p))) s'"
    using cmdStatus_shows [OF W(1) [THEN conjunct1] W(2) [OF json(1)] json(2) link current(2) same_var_store(4) [OF v2 current(3)]]
    by blast
  have "mset (it (keys_of (pr_states p))) = mset (keys_of (pr_states p))" using assms(3) by (simp add: some_order_def)
  then have "mset (map uplink_row (sr_Uplinks (report_of it now p))) =
      mset (map (\<lambda>n. uplink_row (uplink_report (the (GetState p n)))) (keys_of (pr_states p)))"
    by (simp add: report_of_def GetAllStates_def GetState_def comp_def flip: multiset.map_comp)
  moreover have "run_status_writer encode (es @ [WriteTick it now p]) s = ?s2"
    using assms(2) by (simp add: run_status_writer_def status_writer_snoc)
  ultimately show ?thesis using out by auto
qed

text \<open>A machine with one revision, and a prober that had one reply after three milliseconds.\<close>

definition report_meta :: metadata where
  "report_meta = \<lparr>md_ID = ''20260102T150405Z'', md_Timestamp = UTC 2026 1 2 15 4 5 0, md_SHA256 = ''ab'', md_Comment = []\<rparr>"

definition report_machine :: os where
  "report_machine = \<lparr>nodes =
     [(''/run'', Dir), (path_join DefaultStoreDir ''current'', Symlink ''20260102T150405Z''),
      (path_join DefaultStoreDir ''20260102T150405Z'', Dir),
      (revision_path DefaultStoreDir ''20260102T150405Z'' MetadataFile, File ''m''),
      (revision_path DefaultStoreDir ''20260102T150405Z'' ConfigFile, File ''c'')],
     faults = (\<lambda>_. None), tick = 0, seen = [], cmds = [], answer = (\<lambda>_. (True, []))\<rparr>"

definition report_prober :: prober where
  "report_prober = fst (the (doPing sample_probe 10 13 (Inr 3000000) (Start [sample_probe] NewProber)))"

theorem status_shows_monitor_witness:
  "\<exists>E encode s'. cmdStatus E (run_status_writer encode [WriteTick id 7 report_prober] report_machine) =
     Exits 0 [CurrentRevision ''20260102T150405Z'' (UTC 2026 1 2 15 4 5 0) ''ab'',
       UplinkRow (pc_Name sample_probe) ''healthy'' (pc_Target sample_probe) (Some 3) 1 0] s'"
proof -
  let ?E = "cli_env 5 False\<lparr>ev_Decode := \<lambda>_. Inr report_meta, ev_Report := \<lambda>_. Inr (report_of id 7 report_prober)\<rparr>"
  have ready: "report_ready report_machine" by (simp add: report_ready_def report_machine_def) code_simp
  have link: "map_of (nodes report_machine) (path_join DefaultStoreDir ''current'') = Some (Symlink ''20260102T150405Z'')"
    by code_simp
  have valid: "valid_revision_id ''20260102T150405Z''" by code_simp
  have "is_dir (nodes report_machine) (path_join DefaultStoreDir ''20260102T150405Z'')"
    "map_of (nodes report_machine) (revision_path DefaultStoreDir ''20260102T150405Z'' MetadataFile) = Some (File ''m'')"
    "map_of (nodes report_machine) (revision_path DefaultStoreDir ''20260102T150405Z'' ConfigFile) = Some (File ''c'')"
    by code_simp+
  then have at: "revision_at (ev_Decode ?E) (nodes report_machine) DefaultStoreDir ''20260102T150405Z'' ''c'' report_meta"
    by (simp add: revision_at_def)
  have row: "map (\<lambda>n. uplink_row (uplink_report (the (GetState report_prober n)))) (keys_of (pr_states report_prober)) =
      [UplinkRow (pc_Name sample_probe) ''healthy'' (pc_Target sample_probe) (Some 3) 1 0]"
    by code_simp
  show ?thesis
    using status_shows_monitor [OF ready _ _ _ _ link valid at, of "[]" id "\<lambda>_. Inr []" 7 report_prober "[]"] row
    by (intro exI [of _ ?E] exI [of _ "\<lambda>_. Inr []"]) (auto simp: some_order_def report_meta_def)
qed

end
