(* ===== verification/Spec2Isabelle.thy ===== *)
theory Spec2Isabelle
  imports Prelude NetAddr GoOS Config Validate Samples Frr Sysctl Unbound Nftables Kea Health Lifecycle Icmp
    Routes Failover Vtysh Netlink Monitor Startup Vlan Apply Rollback Footprint Revision Lock Cli Report
begin

text \<open>
  A model of Warp Router, the Go program that turns one YAML description of a site into the
  configuration of FRR, nftables, Kea, Unbound and sysctl, installs it, keeps its revisions and
  watches the uplinks. All of the implementation under \<^verbatim>\<open>cmd/\<close> and \<^verbatim>\<open>internal/\<close> is modelled.

  \<^bold>\<open>The program.\<close> \<^verbatim>\<open>warp apply\<close> loads and validates the site configuration, takes a lock, provisions the
  VLAN devices, renders and installs one file per service and reloads it, and saves the configuration
  as a revision; a failed step restores the files. \<^verbatim>\<open>warp rollback\<close> does the same with the revision
  before the current one. \<^verbatim>\<open>warp monitor\<close> runs one probe loop per uplink; changes of an uplink's health
  go to the failover controller, which has a route manager replace the default routes. It writes a
  health file that \<^verbatim>\<open>warp status\<close> shows with the current revision.

  \<^bold>\<open>Theories and sources.\<close>
  \<^item> \<^theory_text>\<open>Prelude\<close>: 64-bit wrap-around, text of numbers, lines, Go maps as association lists and their
    iteration orders, the collections of lemmas.
  \<^item> \<^theory_text>\<open>NetAddr\<close>: the part of Go's package \<^verbatim>\<open>net\<close> that the program uses (parsing and printing of addresses
    and prefixes, masks on bytes, membership).
  \<^item> \<^theory_text>\<open>GoOS\<close>: the machine: a tree of files, directories and links, the log of commands, the answers to
    them, and a schedule that decides for every call whether it fails or stops short. Its field \<open>seen\<close>
    holds every tree there was, so that a theorem can speak about a crash between two calls.
  \<^item> \<^theory_text>\<open>Config\<close>, \<^theory_text>\<open>Validate\<close>: \<^verbatim>\<open>internal/config/config.go\<close> and \<^verbatim>\<open>validate.go\<close>.
  \<^item> \<^theory_text>\<open>Frr\<close>, \<^theory_text>\<open>Sysctl\<close>, \<^theory_text>\<open>Unbound\<close>, \<^theory_text>\<open>Nftables\<close>, \<^theory_text>\<open>Kea\<close>: the renderers under \<^verbatim>\<open>internal/services\<close>, each as the
    data that the Go code builds and the text that its template or encoder makes of it.
  \<^item> \<^theory_text>\<open>Health\<close>: \<^verbatim>\<open>internal/health\<close>, the prober and the status file; \<^theory_text>\<open>Lifecycle\<close>: its goroutines, from \<^verbatim>\<open>Start\<close>
    to \<^verbatim>\<open>Stop\<close>; \<^theory_text>\<open>Icmp\<close>: its own ping.
  \<^item> \<^theory_text>\<open>Routes\<close>: the interface \<^verbatim>\<open>RouteManager\<close> and its contract, the locale \<open>route_manager\<close>; \<^theory_text>\<open>Failover\<close>: the
    controller (\<^verbatim>\<open>controller.go\<close>), proved over the contract alone; \<^theory_text>\<open>Vtysh\<close> and \<^theory_text>\<open>Netlink\<close>: the two managers
    (\<^verbatim>\<open>vtysh.go\<close>, \<^verbatim>\<open>netlink.go\<close>), which meet it.
  \<^item> \<^theory_text>\<open>Monitor\<close>: the daemon of \<^verbatim>\<open>cmdMonitor\<close> as a step relation; \<^theory_text>\<open>Startup\<close>: what it starts from.
  \<^item> \<^theory_text>\<open>Vlan\<close>, \<^theory_text>\<open>Apply\<close>, \<^theory_text>\<open>Rollback\<close>, \<^theory_text>\<open>Footprint\<close>, \<^theory_text>\<open>Lock\<close>: \<^verbatim>\<open>internal/apply/apply.go\<close>. \<^theory_text>\<open>Apply\<close> holds the definitions
    of the pipeline, \<^theory_text>\<open>Rollback\<close> and \<^theory_text>\<open>Footprint\<close> what a run does to the files and when it succeeds.
  \<^item> \<^theory_text>\<open>Revision\<close>: \<^verbatim>\<open>internal/revision/store.go\<close>.
  \<^item> \<^theory_text>\<open>Cli\<close>, \<^theory_text>\<open>Report\<close>: \<^verbatim>\<open>cmd/warp/main.go\<close>, the commands over all of the above.
  \<^item> \<^theory_text>\<open>Samples\<close>: the configurations of the unit tests and of the reference, for the witnesses.

  A Go struct is a record with the same fields, an error a value of a datatype that holds what its message
  prints, a Go map an association list with distinct keys; a loop over a map takes the order as an
  argument, and theorems hold for every order. A definition has the name of its Go function wherever that
  name is free in HOL; each branch and each early return of the code is a branch of the definition.

  \<^bold>\<open>What the lemmas show.\<close>
  \<^item> Configuration: \<open>Validate\<close> accepts exactly the configurations of a declarative contract; its overlap test,
    two memberships per pair, finds exactly the networks that share an address.
  \<^item> Renderers: the routes, rules, scopes and options in the output are exactly those configured, read back
    off the rendered text; the nftables rules give a packet the action of the first rule that applies.
  \<^item> Apply: the atomic write under every pattern of failures and at every moment; restoration after a
    failure; success of a run; the commands it runs; what it can touch at all (\<open>footprint\<close>); VLAN commands.
  \<^item> Revisions: termination of the search for an identifier, save and get, listing and its order, the
    previous revision. Lock: mutual exclusion of processes, and the race that removing the file opens.
  \<^item> Failover: status as a function of the history of replies; after every interleaving of probes and
    callbacks the routes in FRR are those of the uplinks that are not down, unless an update failed.
  \<^item> Commands: apply and rollback from arguments to exit code, on the machine that they leave; that a
    rollback undoes an apply; that a machine in order (\<open>prepared\<close>) stays so under every command; that the
    daemon's idea of the routes is what an apply rendered; that the status command shows the daemon's.

  \<^bold>\<open>Bounds.\<close> The search for a free identifier in \<open>Save\<close> need not end and is a \<^theory_text>\<open>partial_function\<close>: not to
  return is \<^const>\<open>None\<close>, and a theorem says when it returns. Counters are 64-bit: the theorems on the daemon
  hold for runs of less than \<open>2 ^ 63\<close> steps, before a count of failures can wrap around. All other
  recursion is structural or has a measure; nothing uses fuel.

  \<^bold>\<open>Parameters.\<close> Code outside the repository is an argument: the YAML decoder, \<^verbatim>\<open>encoding/json\<close> on metadata and
  reports, SHA-256, the order that the unstable \<^verbatim>\<open>sort.Slice\<close> gives equal elements, the random part of temporary
  names, the clock, the netlink library, the ICMP package, and the answers of the commands run. What a
  theorem needs of them is a hypothesis with a name: that decoding inverts encoding, that temporary names
  are fresh, that a \<^verbatim>\<open>vtysh\<close> command that succeeds configures its route and one that fails changes nothing.

  \<^bold>\<open>Not modelled.\<close> The layout of messages on the terminal, with the two output streams; waiting for a signal in
  \<^verbatim>\<open>cmdMonitor\<close>; file modes; the rounding of a latency to a float64; the parser of \<^verbatim>\<open>text/template\<close>, whose
  templates are constants and are translated into the text that they produce. The tests under \<^verbatim>\<open>test/\<close> and the
  packaging scripts are not part of the program.
\<close>

end
